(* ===== verification/Prelude.thy ===== *)
theory Prelude
  imports Main "HOL-Library.Word"
begin

unbundle bit_operations_syntax

text \<open>
  Shared vocabulary of the development: the widths the code computes in, the result type of
  code that can fail, decimal rendering (\<open>std::to_string\<close>), and the generic facts on words
  and lists that the component theories use. Nothing here models a file of the repository
  by itself.
\<close>

section \<open>Machine types\<close>

type_synonym u8 = "8 word"
type_synonym u16 = "16 word"
type_synonym u32 = "32 word"
type_synonym u64 = "64 word"

text \<open>A run of bytes: the contents of a buffer, of a socket message, of a \<open>std::string\<close>.\<close>

type_synonym bytes = "u8 list"

text \<open>The bytes of a C string literal.\<close>

definition lit :: "string \<Rightarrow> bytes" where
  "lit s = map of_char s"

lemma length_lit [simp]: "length (lit s) = length s"
  by (simp add: lit_def)

section \<open>Results\<close>

text \<open>
  Code that can fail returns \<open>'e + 'a\<close>: \<open>Inl\<close> is the way it failed, \<open>Inr\<close> its value.
  \<open>bindE\<close> is sequencing: the first failure wins, as an exception leaves the function.
\<close>

definition bindE :: "'e + 'a \<Rightarrow> ('a \<Rightarrow> 'e + 'b) \<Rightarrow> 'e + 'b" where
  "bindE m f = (case m of Inl e \<Rightarrow> Inl e | Inr x \<Rightarrow> f x)"

definition checkE :: "bool \<Rightarrow> 'e \<Rightarrow> 'e + unit" where
  "checkE b e = (if b then Inr () else Inl e)"

named_theorems result_simps "inversion of a computation that returned or failed"

lemma bindE_Inl [simp]: "bindE (Inl e) f = Inl e"
  and bindE_Inr [simp]: "bindE (Inr x) f = f x"
  by (simp_all add: bindE_def)

lemma bindE_eq_Inr [result_simps]:
  "bindE m f = Inr y \<longleftrightarrow> (\<exists>x. m = Inr x \<and> f x = Inr y)"
  by (cases m) auto

lemma bindE_eq_Inl [result_simps]:
  "bindE m f = Inl e \<longleftrightarrow> m = Inl e \<or> (\<exists>x. m = Inr x \<and> f x = Inl e)"
  by (cases m) auto

lemma checkE_True [simp]: "checkE True e = Inr ()"
  and checkE_False [simp]: "checkE False e = Inl e"
  by (simp_all add: checkE_def)

lemma checkE_eq_Inr [result_simps]: "checkE b e = Inr u \<longleftrightarrow> b"
  and checkE_eq_Inl [result_simps]: "checkE b e = Inl e' \<longleftrightarrow> \<not> b \<and> e' = e"
  by (auto simp: checkE_def)

lemma bindE_cong [fundef_cong]:
  "m = m' \<Longrightarrow> (\<And>x. m' = Inr x \<Longrightarrow> f x = f' x) \<Longrightarrow> bindE m f = bindE m' f'"
  by (cases m') auto

text \<open>
  Code that also changes a state is a function of it: \<open>bindP\<close> passes the state on, and the
  state at the time of a failure stays visible.
\<close>

type_synonym ('s, 'e, 'a) prog = "'s \<Rightarrow> ('e + 'a) \<times> 's"

definition retP :: "'a \<Rightarrow> ('s, 'e, 'a) prog" where
  "retP x s = (Inr x, s)"

definition failP :: "'e \<Rightarrow> ('s, 'e, 'a) prog" where
  "failP e s = (Inl e, s)"

definition bindP :: "('s, 'e, 'a) prog \<Rightarrow> ('a \<Rightarrow> ('s, 'e, 'b) prog) \<Rightarrow> ('s, 'e, 'b) prog" where
  "bindP m f s = (case m s of (Inl e, s') \<Rightarrow> (Inl e, s') | (Inr x, s') \<Rightarrow> f x s')"

definition seqP :: "('s, 'e, 'a) prog \<Rightarrow> ('s, 'e, 'b) prog \<Rightarrow> ('s, 'e, 'b) prog" where
  "seqP m k = bindP m (\<lambda>_. k)"

definition checkP :: "bool \<Rightarrow> 'e \<Rightarrow> ('s, 'e, unit) prog" where
  "checkP b e = (if b then retP () else failP e)"

definition liftP :: "('s \<Rightarrow> 'e + 'a) \<Rightarrow> ('s, 'e, 'a) prog" where
  "liftP r s = (r s, s)"

definition modP :: "('s \<Rightarrow> 's) \<Rightarrow> ('s, 'e, unit) prog" where
  "modP f s = (Inr (), f s)"

named_theorems prog_simps "running a program of the state and failure monad"

lemmas [prog_simps] = retP_def failP_def seqP_def liftP_def modP_def

lemma bindP_Inr [prog_simps]: "m s = (Inr x, s') \<Longrightarrow> bindP m f s = f x s'"
  and bindP_Inl [prog_simps]: "m s = (Inl e, s') \<Longrightarrow> bindP m f s = (Inl e, s')"
  by (simp_all add: bindP_def)

lemma bindP_liftP_Inr [prog_simps]: "bindP (liftP (\<lambda>_. Inr x)) k s = k x s"
  and bindP_liftP_Inl [prog_simps]: "bindP (liftP (\<lambda>_. Inl e)) k s = (Inl e, s)"
  by (simp_all add: bindP_def liftP_def)

lemma checkP_run [prog_simps]:
  "checkP b e s = (if b then (Inr (), s) else (Inl e, s))"
  by (simp add: checkP_def retP_def failP_def)

lemma bindP_run: "bindP m f s =
    (case fst (m s) of Inl e \<Rightarrow> (Inl e, snd (m s)) | Inr x \<Rightarrow> f x (snd (m s)))"
  by (cases "m s") (simp add: bindP_def split: sum.split)

section \<open>Decimal rendering\<close>

text \<open>\<open>std::to_string\<close> on an unsigned value.\<close>

fun to_string :: "nat \<Rightarrow> string" where
  "to_string n =
     (if n < 10 then [char_of (48 + n)] else to_string (n div 10) @ [char_of (48 + n mod 10)])"

declare to_string.simps [simp del]

section \<open>Bytes of a word\<close>

text \<open>
  The encoders take a word apart with shifts and masks and put it together with shifts and
  ors. \<open>cut k w\<close> is the byte of \<open>w\<close> at bit \<open>k\<close>, \<open>put k b\<close> the word with byte \<open>b\<close> at bit \<open>k\<close>;
  bit by bit, cutting at \<open>j\<close> undoes putting at \<open>j\<close> and sees nothing of a byte put elsewhere.
\<close>

definition cut :: "nat \<Rightarrow> 'a::len word \<Rightarrow> u8" where
  "cut k w = ucast (drop_bit k w AND 255)"

definition put :: "nat \<Rightarrow> u8 \<Rightarrow> 'a::len word" where
  "put k b = push_bit k (ucast b)"

lemma bit_255: "bit (255 :: 'a::len word) n \<longleftrightarrow> n < 8 \<and> n < LENGTH('a)"
proof -
  have "(255 :: 'a word) = mask 8" by (simp add: mask_eq_exp_minus_1)
  then show ?thesis by (simp only: bit_mask_iff) auto
qed

lemma bit_cut: "bit (cut k w) n \<longleftrightarrow> n < 8 \<and> bit w (k + n)"
  unfolding cut_def bit_ucast_iff bit_and_iff bit_255 bit_drop_bit_eq
  by (auto dest: bit_imp_le_length)

lemma bit_put:
  "k + 8 \<le> LENGTH('a::len) \<Longrightarrow>
    bit (put k b :: 'a word) n \<longleftrightarrow> k \<le> n \<and> n < k + 8 \<and> bit b (n - k)"
  by (auto simp: put_def bit_simps dest: bit_imp_le_length)

lemma bit_put_cut:
  "k + 8 \<le> LENGTH('a::len) \<Longrightarrow>
    bit (put k (cut k w) :: 'a word) n \<longleftrightarrow> k \<le> n \<and> n < k + 8 \<and> bit w n"
  by (auto simp: bit_put bit_cut)

lemma cut_put_same: "k + 8 \<le> LENGTH('a::len) \<Longrightarrow> cut k (put k b :: 'a word) = b"
  by (rule bit_word_eqI) (auto simp: bit_put bit_cut dest: bit_imp_le_length)

lemma cut_put_other:
  "k + 8 \<le> LENGTH('a::len) \<Longrightarrow> j + 8 \<le> k \<or> k + 8 \<le> j \<Longrightarrow> cut j (put k b :: 'a word) = 0"
  by (rule bit_word_eqI) (auto simp: bit_put bit_cut dest: bit_imp_le_length)

lemma cut_or: "cut j (v OR w) = cut j v OR cut j w"
  by (rule bit_word_eqI) (auto simp: bit_cut bit_or_iff)

lemmas cut_simps = cut_or cut_put_same cut_put_other

section \<open>Lists\<close>

lemma take_eq_all_iff_length: "take n xs = xs \<longleftrightarrow> length xs \<le> n"
  by (metis length_take min_def nat_le_linear take_all)

lemma drop_one: "n < length xs \<Longrightarrow> drop n xs = [xs ! n] @ drop (Suc n) xs"
  by (simp add: Cons_nth_drop_Suc)

lemma list_at_split:
  assumes "i < length xs" "xs ! i = x"
  obtains as bs where "xs = as @ x # bs" "i = length as"
  using id_take_nth_drop [OF assms(1)] assms by (metis length_take less_imp_le min_absorb2)

lemma length_eq_Suc_list: "length xs = Suc n \<Longrightarrow> \<exists>y ys. xs = y # ys \<and> length ys = n"
  by (cases xs) auto

lemma unat_of_nat_small:
  "n < 2 ^ LENGTH('a::len) \<Longrightarrow> unat (word_of_nat n :: 'a word) = n"
  by (simp add: unat_of_nat take_bit_nat_eq_self)

end
