(* ===== verification/Errors.thy ===== *)
theory Errors
  imports Prelude
begin

text \<open>
  \<open>core/errors.hpp\<close> and \<open>core/errors.cpp\<close>: the protocol's error codes, the exception class
  \<open>FMXPException\<close> and the helper \<open>throwErr\<close>; with them the standard exceptions the rest of the
  code throws or lets escape, and which \<open>catch\<close> clause stops which of them.
\<close>

section \<open>Error codes\<close>

definition ERR_OTHER :: u8 where "ERR_OTHER = 0"
definition ERR_INVALID_FRAME :: u8 where "ERR_INVALID_FRAME = 1"
definition ERR_FRAME_TOO_LONG :: u8 where "ERR_FRAME_TOO_LONG = 2"
definition ERR_ENCRYPTION :: u8 where "ERR_ENCRYPTION = 3"
definition ERR_SEND_FAILED :: u8 where "ERR_SEND_FAILED = 4"
definition ERR_CONNECTION :: u8 where "ERR_CONNECTION = 5"
definition ERR_ROUTE_NOT_FOUND :: u8 where "ERR_ROUTE_NOT_FOUND = 6"

lemmas error_code_defs = ERR_OTHER_def ERR_INVALID_FRAME_def ERR_FRAME_TOO_LONG_def
  ERR_ENCRYPTION_def ERR_SEND_FAILED_def ERR_CONNECTION_def ERR_ROUTE_NOT_FOUND_def

section \<open>Exceptions\<close>

text \<open>
  \<open>FMXPException\<close> derives from \<open>std::exception\<close> directly, so a handler for
  \<open>std::runtime_error\<close> does not stop it and a handler for \<open>FMXPException\<close> does not stop what
  \<open>throwErr\<close> throws. \<open>std::system_error\<close> is a \<open>runtime_error\<close>; \<open>out_of_range\<close> and
  \<open>invalid_argument\<close> are \<open>logic_error\<close>s; \<open>bad_alloc\<close> and \<open>bad_optional_access\<close> are neither.
\<close>

datatype exn =
    FMXPException u8 string
  | RuntimeError string
  | SystemError
  | OutOfRange string
  | InvalidArgument string
  | BadAlloc
  | BadOptionalAccess

text \<open>
  How a call can end other than by returning: it throws, it runs into undefined behaviour
  (an access outside an array, a use of freed storage), it never returns (a loop that does
  not end), or it exhausts the call stack.
\<close>

datatype fault = Throw exn | Undefined | Diverges | StackOverflow

text \<open>\<open>FMXPException::code\<close> and \<open>FMXPException::what\<close>.\<close>

fun exn_code :: "exn \<Rightarrow> u8 option" where
  "exn_code (FMXPException c m) = Some c"
| "exn_code _ = None"

fun exn_what :: "exn \<Rightarrow> string option" where
  "exn_what (FMXPException c m) = Some m"
| "exn_what (RuntimeError m) = Some m"
| "exn_what (OutOfRange m) = Some m"
| "exn_what (InvalidArgument m) = Some m"
| "exn_what _ = None"

text \<open>\<open>throwErr\<close> throws a \<open>std::runtime_error\<close>, not an \<open>FMXPException\<close>.\<close>

definition throwErr :: "u8 \<Rightarrow> string \<Rightarrow> exn" where
  "throwErr code msg = RuntimeError (''('' @ to_string (unat code) @ '') '' @ msg)"

text \<open>What \<open>catch (const FMXPException&)\<close> and \<open>catch (const std::runtime_error&)\<close> stop.\<close>

fun catches_FMXPException :: "exn \<Rightarrow> bool" where
  "catches_FMXPException (FMXPException c m) = True"
| "catches_FMXPException _ = False"

fun catches_runtime_error :: "exn \<Rightarrow> bool" where
  "catches_runtime_error (RuntimeError m) = True"
| "catches_runtime_error SystemError = True"
| "catches_runtime_error _ = False"

lemma throwErr_caught [simp]:
  "catches_runtime_error (throwErr c m)" "\<not> catches_FMXPException (throwErr c m)"
  by (simp_all add: throwErr_def)

lemma throwErr_neq_FMXPException [simp]: "throwErr c m \<noteq> FMXPException c' m'"
  by (simp add: throwErr_def)

end
