(* ===== verification/Byte_Buffer.thy ===== *)
theory Byte_Buffer
  imports Errors
begin

text \<open>
  \<open>core/ByteBuffer.hpp\<close> and \<open>core/ByteBuffer.cpp\<close>: the growable byte array every other part
  moves its data in. The class manages its storage by hand (\<open>new[]\<close>, \<open>delete[]\<close>, \<open>memcpy\<close>), so
  it is modelled on an explicit memory: objects by identity, blocks by address, indeterminate
  bytes of fresh storage. This theory holds the definitions; \<open>Byte_Buffer_Memory\<close> the memory
  invariant and what each operation does, \<open>Byte_Buffer_Contract\<close> the contract of the class:
  every operation does what the corresponding operation on byte lists does, which is how the
  other theories use buffers.
\<close>

section \<open>Memory\<close>

type_synonym addr = nat
type_synonym oid = nat

text \<open>A byte of a block; \<open>None\<close> is indeterminate, as after \<open>new uint8_t[n]\<close>.\<close>

type_synonym cell = "u8 option"

text \<open>The fields of a \<open>ByteBuffer\<close>; \<open>bb_data = None\<close> is \<open>nullptr\<close>.\<close>

record byte_buffer =
  bb_data :: "addr option"
  bb_size :: u64
  bb_capacity :: u64

text \<open>
  \<open>objs\<close> are the live \<open>ByteBuffer\<close> objects, \<open>blocks\<close> the allocated arrays, \<open>brk\<close> the next
  address \<open>operator new[]\<close> hands out. \<open>can_alloc a n\<close> says whether the allocation that would
  return address \<open>a\<close> succeeds for \<open>n\<close> bytes: any allocation may fail.
\<close>

record mem =
  objs :: "oid \<rightharpoonup> byte_buffer"
  blocks :: "addr \<rightharpoonup> cell list"
  brk :: addr
  can_alloc :: "addr \<Rightarrow> nat \<Rightarrow> bool"

text \<open>
  A pointer argument: null, into a block at an offset, or to storage that is not a
  \<open>ByteBuffer\<close>'s (a \<open>std::string\<close>, a local array), given by the bytes from it on.
\<close>

datatype pointer = Null | Into addr nat | Ext bytes

type_synonym 'a act = "(mem, fault, 'a) prog"

text \<open>\<open>this->field\<close>: using a destroyed object is undefined.\<close>

definition get_this :: "oid \<Rightarrow> byte_buffer act" where
  "get_this i = liftP (\<lambda>m. case objs m i of None \<Rightarrow> Inl Undefined | Some b \<Rightarrow> Inr b)"

definition set_this :: "oid \<Rightarrow> byte_buffer \<Rightarrow> unit act" where
  "set_this i b = modP (\<lambda>m. m\<lparr>objs := (objs m)(i \<mapsto> b)\<rparr>)"

text \<open>\<open>new uint8_t[n]\<close>.\<close>

definition new_array :: "nat \<Rightarrow> addr act" where
  "new_array n m =
    (if can_alloc m (brk m) n
     then (Inr (brk m), m\<lparr>blocks := (blocks m)(brk m \<mapsto> replicate n None), brk := Suc (brk m)\<rparr>)
     else (Inl (Throw BadAlloc), m))"

text \<open>\<open>delete[] p\<close>: nothing for null, undefined for an address that is not allocated.\<close>

definition delete_array :: "addr option \<Rightarrow> unit act" where
  "delete_array p m =
    (case p of None \<Rightarrow> (Inr (), m)
     | Some a \<Rightarrow>
        (case blocks m a of None \<Rightarrow> (Inl Undefined, m)
         | Some c \<Rightarrow> (Inr (), m\<lparr>blocks := (blocks m)(a := None)\<rparr>)))"

definition read_mem :: "pointer \<Rightarrow> nat \<Rightarrow> mem \<Rightarrow> fault + cell list" where
  "read_mem p n m =
    (case p of
       Null \<Rightarrow> if n = 0 then Inr [] else Inl Undefined
     | Into a off \<Rightarrow>
        (case blocks m a of None \<Rightarrow> Inl Undefined
         | Some c \<Rightarrow> if off + n \<le> length c then Inr (take n (drop off c)) else Inl Undefined)
     | Ext bs \<Rightarrow> if n \<le> length bs then Inr (map Some (take n bs)) else Inl Undefined)"

definition write_mem :: "pointer \<Rightarrow> cell list \<Rightarrow> unit act" where
  "write_mem p cs m =
    (case p of
       Into a off \<Rightarrow>
        (case blocks m a of None \<Rightarrow> (Inl Undefined, m)
         | Some c \<Rightarrow>
            if off + length cs \<le> length c
            then (Inr (), m\<lparr>blocks := (blocks m)
                    (a \<mapsto> take off c @ cs @ drop (off + length cs) c)\<rparr>)
            else (Inl Undefined, m))
     | _ \<Rightarrow> (Inl Undefined, m))"

definition overlap :: "pointer \<Rightarrow> pointer \<Rightarrow> nat \<Rightarrow> bool" where
  "overlap p q n = (case (p, q) of
      (Into a i, Into b j) \<Rightarrow> a = b \<and> i < j + n \<and> j < i + n
    | _ \<Rightarrow> False)"

text \<open>\<open>std::memcpy(dst, src, n)\<close>: undefined out of bounds and on overlapping ranges.\<close>

definition memcpy :: "pointer \<Rightarrow> pointer \<Rightarrow> nat \<Rightarrow> unit act" where
  "memcpy dst src n =
    seqP (checkP (\<not> overlap dst src n) Undefined)
      (bindP (liftP (read_mem src n)) (\<lambda>cs. write_mem dst cs))"

definition ptr_of :: "addr option \<Rightarrow> nat \<Rightarrow> pointer" where
  "ptr_of p off = (case p of None \<Rightarrow> Null | Some a \<Rightarrow> Into a off)"

section \<open>Storage\<close>

text \<open>
  The loop \<open>while (newCapacity < newCap) newCapacity *= 2\<close> on \<open>size_t\<close>. The product wraps, so
  the loop need not end: \<open>None\<close> is "does not return".
\<close>

partial_function (option) grow :: "u64 \<Rightarrow> u64 \<Rightarrow> u64 option" where
  "grow newCapacity newCap =
    (if newCapacity < newCap then grow (newCapacity * 2) newCap else Some newCapacity)"

definition ensureCapacity :: "oid \<Rightarrow> u64 \<Rightarrow> unit act" where
  "ensureCapacity i newCap =
    bindP (get_this i) (\<lambda>b.
      if newCap \<le> bb_capacity b then retP ()
      else
        (case grow (if bb_capacity b \<noteq> 0 then bb_capacity b * 2 else 64) newCap of
           None \<Rightarrow> failP Diverges
         | Some newCapacity \<Rightarrow>
            bindP (new_array (unat newCapacity)) (\<lambda>newData.
              seqP
                (case bb_data b of
                   None \<Rightarrow> retP ()
                 | Some d \<Rightarrow>
                    seqP (memcpy (Into newData 0) (Into d 0) (unat (bb_size b)))
                      (delete_array (Some d)))
                (set_this i (b\<lparr>bb_data := Some newData, bb_capacity := newCapacity\<rparr>)))))"

text \<open>\<open>append(const uint8_t* data, size_t len)\<close>; the sum \<open>_size + len\<close> wraps.\<close>

definition append_ptr :: "oid \<Rightarrow> pointer \<Rightarrow> u64 \<Rightarrow> unit act" where
  "append_ptr i p len =
    (if len = 0 then retP ()
     else bindP (get_this i) (\<lambda>b.
       seqP (ensureCapacity i (bb_size b + len))
         (bindP (get_this i) (\<lambda>b.
            seqP (memcpy (ptr_of (bb_data b) (unat (bb_size b))) p (unat len))
              (set_this i (b\<lparr>bb_size := bb_size b + len\<rparr>))))))"

text \<open>\<open>append(const std::string&)\<close>.\<close>

definition append_string :: "oid \<Rightarrow> bytes \<Rightarrow> unit act" where
  "append_string i str = append_ptr i (Ext str) (word_of_nat (length str))"

section \<open>Constructors, assignment, destructor\<close>

definition bb_null :: byte_buffer where
  "bb_null = \<lparr>bb_data = None, bb_size = 0, bb_capacity = 0\<rparr>"

definition ByteBuffer_default :: "oid \<Rightarrow> unit act" where
  "ByteBuffer_default i = set_this i bb_null"

text \<open>
  A constructor whose body throws leaves no object (its destructor does not run).
\<close>

definition constructing :: "oid \<Rightarrow> unit act \<Rightarrow> unit act" where
  "constructing i body m =
    (case seqP (ByteBuffer_default i) body m of
       (Inl (Throw e), m') \<Rightarrow> (Inl (Throw e), m'\<lparr>objs := (objs m')(i := None)\<rparr>)
     | r \<Rightarrow> r)"

text \<open>\<open>ByteBuffer(const char*, size_t)\<close> and \<open>ByteBuffer(const unsigned char*, size_t)\<close>.\<close>

definition ByteBuffer_ptr :: "oid \<Rightarrow> pointer \<Rightarrow> u64 \<Rightarrow> unit act" where
  "ByteBuffer_ptr i p len = constructing i (append_ptr i p len)"

definition ByteBuffer_string :: "oid \<Rightarrow> bytes \<Rightarrow> unit act" where
  "ByteBuffer_string i str = constructing i (append_string i str)"

text \<open>\<open>ByteBuffer(const char*)\<close>: \<open>strlen\<close> reads until the null terminator.\<close>

definition strlen :: "bytes \<Rightarrow> fault + nat" where
  "strlen s = (if 0 \<in> set s then Inr (length (takeWhile (\<lambda>c. c \<noteq> 0) s)) else Inl Undefined)"

definition ByteBuffer_cstr :: "oid \<Rightarrow> bytes \<Rightarrow> unit act" where
  "ByteBuffer_cstr i s =
    bindP (liftP (\<lambda>_. strlen s)) (\<lambda>len.
      constructing i (append_ptr i (Ext s) (word_of_nat len)))"

definition ByteBuffer_copy :: "oid \<Rightarrow> oid \<Rightarrow> unit act" where
  "ByteBuffer_copy i other =
    bindP (get_this other) (\<lambda>o'.
      constructing i (append_ptr i (ptr_of (bb_data o') 0) (bb_size o')))"

definition ByteBuffer_move :: "oid \<Rightarrow> oid \<Rightarrow> unit act" where
  "ByteBuffer_move i other =
    bindP (get_this other) (\<lambda>o'.
      seqP (set_this i o') (set_this other bb_null))"

definition clear_bb :: "oid \<Rightarrow> unit act" where
  "clear_bb i = bindP (get_this i) (\<lambda>b. set_this i (b\<lparr>bb_size := 0\<rparr>))"

definition assign_copy :: "oid \<Rightarrow> oid \<Rightarrow> unit act" where
  "assign_copy i other =
    (if i = other then retP ()
     else seqP (clear_bb i)
       (bindP (get_this other) (\<lambda>o'. append_ptr i (ptr_of (bb_data o') 0) (bb_size o'))))"

definition assign_move :: "oid \<Rightarrow> oid \<Rightarrow> unit act" where
  "assign_move i other =
    (if i = other then retP ()
     else bindP (get_this i) (\<lambda>b.
       seqP (delete_array (bb_data b))
         (bindP (get_this other) (\<lambda>o'.
            seqP (set_this i o') (set_this other bb_null)))))"

definition destroy :: "oid \<Rightarrow> unit act" where
  "destroy i =
    bindP (get_this i) (\<lambda>b.
      seqP (delete_array (bb_data b)) (modP (\<lambda>m. m\<lparr>objs := (objs m)(i := None)\<rparr>)))"

section \<open>Operations\<close>

definition data_ptr :: "oid \<Rightarrow> pointer act" where
  "data_ptr i = bindP (get_this i) (\<lambda>b. retP (ptr_of (bb_data b) 0))"

definition size_of :: "oid \<Rightarrow> u64 act" where
  "size_of i = bindP (get_this i) (\<lambda>b. retP (bb_size b))"

definition capacity_of :: "oid \<Rightarrow> u64 act" where
  "capacity_of i = bindP (get_this i) (\<lambda>b. retP (bb_capacity b))"

definition reserve :: "oid \<Rightarrow> u64 \<Rightarrow> unit act" where
  "reserve i cap = ensureCapacity i cap"

text \<open>\<open>operator+=\<close>: the arguments \<open>other._data\<close>, \<open>other._size\<close> are read before the call.\<close>

definition plus_assign :: "oid \<Rightarrow> oid \<Rightarrow> unit act" where
  "plus_assign i other =
    bindP (get_this other) (\<lambda>o'. append_ptr i (ptr_of (bb_data o') 0) (bb_size o'))"

definition plus_assign_string :: "oid \<Rightarrow> bytes \<Rightarrow> unit act" where
  "plus_assign_string i str = append_string i str"

text \<open>Leaving the scope of a local object by an exception runs its destructor.\<close>

definition unwinding :: "oid \<Rightarrow> unit act \<Rightarrow> unit act" where
  "unwinding i body m =
    (case body m of (Inl (Throw e), m') \<Rightarrow> seqP (destroy i) (failP (Throw e)) m' | r \<Rightarrow> r)"

text \<open>\<open>operator+\<close>: the result is the new object \<open>r\<close>.\<close>

definition plus_bb :: "oid \<Rightarrow> oid \<Rightarrow> oid \<Rightarrow> unit act" where
  "plus_bb r i other = seqP (ByteBuffer_copy r i) (unwinding r (plus_assign r other))"

definition plus_bb_string :: "oid \<Rightarrow> oid \<Rightarrow> bytes \<Rightarrow> unit act" where
  "plus_bb_string r i str = seqP (ByteBuffer_copy r i) (unwinding r (plus_assign_string r str))"

text \<open>\<open>operator[]\<close> returns a reference: the place of the byte.\<close>

definition index_bb :: "oid \<Rightarrow> u64 \<Rightarrow> pointer act" where
  "index_bb i k =
    bindP (get_this i) (\<lambda>b.
      seqP (checkP (k < bb_size b) (Throw (OutOfRange ''Index out of range'')))
        (retP (ptr_of (bb_data b) (unat k))))"

definition resize :: "oid \<Rightarrow> u64 \<Rightarrow> unit act" where
  "resize i len =
    seqP (ensureCapacity i len) (bindP (get_this i) (\<lambda>b. set_this i (b\<lparr>bb_size := len\<rparr>)))"

definition slice_error :: "nat \<Rightarrow> nat \<Rightarrow> nat \<Rightarrow> exn" where
  "slice_error start stop sz =
    OutOfRange (''Invalid slice range: ['' @ to_string start @ '', '' @ to_string stop
      @ ''),'' @ '' size: '' @ to_string sz)"

text \<open>\<open>slice(start, end)\<close>: the result is the new object \<open>r\<close>.\<close>

definition slice_bb :: "oid \<Rightarrow> oid \<Rightarrow> u64 \<Rightarrow> u64 \<Rightarrow> unit act" where
  "slice_bb r i start stop =
    bindP (get_this i) (\<lambda>b.
      seqP (checkP (start \<le> stop \<and> stop \<le> bb_size b)
             (Throw (slice_error (unat start) (unat stop) (unat (bb_size b)))))
        (ByteBuffer_ptr r (ptr_of (bb_data b) (unat start)) (stop - start)))"

definition toString :: "oid \<Rightarrow> cell list act" where
  "toString i =
    bindP (get_this i) (\<lambda>b. liftP (read_mem (ptr_of (bb_data b) 0) (unat (bb_size b))))"

end
