(* ===== verification/Byte_Buffer_Memory.thy ===== *)
theory Byte_Buffer_Memory
  imports Byte_Buffer
begin

text \<open>
  The invariant of the memory under \<open>core/ByteBuffer.cpp\<close> (storage is owned by exactly one
  buffer, capacities are powers of two from 64 on) and, operation by operation, what a call
  does to the contents of the buffers.
\<close>

section \<open>The memory invariant\<close>

definition cap_ok :: "u64 \<Rightarrow> bool" where
  "cap_ok c \<longleftrightarrow> (\<exists>k. 6 \<le> k \<and> k < 64 \<and> c = 2 ^ k)"

definition obj_ok :: "mem \<Rightarrow> byte_buffer \<Rightarrow> bool" where
  "obj_ok m b \<longleftrightarrow>
    (case bb_data b of
       None \<Rightarrow> bb_size b = 0 \<and> bb_capacity b = 0
     | Some a \<Rightarrow> (\<exists>cs. blocks m a = Some cs \<and> length cs = unat (bb_capacity b))
         \<and> bb_size b \<le> bb_capacity b \<and> cap_ok (bb_capacity b))"

definition mem_ok :: "mem \<Rightarrow> bool" where
  "mem_ok m \<longleftrightarrow>
    (\<forall>i b. objs m i = Some b \<longrightarrow> obj_ok m b) \<and>
    (\<forall>i j b c a. objs m i = Some b \<and> objs m j = Some c
        \<and> bb_data b = Some a \<and> bb_data c = Some a \<longrightarrow> i = j) \<and>
    (\<forall>a \<in> dom (blocks m). a < brk m \<and> (\<exists>i b. objs m i = Some b \<and> bb_data b = Some a))"

definition contents :: "mem \<Rightarrow> byte_buffer \<Rightarrow> cell list" where
  "contents m b =
    (case bb_data b of None \<Rightarrow> [] | Some a \<Rightarrow> take (unat (bb_size b)) (the (blocks m a)))"

definition view :: "mem \<Rightarrow> oid \<Rightarrow> cell list option" where
  "view m i = map_option (contents m) (objs m i)"

subsection \<open>Growing\<close>

lemma unat_double: "c < 2 ^ 63 \<Longrightarrow> unat (c * 2 :: u64) = 2 * unat c"
  by (simp add: unat_word_ariths word_less_nat_alt)

lemma grow_done: "\<not> c < n \<Longrightarrow> grow c n = Some c"
  and grow_step: "c < n \<Longrightarrow> grow c n = grow (c * 2) n"
  by (simp_all add: grow.simps [of c n])

lemma grow_enough:
  assumes "0 < c" and "n \<le> 2 ^ 63"
  shows "\<exists>r. grow c n = Some r"
  using assms(1)
proof (induction "unat n - unat c" arbitrary: c rule: less_induct)
  case less
  show ?case
  proof (cases "c < n")
    case True
    then have c: "c < 2 ^ 63" using assms(2) by simp
    have "unat n - unat (c * 2) < unat n - unat c"
      using True less.prems unat_double [OF c] by (simp add: word_less_nat_alt)
    moreover have "0 < c * 2" using unat_double [OF c] less.prems by (simp add: word_less_nat_alt)
    ultimately have "\<exists>r. grow (c * 2) n = Some r" by (rule less.hyps)
    with True show ?thesis by (simp add: grow_step)
  qed (simp add: grow_done)
qed

lemma grow_result:
  assumes "grow (2 ^ j) n = Some r"
  shows "n \<le> r \<and> (\<exists>k\<ge>j. r = 2 ^ k)"
proof -
  have "n \<le> r \<and> (\<forall>j. c = 2 ^ j \<longrightarrow> (\<exists>k\<ge>j. r = 2 ^ k))" if "grow c n = Some r" for c
  proof (rule grow.raw_induct [where P = "\<lambda>c n r. n \<le> r \<and> (\<forall>j. c = 2 ^ j \<longrightarrow> (\<exists>k\<ge>j. r = 2 ^ k))",
        OF _ that])
    fix f and c n r :: u64
    assume IH: "\<And>c n r. f c n = Some r \<Longrightarrow> n \<le> r \<and> (\<forall>j. c = 2 ^ j \<longrightarrow> (\<exists>k\<ge>j. r = 2 ^ k))"
      and eq: "(if c < n then f (c * 2) n else Some c) = Some r"
    show "n \<le> r \<and> (\<forall>j. c = 2 ^ j \<longrightarrow> (\<exists>k\<ge>j. r = 2 ^ k))"
    proof (cases "c < n")
      case True
      with eq have "f (c * 2) n = Some r" by simp
      from IH [OF this] have n: "n \<le> r" and k: "\<And>j. c * 2 = 2 ^ j \<Longrightarrow> \<exists>k\<ge>j. r = 2 ^ k" by auto
      have "\<exists>k\<ge>j. r = 2 ^ k" if "c = 2 ^ j" for j
        using k [of "Suc j"] that by (auto intro: Suc_leD)
      with n show ?thesis by blast
    next
      case False
      with eq show ?thesis by auto
    qed
  qed
  with assms show ?thesis by blast
qed

lemma unat_power2_u64: "k < 64 \<Longrightarrow> unat ((2 :: u64) ^ k) = 2 ^ k"
proof -
  assume "k < 64"
  then have "(2::nat) ^ k < 2 ^ LENGTH(64)" by (intro power_strict_increasing) auto
  from unat_of_nat_small [OF this] show ?thesis by simp
qed

lemma power2_u64_le: "(2 :: u64) ^ k \<le> 2 ^ 63"
proof (cases "k < 64")
  case True
  moreover have "(2::nat) ^ k \<le> 2 ^ 63" using True by (intro power_increasing) auto
  ultimately show ?thesis by (simp add: word_le_nat_alt unat_power2_u64 [of k])
next
  case False
  then have "(2 :: u64) ^ k = 0" by (simp add: exp_eq_zero_iff)
  then show ?thesis by (metis word_zero_le)
qed

text \<open>The start value of the loop in \<open>ensureCapacity\<close> is a power of two.\<close>

lemma grow_start:
  assumes "cap_ok c \<or> c = 0"
  obtains j where "6 \<le> j" "(if c \<noteq> 0 then c * 2 else 64) = (2 :: u64) ^ j"
    and "c = 0 \<or> c = 2 ^ (j - 1)"
  using assms
proof
  assume "cap_ok c"
  then obtain k where k: "6 \<le> k" "k < 64" "c = 2 ^ k" by (auto simp: cap_ok_def)
  then have "c \<noteq> 0" by (simp add: exp_eq_zero_iff)
  with k have "(if c \<noteq> 0 then c * 2 else 64) = 2 ^ Suc k" by simp
  with k show ?thesis by (intro that [of "Suc k"]) auto
next
  assume "c = 0"
  then show ?thesis by (intro that [of 6]) auto
qed

lemma grow_diverges: "2 ^ 63 < n \<Longrightarrow> grow (2 ^ j) n = None"
proof (rule ccontr)
  assume n: "2 ^ 63 < n" and "grow (2 ^ j) n \<noteq> None"
  then obtain k where "n \<le> 2 ^ k" using grow_result [of j n] by blast
  with power2_u64_le [of k] have "n \<le> 2 ^ 63" by (rule order_trans [rotated])
  with n show False by (simp add: leD)
qed

lemma grow_returns:
  assumes "cap_ok c \<or> c = 0" and "c < n" and "n \<le> 2 ^ 63"
  obtains r where "grow (if c \<noteq> 0 then c * 2 else 64) n = Some r" "n \<le> r" "cap_ok r"
proof -
  obtain j where j: "6 \<le> j" "(if c \<noteq> 0 then c * 2 else 64) = (2 :: u64) ^ j"
    "c = 0 \<or> c = 2 ^ (j - 1)"
    using grow_start [OF assms(1)] by metis
  have "c < 2 ^ 63" using assms(2,3) by simp
  then have "0 < (if c \<noteq> 0 then c * 2 else 64)"
    using unat_double [of c] unat_gt_0 [of c] by (simp add: word_less_nat_alt)
  then obtain r where r: "grow (2 ^ j) n = Some r"
    using grow_enough [OF _ assms(3)] unfolding j(2) by blast
  obtain k where k: "n \<le> r" "k \<ge> j" "r = 2 ^ k" using grow_result [OF r] by blast
  have "c < r" using assms(2) k(1) by (rule less_le_trans)
  then have "r \<noteq> 0" by (metis leD word_zero_le)
  then have "k < 64" using k(3) by (simp add: exp_eq_zero_iff)
  with k(2,3) j(1) have "cap_ok r" unfolding cap_ok_def using le_trans by blast
  with k(1) r show ?thesis unfolding j(2) [symmetric] by (rule_tac that)
qed

subsection \<open>The steps of an operation on a well-formed memory\<close>

lemma mem_okI:
  assumes "\<And>i b. objs m i = Some b \<Longrightarrow> obj_ok m b"
    and "\<And>i j b c a. objs m i = Some b \<Longrightarrow> objs m j = Some c \<Longrightarrow>
          bb_data b = Some a \<Longrightarrow> bb_data c = Some a \<Longrightarrow> i = j"
    and "\<And>a. a \<in> dom (blocks m) \<Longrightarrow> a < brk m \<and> (\<exists>i b. objs m i = Some b \<and> bb_data b = Some a)"
  shows "mem_ok m"
  using assms unfolding mem_ok_def by blast

lemma mem_ok_obj: "mem_ok m \<Longrightarrow> objs m i = Some b \<Longrightarrow> obj_ok m b"
  by (simp add: mem_ok_def)

lemma mem_ok_inj:
  "mem_ok m \<Longrightarrow> objs m i = Some b \<Longrightarrow> objs m j = Some c \<Longrightarrow>
    bb_data b = Some a \<Longrightarrow> bb_data c = Some a \<Longrightarrow> i = j"
  unfolding mem_ok_def by blast

lemma mem_ok_fresh: "mem_ok m \<Longrightarrow> blocks m (brk m) = None"
  unfolding mem_ok_def by (metis domIff less_irrefl)

lemma mem_ok_brk: "mem_ok m \<Longrightarrow> objs m i = Some b \<Longrightarrow> bb_data b = Some a \<Longrightarrow> a < brk m"
  using mem_ok_obj [of m i b] unfolding mem_ok_def obj_ok_def by fastforce

lemma mem_ok_owner: "mem_ok m \<Longrightarrow> blocks m a = Some cs \<Longrightarrow> \<exists>i b. objs m i = Some b \<and> bb_data b = Some a"
  unfolding mem_ok_def by blast

lemma obj_ok_block:
  assumes "obj_ok m b" and "bb_data b = Some a"
  obtains cs where "blocks m a = Some cs" "length cs = unat (bb_capacity b)"
    "unat (bb_size b) \<le> length cs" "cap_ok (bb_capacity b)"
  using assms by (auto simp: obj_ok_def word_le_nat_alt)

lemma length_contents: "obj_ok m b \<Longrightarrow> length (contents m b) = unat (bb_size b)"
  by (auto simp: contents_def obj_ok_def word_le_nat_alt split: option.splits)

text \<open>The memory after \<open>ensureCapacity\<close> has moved object \<open>i\<close> to a fresh block of \<open>c\<close> bytes.\<close>

definition regrown :: "mem \<Rightarrow> oid \<Rightarrow> byte_buffer \<Rightarrow> u64 \<Rightarrow> mem" where
  "regrown m i b c = m
    \<lparr>objs := (objs m)(i \<mapsto> b\<lparr>bb_data := Some (brk m), bb_capacity := c\<rparr>),
     blocks := (\<lambda>a. if bb_data b = Some a then None else blocks m a)
       (brk m \<mapsto> contents m b @ replicate (unat c - unat (bb_size b)) None),
     brk := Suc (brk m)\<rparr>"

lemma get_this_run [prog_simps]: "objs m i = Some b \<Longrightarrow> get_this i m = (Inr b, m)"
  by (simp add: get_this_def liftP_def)

lemma set_this_run [prog_simps]: "set_this i b m = (Inr (), m\<lparr>objs := (objs m)(i \<mapsto> b)\<rparr>)"
  by (simp add: set_this_def modP_def)

lemma memcpy_run:
  assumes "\<not> overlap (Into a off) src n" and "read_mem src n m = Inr cs" and "length cs = n"
    and "blocks m a = Some xs" and "off + n \<le> length xs"
  shows "memcpy (Into a off) src n m
    = (Inr (), m\<lparr>blocks := (blocks m)(a \<mapsto> take off xs @ cs @ drop (off + n) xs)\<rparr>)"
  using assms by (simp add: memcpy_def bindP_def write_mem_def prog_simps)

lemma read_mem_length: "read_mem p n m = Inr cs \<Longrightarrow> length cs = n"
  by (auto simp: read_mem_def split: pointer.splits if_splits option.splits)

lemma ensureCapacity_noop:
  "objs m i = Some b \<Longrightarrow> n \<le> bb_capacity b \<Longrightarrow> ensureCapacity i n m = (Inr (), m)"
  by (simp add: ensureCapacity_def bindP_def prog_simps)

lemma ensureCapacity_diverges:
  assumes "mem_ok m" and "objs m i = Some b" and "2 ^ 63 < n" and "\<not> n \<le> bb_capacity b"
  shows "ensureCapacity i n m = (Inl Diverges, m)"
proof -
  have "cap_ok (bb_capacity b) \<or> bb_capacity b = 0"
    using mem_ok_obj [OF assms(1,2)] by (auto simp: obj_ok_def split: option.splits)
  then obtain j where "(if bb_capacity b \<noteq> 0 then bb_capacity b * 2 else 64) = 2 ^ j"
    by (rule grow_start)
  then have "grow (if bb_capacity b \<noteq> 0 then bb_capacity b * 2 else 64) n = None"
    using grow_diverges [OF assms(3)] by simp
  with assms(2,4) show ?thesis by (simp add: ensureCapacity_def bindP_def prog_simps)
qed

lemma ensureCapacity_grows:
  assumes ok: "mem_ok m" and b: "objs m i = Some b" and n: "bb_capacity b < n" "n \<le> 2 ^ 63"
  obtains c where "n \<le> c" "cap_ok c"
    "ensureCapacity i n m =
      (if can_alloc m (brk m) (unat c) then (Inr (), regrown m i b c) else (Inl (Throw BadAlloc), m))"
proof -
  have ob: "obj_ok m b" using mem_ok_obj [OF ok b] .
  then have "cap_ok (bb_capacity b) \<or> bb_capacity b = 0"
    by (auto simp: obj_ok_def split: option.splits)
  then obtain c where g: "grow (if bb_capacity b \<noteq> 0 then bb_capacity b * 2 else 64) n = Some c"
    and c: "n \<le> c" "cap_ok c"
    using grow_returns [OF _ n] by metis
  have size: "unat (bb_size b) \<le> unat c"
    using ob n(1) c(1) by (auto simp: obj_ok_def word_le_nat_alt word_less_nat_alt split: option.splits)
  have "ensureCapacity i n m =
      (if can_alloc m (brk m) (unat c) then (Inr (), regrown m i b c) else (Inl (Throw BadAlloc), m))"
  proof (cases "bb_data b")
    case None
    with ob b n(1) g show ?thesis
      by (simp add: ensureCapacity_def bindP_def prog_simps new_array_def regrown_def contents_def
          obj_ok_def not_le word_gt_0)
  next
    case (Some d)
    from ob Some obtain cs where cs: "blocks m d = Some cs" "unat (bb_size b) \<le> length cs"
      by (rule obj_ok_block)
    have neq: "d \<noteq> brk m" using mem_ok_brk [OF ok b Some] by simp
    let ?m1 = "m\<lparr>blocks := (blocks m)(brk m \<mapsto> replicate (unat c) None), brk := Suc (brk m)\<rparr>"
    have "memcpy (Into (brk m) 0) (Into d 0) (unat (bb_size b)) ?m1
      = (Inr (), ?m1\<lparr>blocks := (blocks ?m1)(brk m \<mapsto> take 0 (replicate (unat c) None)
          @ take (unat (bb_size b)) cs @ drop (0 + unat (bb_size b)) (replicate (unat c) None))\<rparr>)"
      using neq cs size by (intro memcpy_run) (auto simp: overlap_def read_mem_def)
    then show ?thesis using Some b n(1) g cs neq
      by (auto simp: ensureCapacity_def bindP_def prog_simps new_array_def regrown_def contents_def
          not_le delete_array_def fun_eq_iff)
  qed
  with c show ?thesis by (rule that)
qed

lemma view_cong:
  "objs m' j = objs m j \<Longrightarrow> (\<And>b a. objs m j = Some b \<Longrightarrow> bb_data b = Some a \<Longrightarrow> blocks m' a = blocks m a)
    \<Longrightarrow> view m' j = view m j"
  by (cases "objs m j") (auto simp: view_def contents_def split: option.splits)

lemma obj_ok_cong:
  "obj_ok m b \<Longrightarrow> (\<And>a. bb_data b = Some a \<Longrightarrow> blocks m' a = blocks m a) \<Longrightarrow> obj_ok m' b"
  by (auto simp: obj_ok_def split: option.splits)

lemma obj_ok_objs [simp]: "obj_ok (m\<lparr>objs := f\<rparr>) b = obj_ok m b"
  and contents_objs [simp]: "contents (m\<lparr>objs := f\<rparr>) b = contents m b"
  and obj_ok_null [simp]: "obj_ok m bb_null"
  and contents_null [simp]: "contents m bb_null = []"
  by (simp_all add: obj_ok_def contents_def bb_null_def split: option.split)

text \<open>
  The one step all operations are made of: object \<open>i\<close> becomes \<open>b'\<close>, whose storage is fresh or
  was \<open>i\<close>'s before, what \<open>i\<close> owned and gives up is freed, and nothing else is touched.
\<close>

definition owns :: "mem \<Rightarrow> oid \<Rightarrow> addr \<Rightarrow> bool" where
  "owns m i a \<longleftrightarrow> (\<exists>b. objs m i = Some b \<and> bb_data b = Some a)"

lemma replace_object:
  assumes ok: "mem_ok m" and objs: "objs m' = (objs m)(i \<mapsto> b')" and b': "obj_ok m' b'"
    and brk: "brk m \<le> brk m'"
    and own: "\<And>a. bb_data b' = Some a \<Longrightarrow> a < brk m' \<and> (blocks m a = None \<or> owns m i a)"
    and frame: "\<And>a. bb_data b' \<noteq> Some a \<Longrightarrow> blocks m' a = (if owns m i a then None else blocks m a)"
  shows "mem_ok m'" and "view m' = (view m)(i \<mapsto> contents m' b')"
proof -
  have other: "bb_data b' \<noteq> Some a \<and> \<not> owns m i a" if h: "objs m j = Some c" "j \<noteq> i" "bb_data c = Some a" for j c a
  proof -
    obtain cs where "blocks m a = Some cs"
      using mem_ok_obj [OF ok h(1)] h(3) by (rule obj_ok_block)
    moreover have "\<not> owns m i a"
      unfolding owns_def using mem_ok_inj [OF ok h(1) _ h(3)] h(2) by blast
    ultimately show ?thesis using own [of a] by auto
  qed
  have same: "blocks m' a = blocks m a" if "objs m j = Some c" "j \<noteq> i" "bb_data c = Some a" for j c a
    using frame [of a] other [OF that] by auto
  show "mem_ok m'"
  proof (rule mem_okI)
    fix j c assume "objs m' j = Some c"
    then show "obj_ok m' c"
      using b' objs obj_ok_cong [OF mem_ok_obj [OF ok], of j c m'] same [of j c]
      by (auto split: if_splits)
  next
    fix j k c d a
    assume "objs m' j = Some c" "objs m' k = Some d" "bb_data c = Some a" "bb_data d = Some a"
    then show "j = k"
      using objs other [of j c a] other [of k d a] mem_ok_inj [OF ok, of j c k d a]
      by (auto split: if_splits)
  next
    fix a assume "a \<in> dom (blocks m')"
    then consider "bb_data b' = Some a" | "bb_data b' \<noteq> Some a" "a \<in> dom (blocks m)" "\<not> owns m i a"
      using frame [of a] by (cases "bb_data b' = Some a") (auto simp: domIff split: if_splits)
    then show "a < brk m' \<and> (\<exists>j c. objs m' j = Some c \<and> bb_data c = Some a)"
    proof cases
      case 1
      then show ?thesis using own objs by auto
    next
      case 2
      then obtain j c where j: "objs m j = Some c" "bb_data c = Some a"
        using mem_ok_owner [OF ok] by blast
      with 2(3) have "j \<noteq> i" by (auto simp: owns_def)
      with j mem_ok_brk [OF ok j] objs brk show ?thesis by auto
    qed
  qed
  show "view m' = (view m)(i \<mapsto> contents m' b')"
  proof
    fix j show "view m' j = ((view m)(i \<mapsto> contents m' b')) j"
      using view_cong [of m' j m] same [of j] objs by (cases "j = i") (auto simp: view_def)
  qed
qed

lemma new_object_ok:
  assumes ok: "mem_ok m" and fresh: "objs m i = None"
  shows "mem_ok (m\<lparr>objs := (objs m)(i \<mapsto> bb_null)\<rparr>)"
    and "view (m\<lparr>objs := (objs m)(i \<mapsto> bb_null)\<rparr>) = (view m)(i \<mapsto> [])"
  using replace_object [OF ok, of "m\<lparr>objs := (objs m)(i \<mapsto> bb_null)\<rparr>" i bb_null] fresh
  by (simp_all add: owns_def) (simp_all add: bb_null_def)

lemma regrown_ok:
  assumes ok: "mem_ok m" and b: "objs m i = Some b" and c: "cap_ok c" "bb_size b \<le> c"
  shows "mem_ok (regrown m i b c)" and "view (regrown m i b c) = view m"
proof -
  let ?b = "b\<lparr>bb_data := Some (brk m), bb_capacity := c\<rparr>"
  have len: "length (contents m b) = unat (bb_size b)" "unat (bb_size b) \<le> unat c"
    using length_contents [OF mem_ok_obj [OF ok b]] c(2) by (simp_all add: word_le_nat_alt)
  have conts: "contents (regrown m i b c) ?b = contents m b"
    using len unfolding contents_def [of "regrown m i b c" "?b"] by (simp add: regrown_def)
  have obj: "obj_ok (regrown m i b c) ?b"
    using len c by (simp add: obj_ok_def regrown_def)
  have step: "objs (regrown m i b c) = (objs m)(i \<mapsto> ?b)" "brk m \<le> brk (regrown m i b c)"
    "\<And>a. bb_data ?b = Some a \<Longrightarrow> a < brk (regrown m i b c) \<and> (blocks m a = None \<or> owns m i a)"
    "\<And>a. bb_data ?b \<noteq> Some a \<Longrightarrow>
      blocks (regrown m i b c) a = (if owns m i a then None else blocks m a)"
    using b mem_ok_fresh [OF ok] by (auto simp: regrown_def owns_def)
  show "mem_ok (regrown m i b c)" by (rule replace_object [OF ok step(1) obj step(2-4)])
  show "view (regrown m i b c) = view m"
    using replace_object(2) [OF ok step(1) obj step(2-4)] b conts by (simp add: view_def fun_upd_idem)
qed

text \<open>Object \<open>i\<close> overwrites its own block and sets its size.\<close>

definition poke :: "mem \<Rightarrow> oid \<Rightarrow> byte_buffer \<Rightarrow> addr \<Rightarrow> cell list \<Rightarrow> u64 \<Rightarrow> mem" where
  "poke m i b a cs sz =
    m\<lparr>objs := (objs m)(i \<mapsto> b\<lparr>bb_size := sz\<rparr>), blocks := (blocks m)(a \<mapsto> cs)\<rparr>"

lemma poke_ok:
  assumes ok: "mem_ok m" and b: "objs m i = Some b" "bb_data b = Some a"
    and cs: "length cs = unat (bb_capacity b)" and sz: "sz \<le> bb_capacity b"
  shows "mem_ok (poke m i b a cs sz)"
    and "view (poke m i b a cs sz) = (view m)(i \<mapsto> take (unat sz) cs)"
proof -
  let ?b = "b\<lparr>bb_size := sz\<rparr>"
  have obj: "obj_ok (poke m i b a cs sz) ?b"
    using mem_ok_obj [OF ok b(1)] b(2) cs sz by (simp add: obj_ok_def poke_def)
  have step: "objs (poke m i b a cs sz) = (objs m)(i \<mapsto> ?b)" "brk m \<le> brk (poke m i b a cs sz)"
    "\<And>a'. bb_data ?b = Some a' \<Longrightarrow> a' < brk (poke m i b a cs sz) \<and> (blocks m a' = None \<or> owns m i a')"
    "\<And>a'. bb_data ?b \<noteq> Some a' \<Longrightarrow>
      blocks (poke m i b a cs sz) a' = (if owns m i a' then None else blocks m a')"
    using b mem_ok_brk [OF ok b] by (auto simp: poke_def owns_def)
  show "mem_ok (poke m i b a cs sz)" by (rule replace_object [OF ok step(1) obj step(2-4)])
  show "view (poke m i b a cs sz) = (view m)(i \<mapsto> take (unat sz) cs)"
    using replace_object(2) [OF ok step(1) obj step(2-4)] b(2)
    by (simp add: contents_def poke_def)
qed

subsection \<open>What each operation does to the contents\<close>

text \<open>
  The outcome of an operation with the strong exception guarantee: it returns with contents
  \<open>V\<close>, or throws \<open>bad_alloc\<close> with nothing changed.
\<close>

definition yields :: "mem \<Rightarrow> (oid \<rightharpoonup> cell list) \<Rightarrow> (fault + 'a) \<times> mem \<Rightarrow> bool" where
  "yields m V r \<longleftrightarrow>
    (case r of (Inr x, m') \<Rightarrow> mem_ok m' \<and> view m' = V
     | (Inl f, m') \<Rightarrow> f = Throw BadAlloc \<and> m' = m)"

lemma yields_cases:
  assumes "yields m V r"
  obtains (returned) x m' where "r = (Inr x, m')" "mem_ok m'" "view m' = V"
  | (threw) "r = (Inl (Throw BadAlloc), m)"
  using assms unfolding yields_def by (cases r; cases "fst r") auto

lemma ensureCapacity_yields:
  assumes ok: "mem_ok m" and b: "objs m i = Some b" and n: "n \<le> 2 ^ 63"
  shows "yields m (view m) (ensureCapacity i n m)"
proof (cases "n \<le> bb_capacity b")
  case True
  with ok b show ?thesis by (simp add: yields_def ensureCapacity_noop)
next
  case False
  then have lt: "bb_capacity b < n" by simp
  obtain c where c: "n \<le> c" "cap_ok c" "ensureCapacity i n m =
      (if can_alloc m (brk m) (unat c) then (Inr (), regrown m i b c) else (Inl (Throw BadAlloc), m))"
    using ensureCapacity_grows [OF ok b lt n] by blast
  have "bb_size b \<le> c"
    using mem_ok_obj [OF ok b] lt c(1) by (auto simp: obj_ok_def split: option.splits)
  with c regrown_ok [OF ok b c(2)] show ?thesis by (simp add: yields_def)
qed

text \<open>What \<open>ensureCapacity\<close> leaves object \<open>i\<close> with when it returns.\<close>

lemma ensureCapacity_returns:
  assumes ok: "mem_ok m" and b: "objs m i = Some b" and n: "n \<le> 2 ^ 63"
    and run: "ensureCapacity i n m = (Inr u, m')"
  obtains b' where "objs m' i = Some b'" "bb_size b' = bb_size b" "n \<le> bb_capacity b'"
    "bb_data b' = bb_data b \<or> bb_data b' = Some (brk m)"
    "\<And>j. j \<noteq> i \<Longrightarrow> objs m' j = objs m j"
    "\<And>a. bb_data b \<noteq> Some a \<Longrightarrow> a < brk m \<Longrightarrow> blocks m' a = blocks m a"
proof (cases "n \<le> bb_capacity b")
  case True
  with run have "m' = m" using ensureCapacity_noop [OF b] by simp
  with b True show ?thesis by (intro that [of b]) auto
next
  case False
  then have lt: "bb_capacity b < n" by simp
  obtain c where c: "n \<le> c" "ensureCapacity i n m =
      (if can_alloc m (brk m) (unat c) then (Inr (), regrown m i b c) else (Inl (Throw BadAlloc), m))"
    using ensureCapacity_grows [OF ok b lt n] by blast
  with run have "m' = regrown m i b c" by (simp split: if_splits)
  with c show ?thesis
    by (intro that [of "b\<lparr>bb_data := Some (brk m), bb_capacity := c\<rparr>"]) (auto simp: regrown_def)
qed

lemma view_SomeD: "view m i = Some cs \<Longrightarrow> \<exists>b. objs m i = Some b \<and> contents m b = cs"
  by (auto simp: view_def)

lemma size_of_view: "mem_ok m \<Longrightarrow> objs m i = Some b \<Longrightarrow> view m i = Some cs \<Longrightarrow> length cs = unat (bb_size b)"
  using length_contents [OF mem_ok_obj] by (auto simp: view_def)

text \<open>
  Appending \<open>len\<close> bytes that do not lie in the buffer's own block: the contents grow by them.
\<close>

lemma append_ptr_yields:
  assumes ok: "mem_ok m" and b: "objs m i = Some b" and src: "read_mem p (unat len) m = Inr cs"
    and apart: "\<And>a off. p = Into a off \<Longrightarrow> bb_data b \<noteq> Some a \<and> a < brk m"
    and fits: "unat (bb_size b) + unat len \<le> 2 ^ 63"
  shows "yields m ((view m)(i \<mapsto> contents m b @ cs)) (append_ptr i p len m)"
proof (cases "len = 0")
  case True
  with read_mem_length [OF src] b ok show ?thesis
    by (auto simp: append_ptr_def yields_def prog_simps view_def fun_eq_iff)
next
  case False
  let ?n = "bb_size b + len"
  have n: "unat ?n = unat (bb_size b) + unat len"
    using fits by (simp add: unat_word_ariths)
  then have le: "?n \<le> 2 ^ 63" using fits by (simp add: word_le_nat_alt)
  note ens = ensureCapacity_yields [OF ok b le]
  show ?thesis
  proof (cases rule: yields_cases [OF ens])
    case threw: 2
    with False b show ?thesis by (simp add: append_ptr_def yields_def bindP_def prog_simps)
  next
    case (1 u m')
    then have ok': "mem_ok m'" and v': "view m' = view m" by auto
    obtain b' where b': "objs m' i = Some b'" "bb_size b' = bb_size b" "?n \<le> bb_capacity b'"
      and data: "bb_data b' = bb_data b \<or> bb_data b' = Some (brk m)"
      and blk: "\<And>a. bb_data b \<noteq> Some a \<Longrightarrow> a < brk m \<Longrightarrow> blocks m' a = blocks m a"
      using ensureCapacity_returns [OF ok b le 1(1)] by metis
    have src': "read_mem p (unat len) m' = Inr cs"
      using src apart blk by (auto simp: read_mem_def split: pointer.splits if_splits)
    have "0 < unat ?n" using False n by (simp add: unat_gt_0)
    with b'(3) have "bb_capacity b' \<noteq> 0" by (auto simp: word_le_nat_alt)
    with mem_ok_obj [OF ok' b'(1)] obtain a where a: "bb_data b' = Some a"
      by (auto simp: obj_ok_def split: option.splits)
    obtain xs where xs: "blocks m' a = Some xs" "length xs = unat (bb_capacity b')"
      using mem_ok_obj [OF ok' b'(1)] a by (rule obj_ok_block)
    have room: "unat (bb_size b) + unat len \<le> length xs"
      using b'(3) n xs(2) by (simp add: word_le_nat_alt)
    have old: "take (unat (bb_size b)) xs = contents m b"
      using v' b b'(1,2) a xs(1) by (auto simp: view_def contents_def dest: fun_cong [of _ _ i])
    have lcs: "length cs = unat len" by (rule read_mem_length [OF src])
    have "\<not> overlap (Into a (unat (bb_size b))) p (unat len)"
    proof (cases p)
      case (Into a' off)
      with apart have "bb_data b \<noteq> Some a'" "a' < brk m" by auto
      with a data have "a' \<noteq> a" by auto
      with Into show ?thesis by (simp add: overlap_def)
    qed (simp_all add: overlap_def)
    note cpy = memcpy_run [OF this src' lcs xs(1) room]
    let ?ys = "take (unat (bb_size b)) xs @ cs @ drop (unat (bb_size b) + unat len) xs"
    have "append_ptr i p len m = (Inr (), poke m' i b' a ?ys ?n)"
      using False 1(1) b b' a cpy
      by (simp add: append_ptr_def bindP_def prog_simps ptr_of_def poke_def)
    moreover have "length ?ys = unat (bb_capacity b')" using room lcs xs(2) by simp
    moreover have "take (unat ?n) ?ys = contents m b @ cs"
      using n lcs room old length_contents [OF mem_ok_obj [OF ok b]] by simp
    ultimately show ?thesis
      using poke_ok [OF ok' b'(1) a _ b'(3), of ?ys] v' by (simp add: yields_def)
  qed
qed

lemma destroy_ok:
  assumes ok: "mem_ok m" and b: "objs m i = Some b"
  obtains m' where "destroy i m = (Inr (), m')" "mem_ok m'" "view m' = (view m)(i := None)"
    "objs m' = (objs m)(i := None)"
proof -
  define m' where "m' = m\<lparr>objs := (objs m)(i := None),
    blocks := (\<lambda>a. if bb_data b = Some a then None else blocks m a)\<rparr>"
  have same: "blocks m' a = blocks m a" if "objs m j = Some c" "j \<noteq> i" "bb_data c = Some a" for j c a
    using that mem_ok_inj [OF ok that(1) b that(3)] by (auto simp: m'_def)
  have run: "destroy i m = (Inr (), m')"
  proof (cases "bb_data b")
    case None
    with b show ?thesis
      by (simp add: destroy_def bindP_def prog_simps delete_array_def m'_def)
  next
    case (Some a)
    obtain cs where "blocks m a = Some cs"
      using mem_ok_obj [OF ok b] Some by (rule obj_ok_block)
    with b Some show ?thesis
      by (auto simp: destroy_def bindP_def prog_simps delete_array_def m'_def fun_eq_iff)
  qed
  have "mem_ok m'"
  proof (rule mem_okI)
    fix j c assume "objs m' j = Some c"
    then have j: "objs m j = Some c" "j \<noteq> i" by (auto simp: m'_def split: if_splits)
    then show "obj_ok m' c" by (intro obj_ok_cong [OF mem_ok_obj [OF ok]] same)
  next
    fix j k c d a
    assume "objs m' j = Some c" "objs m' k = Some d" "bb_data c = Some a" "bb_data d = Some a"
    then show "j = k"
      using mem_ok_inj [OF ok, of j c k d a] by (auto simp: m'_def split: if_splits)
  next
    fix a assume "a \<in> dom (blocks m')"
    then have a: "a \<in> dom (blocks m)" "bb_data b \<noteq> Some a" by (auto simp: m'_def split: if_splits)
    then obtain j c where j: "objs m j = Some c" "bb_data c = Some a"
      using mem_ok_owner [OF ok] by blast
    with a b have "j \<noteq> i" by auto
    with j mem_ok_brk [OF ok j] show "a < brk m' \<and> (\<exists>j c. objs m' j = Some c \<and> bb_data c = Some a)"
      by (auto simp: m'_def)
  qed
  moreover have "view m' = (view m)(i := None)"
  proof
    fix j show "view m' j = ((view m)(i := None)) j"
      using view_cong [of m' j m] same [of j] by (cases "j = i") (auto simp: m'_def view_def)
  qed
  ultimately show ?thesis using run by (intro that [of m']) (auto simp: m'_def)
qed

lemma delete_array_destroy:
  "objs m i = Some b \<Longrightarrow> destroy i m = (Inr (), m') \<Longrightarrow>
    delete_array (bb_data b) m = (Inr (), m\<lparr>blocks := blocks m'\<rparr>) \<and> brk m' = brk m
      \<and> objs m' = (objs m)(i := None) \<and> can_alloc m' = can_alloc m"
  by (auto simp: destroy_def bindP_def prog_simps delete_array_def split: option.splits)

text \<open>Handing object \<open>j\<close>'s storage to \<open>i\<close>, which owns none.\<close>

lemma hand_over_ok:
  assumes ok: "mem_ok m" and i: "objs m i = None" and j: "objs m j = Some b"
  shows "mem_ok (m\<lparr>objs := (objs m)(i \<mapsto> b, j \<mapsto> bb_null)\<rparr>)"
    and "view (m\<lparr>objs := (objs m)(i \<mapsto> b, j \<mapsto> bb_null)\<rparr>) = (view m)(i \<mapsto> contents m b, j \<mapsto> [])"
proof -
  let ?m = "m\<lparr>objs := (objs m)(i \<mapsto> b, j \<mapsto> bb_null)\<rparr>"
  have neq: "i \<noteq> j" using i j by auto
  show "mem_ok ?m"
  proof (rule mem_okI)
    fix k c assume k: "objs ?m k = Some c"
    have "c = bb_null \<or> (\<exists>k. objs m k = Some c)" using k j by (auto split: if_splits)
    then show "obj_ok ?m c" using mem_ok_obj [OF ok] by auto
  next
    fix k l c d a
    assume "objs ?m k = Some c" "objs ?m l = Some d" "bb_data c = Some a" "bb_data d = Some a"
    then have "k \<noteq> j" "l \<noteq> j" "objs m (if k = i then j else k) = Some c"
      "objs m (if l = i then j else l) = Some d" "bb_data c = Some a" "bb_data d = Some a"
      using j by (auto simp: bb_null_def split: if_splits)
    with mem_ok_inj [OF ok, of "if k = i then j else k" c "if l = i then j else l" d a]
    show "k = l" by (simp split: if_splits)
  next
    fix a assume "a \<in> dom (blocks ?m)"
    then obtain cs where "blocks m a = Some cs" by auto
    then obtain k c where k: "objs m k = Some c" "bb_data c = Some a"
      using mem_ok_owner [OF ok] by blast
    have "\<exists>l d. objs ?m l = Some d \<and> bb_data d = Some a"
      using k i j neq by (cases "k = j") (auto intro: exI [of _ i] exI [of _ k])
    with mem_ok_brk [OF ok k] show "a < brk ?m \<and> (\<exists>l d. objs ?m l = Some d \<and> bb_data d = Some a)"
      by simp
  qed
  show "view ?m = (view m)(i \<mapsto> contents m b, j \<mapsto> [])"
    using neq by (auto simp: view_def fun_eq_iff map_option_case split: option.splits)
qed

text \<open>Sources: another buffer, a slice of a buffer, a string.\<close>

lemma read_mem_buffer:
  assumes "obj_ok m b" and "off + n \<le> unat (bb_size b)"
  shows "read_mem (ptr_of (bb_data b) off) n m = Inr (take n (drop off (contents m b)))"
  using assms by (auto simp: read_mem_def ptr_of_def obj_ok_def contents_def word_le_nat_alt take_drop
      min_def split: option.splits)

lemma read_mem_ext: "n \<le> length s \<Longrightarrow> read_mem (Ext s) n m = Inr (map Some (take n s))"
  by (simp add: read_mem_def)

lemma read_mem_objs [simp]: "read_mem p n (m\<lparr>objs := f\<rparr>) = read_mem p n m"
  by (simp add: read_mem_def split: pointer.split)

lemma unat_of_length: "length xs \<le> 2 ^ 63 \<Longrightarrow> unat (word_of_nat (length xs) :: u64) = length xs"
  by (simp add: unat_of_nat_small)

lemma append_string_yields:
  assumes "mem_ok m" and "objs m i = Some b" and "unat (bb_size b) + length s \<le> 2 ^ 63"
  shows "yields m ((view m)(i \<mapsto> contents m b @ map Some s)) (append_string i s m)"
  using assms unfolding append_string_def
  by (intro append_ptr_yields) (simp_all add: unat_of_length read_mem_ext)

lemma plus_assign_yields:
  assumes ok: "mem_ok m" and b: "objs m i = Some b" "objs m j = Some c" and "i \<noteq> j"
    and fits: "unat (bb_size b) + unat (bb_size c) \<le> 2 ^ 63"
  shows "yields m ((view m)(i \<mapsto> contents m b @ contents m c)) (plus_assign i j m)"
proof -
  have "read_mem (ptr_of (bb_data c) 0) (unat (bb_size c)) m = Inr (contents m c)"
    using read_mem_buffer [OF mem_ok_obj [OF ok b(2)], of 0 "unat (bb_size c)"]
      length_contents [OF mem_ok_obj [OF ok b(2)]] by simp
  then have "yields m ((view m)(i \<mapsto> contents m b @ contents m c))
      (append_ptr i (ptr_of (bb_data c) 0) (bb_size c) m)"
    using ok b \<open>i \<noteq> j\<close> fits mem_ok_inj [OF ok b] mem_ok_brk [OF ok b(2)]
    by (intro append_ptr_yields) (auto simp: ptr_of_def split: option.splits)
  with b(2) show ?thesis by (simp add: plus_assign_def bindP_def prog_simps)
qed

lemma constructing_append_yields:
  assumes ok: "mem_ok m" and fresh: "objs m i = None" and src: "read_mem p (unat len) m = Inr cs"
    and len: "unat len \<le> 2 ^ 63"
    and alloc: "\<And>a off. p = Into a off \<Longrightarrow> a < brk m"
  shows "yields m ((view m)(i \<mapsto> cs)) (constructing i (append_ptr i p len) m)"
proof -
  let ?m = "m\<lparr>objs := (objs m)(i \<mapsto> bb_null)\<rparr>"
  have src': "read_mem p (unat len) ?m = Inr cs" using src by simp
  have "yields ?m ((view ?m)(i \<mapsto> contents ?m bb_null @ cs)) (append_ptr i p len ?m)"
    using new_object_ok [OF ok fresh] src' len alloc
    by (intro append_ptr_yields) (auto simp: bb_null_def)
  then show ?thesis
  proof (cases rule: yields_cases)
    case (returned u m')
    then show ?thesis using new_object_ok(2) [OF ok fresh]
      by (simp add: yields_def constructing_def seqP_def bindP_def ByteBuffer_default_def prog_simps)
  next
    case threw
    have "m\<lparr>objs := (objs m)(i := None)\<rparr> = m" using fresh by (simp add: fun_upd_idem)
    with threw show ?thesis
      by (simp add: yields_def constructing_def seqP_def bindP_def ByteBuffer_default_def prog_simps)
  qed
qed

lemma ByteBuffer_string_yields:
  assumes "mem_ok m" and "objs m i = None" and "length s \<le> 2 ^ 63"
  shows "yields m ((view m)(i \<mapsto> map Some s)) (ByteBuffer_string i s m)"
  using assms unfolding ByteBuffer_string_def append_string_def
  by (intro constructing_append_yields) (simp_all add: unat_of_length read_mem_ext)

lemma ByteBuffer_copy_yields:
  assumes ok: "mem_ok m" and fresh: "objs m i = None" and c: "objs m j = Some c"
    and fits: "unat (bb_size c) \<le> 2 ^ 63"
  shows "yields m ((view m)(i \<mapsto> contents m c)) (ByteBuffer_copy i j m)"
proof -
  have "read_mem (ptr_of (bb_data c) 0) (unat (bb_size c)) m = Inr (contents m c)"
    using read_mem_buffer [OF mem_ok_obj [OF ok c], of 0 "unat (bb_size c)"]
      length_contents [OF mem_ok_obj [OF ok c]] by simp
  then have "yields m ((view m)(i \<mapsto> contents m c))
      (constructing i (append_ptr i (ptr_of (bb_data c) 0) (bb_size c)) m)"
    using ok fresh fits mem_ok_brk [OF ok c]
    by (intro constructing_append_yields) (auto simp: ptr_of_def split: option.splits)
  with c show ?thesis by (simp add: ByteBuffer_copy_def bindP_def prog_simps)
qed

lemma slice_yields:
  assumes ok: "mem_ok m" and fresh: "objs m r = None" and b: "objs m i = Some b"
    and range: "start \<le> stop" "stop \<le> bb_size b" and fits: "unat (bb_size b) \<le> 2 ^ 63"
  shows "yields m ((view m)(r \<mapsto> take (unat stop - unat start) (drop (unat start) (contents m b))))
    (slice_bb r i start stop m)"
proof -
  have len: "unat (stop - start) = unat stop - unat start"
    using range(1) by (simp add: unat_sub)
  have "unat stop \<le> unat (bb_size b)" using range(2) by (simp add: word_le_nat_alt)
  then have "read_mem (ptr_of (bb_data b) (unat start)) (unat (stop - start)) m
      = Inr (take (unat stop - unat start) (drop (unat start) (contents m b)))"
    unfolding len using range by (intro read_mem_buffer [OF mem_ok_obj [OF ok b]])
      (simp add: word_le_nat_alt)
  then have "yields m ((view m)(r \<mapsto> take (unat stop - unat start) (drop (unat start) (contents m b))))
      (constructing r (append_ptr r (ptr_of (bb_data b) (unat start)) (stop - start)) m)"
    using ok fresh fits len \<open>unat stop \<le> unat (bb_size b)\<close> mem_ok_brk [OF ok b]
    by (intro constructing_append_yields) (auto simp: ptr_of_def split: option.splits)
  with b range show ?thesis by (simp add: slice_bb_def ByteBuffer_ptr_def bindP_def prog_simps)
qed

lemma slice_throws:
  assumes "objs m i = Some b" and "\<not> (start \<le> stop \<and> stop \<le> bb_size b)"
  shows "slice_bb r i start stop m
    = (Inl (Throw (slice_error (unat start) (unat stop) (unat (bb_size b)))), m)"
  using assms by (auto simp: slice_bb_def bindP_def prog_simps)

lemma resize_yields:
  assumes ok: "mem_ok m" and b: "objs m i = Some b" and len: "len \<le> 2 ^ 63"
  obtains (returned) m' ys where "resize i len m = (Inr (), m')" "mem_ok m'"
      "view m' = (view m)(i \<mapsto> take (unat len) (contents m b) @ ys)"
      "length (take (unat len) (contents m b) @ ys) = unat len"
  | (threw) "resize i len m = (Inl (Throw BadAlloc), m)"
proof (cases rule: yields_cases [OF ensureCapacity_yields [OF ok b len]])
  case threw: 2
  then show ?thesis using that(2) by (simp add: resize_def bindP_def prog_simps)
next
  case (1 u m1)
  obtain b' where b': "objs m1 i = Some b'" "bb_size b' = bb_size b" "len \<le> bb_capacity b'"
    using ensureCapacity_returns [OF ok b len 1(1)] by metis
  have run: "resize i len m = (Inr (), m1\<lparr>objs := (objs m1)(i \<mapsto> b'\<lparr>bb_size := len\<rparr>)\<rparr>)"
    using 1(1) b'(1) by (simp add: resize_def bindP_def prog_simps)
  have c: "contents m1 b' = contents m b"
    using 1(3) b b'(1) by (auto simp: view_def dest: fun_cong [of _ _ i])
  show ?thesis
  proof (cases "bb_data b'")
    case None
    with mem_ok_obj [OF 1(2) b'(1)] b'(3) have z: "len = 0" "bb_size b' = 0"
      by (auto simp: obj_ok_def)
    with b'(1) have "m1\<lparr>objs := (objs m1)(i \<mapsto> b'\<lparr>bb_size := len\<rparr>)\<rparr> = m1"
      by (simp add: fun_upd_idem)
    moreover have "contents m b = []" using c None by (simp add: contents_def)
    moreover from this have "view m = (view m)(i \<mapsto> [])" using b by (simp add: view_def fun_upd_idem)
    ultimately show ?thesis using run 1 z by (intro that(1) [of m1 "[]"]) simp_all
  next
    case (Some a)
    obtain xs where xs: "blocks m1 a = Some xs" "length xs = unat (bb_capacity b')"
      using mem_ok_obj [OF 1(2) b'(1)] Some by (rule obj_ok_block)
    have st: "m1\<lparr>objs := (objs m1)(i \<mapsto> b'\<lparr>bb_size := len\<rparr>)\<rparr> = poke m1 i b' a xs len"
      using xs(1) by (simp add: poke_def fun_upd_idem)
    have "unat len \<le> length xs" using b'(3) xs(2) by (simp add: word_le_nat_alt)
    moreover have "take (unat len) xs = take (unat len) (contents m b) @ drop (unat (bb_size b)) (take (unat len) xs)"
      unfolding c [symmetric] using Some xs(1) b'(2)
      by (simp add: contents_def) (metis append_take_drop_id take_take min.commute)
    ultimately show ?thesis
      using poke_ok [OF 1(2) b'(1) Some xs(2) b'(3)] run 1(3) unfolding st
      by (intro that(1) [of "poke m1 i b' a xs len" "drop (unat (bb_size b)) (take (unat len) xs)"]) auto
  qed
qed

lemma clear_run:
  assumes ok: "mem_ok m" and b: "objs m i = Some b"
  obtains m' where "clear_bb i m = (Inr (), m')" "mem_ok m'" "view m' = (view m)(i \<mapsto> [])"
    "objs m' = (objs m)(i \<mapsto> b\<lparr>bb_size := 0\<rparr>)" "blocks m' = blocks m" "brk m' = brk m"
proof -
  let ?m = "m\<lparr>objs := (objs m)(i \<mapsto> b\<lparr>bb_size := 0\<rparr>)\<rparr>"
  have "mem_ok ?m \<and> view ?m = (view m)(i \<mapsto> [])"
  proof (cases "bb_data b")
    case None
    with mem_ok_obj [OF ok b] have "b\<lparr>bb_size := 0\<rparr> = b" by (simp add: obj_ok_def)
    with b have "?m = m" by (simp add: fun_upd_idem)
    with ok b None show ?thesis by (simp add: view_def contents_def fun_upd_idem)
  next
    case (Some a)
    obtain xs where xs: "blocks m a = Some xs" "length xs = unat (bb_capacity b)"
      using mem_ok_obj [OF ok b] Some by (rule obj_ok_block)
    have "?m = poke m i b a xs 0" using xs(1) by (simp add: poke_def fun_upd_idem)
    with poke_ok [OF ok b Some xs(2), of 0] show ?thesis by simp
  qed
  with b show ?thesis by (intro that [of ?m]) (simp_all add: clear_bb_def bindP_def prog_simps)
qed

lemma assign_copy_yields:
  assumes ok: "mem_ok m" and b: "objs m i = Some b" "objs m j = Some c" and "i \<noteq> j"
    and fits: "unat (bb_size c) \<le> 2 ^ 63"
  obtains (returned) m' where "assign_copy i j m = (Inr (), m')" "mem_ok m'"
      "view m' = (view m)(i \<mapsto> contents m c)"
  | (threw) m' where "assign_copy i j m = (Inl (Throw BadAlloc), m')" "mem_ok m'"
      "view m' = (view m)(i \<mapsto> [])"
proof -
  obtain m1 where m1: "clear_bb i m = (Inr (), m1)" "mem_ok m1" "view m1 = (view m)(i \<mapsto> [])"
    "objs m1 = (objs m)(i \<mapsto> b\<lparr>bb_size := 0\<rparr>)" "blocks m1 = blocks m" "brk m1 = brk m"
    using clear_run [OF ok b(1)] by metis
  have j: "objs m1 j = Some c" using m1(4) b(2) \<open>i \<noteq> j\<close> by simp
  have eq: "assign_copy i j m = plus_assign i j m1"
    using m1(1) \<open>i \<noteq> j\<close> by (simp add: assign_copy_def plus_assign_def bindP_def prog_simps)
  have i1: "objs m1 i = Some (b\<lparr>bb_size := 0\<rparr>)" using m1(4) by simp
  have "contents m1 c = contents m c" "contents m1 (b\<lparr>bb_size := 0\<rparr>) = []"
    using m1(5) by (simp_all add: contents_def split: option.split)
  with plus_assign_yields [OF m1(2) i1 j \<open>i \<noteq> j\<close>] fits m1(3)
  have "yields m1 ((view m)(i \<mapsto> contents m c)) (assign_copy i j m)" by (simp add: eq)
  then show ?thesis
    by (cases rule: yields_cases) (use that m1(2,3) in auto)
qed

lemma ByteBuffer_move_run:
  assumes ok: "mem_ok m" and i: "objs m i = None" and j: "objs m j = Some c"
  obtains m' where "ByteBuffer_move i j m = (Inr (), m')" "mem_ok m'"
    "view m' = (view m)(i \<mapsto> contents m c, j \<mapsto> [])"
  using hand_over_ok [OF assms] j by (intro that) (auto simp: ByteBuffer_move_def bindP_def prog_simps)

lemma assign_move_run:
  assumes ok: "mem_ok m" and b: "objs m i = Some b" "objs m j = Some c" and neq: "i \<noteq> j"
  obtains m' where "assign_move i j m = (Inr (), m')" "mem_ok m'"
    "view m' = (view m)(i \<mapsto> contents m c, j \<mapsto> [])"
proof -
  obtain m1 where m1: "destroy i m = (Inr (), m1)" "mem_ok m1" "view m1 = (view m)(i := None)"
    "objs m1 = (objs m)(i := None)"
    using destroy_ok [OF ok b(1)] by metis
  note del = delete_array_destroy [OF b(1) m1(1)]
  have j: "objs m1 i = None" "objs m1 j = Some c" using m1(4) b(2) neq by auto
  have "assign_move i j m = (Inr (), m1\<lparr>objs := (objs m1)(i \<mapsto> c, j \<mapsto> bb_null)\<rparr>)"
    using b neq del by (simp add: assign_move_def bindP_def prog_simps)
  moreover have "view m1 j = view m j" using m1(3) neq by simp
  then have "contents m1 c = contents m c" using b(2) j(2) by (simp add: view_def)
  ultimately show ?thesis using hand_over_ok [OF m1(2) j] m1(3) by (intro that) auto
qed

lemma index_run:
  assumes "mem_ok m" and "objs m i = Some b"
  shows "index_bb i k m =
    (if k < bb_size b then (Inr (ptr_of (bb_data b) (unat k)), m)
     else (Inl (Throw (OutOfRange ''Index out of range'')), m))"
    and "k < bb_size b \<Longrightarrow> read_mem (ptr_of (bb_data b) (unat k)) 1 m = Inr [contents m b ! unat k]"
proof -
  show "index_bb i k m =
    (if k < bb_size b then (Inr (ptr_of (bb_data b) (unat k)), m)
     else (Inl (Throw (OutOfRange ''Index out of range'')), m))"
    using assms by (simp add: index_bb_def bindP_def prog_simps)
  assume "k < bb_size b"
  then have k: "unat k < unat (bb_size b)" by (simp add: word_less_nat_alt)
  with length_contents [OF mem_ok_obj [OF assms]]
  have "take 1 (drop (unat k) (contents m b)) = [contents m b ! unat k]"
    by (simp add: Cons_nth_drop_Suc [symmetric])
  with read_mem_buffer [OF mem_ok_obj [OF assms], of "unat k" 1] k
  show "read_mem (ptr_of (bb_data b) (unat k)) 1 m = Inr [contents m b ! unat k]" by simp
qed

lemma toString_run:
  "mem_ok m \<Longrightarrow> objs m i = Some b \<Longrightarrow> toString i m = (Inr (contents m b), m)"
  using read_mem_buffer [OF mem_ok_obj, of m i b 0 "unat (bb_size b)"] length_contents [OF mem_ok_obj, of m i b]
  by (simp add: toString_def bindP_def prog_simps)

lemma view_objs:
  assumes ok: "mem_ok m" and v: "view m i = Some cs"
  obtains b where "objs m i = Some b" "contents m b = cs" "unat (bb_size b) = length cs"
  using view_SomeD [OF v] length_contents [OF mem_ok_obj [OF ok]] that by metis

text \<open>\<open>operator+\<close>: copy, then append; a failure in the second step destroys the copy.\<close>

lemma copy_then_yields:
  assumes ok: "mem_ok m" and fresh: "objs m r = None" and b: "objs m i = Some b"
    and fits: "unat (bb_size b) \<le> 2 ^ 63"
    and body: "\<And>m1. mem_ok m1 \<Longrightarrow> view m1 = (view m)(r \<mapsto> contents m b) \<Longrightarrow> yields m1 V (body m1)"
  obtains (returned) m' where "seqP (ByteBuffer_copy r i) (unwinding r body) m = (Inr (), m')"
      "mem_ok m'" "view m' = V"
  | (threw) m' where "seqP (ByteBuffer_copy r i) (unwinding r body) m = (Inl (Throw BadAlloc), m')"
      "mem_ok m'" "view m' = view m"
  using ByteBuffer_copy_yields [OF ok fresh b fits]
proof (cases rule: yields_cases)
  case copied: (returned u m1)
  from body [OF copied(2,3)] show ?thesis
  proof (cases rule: yields_cases)
    case (returned u2 m2)
    with copied(1) show ?thesis
      by (intro that(1) [of m2]) (auto simp: bindP_def prog_simps unwinding_def)
  next
    case threw
    obtain b' where b': "objs m1 r = Some b'"
      using view_objs [OF copied(2), of r] copied(3) by auto
    obtain m2 where m2: "destroy r m1 = (Inr (), m2)" "mem_ok m2" "view m2 = (view m1)(r := None)"
      using destroy_ok [OF copied(2) b'] by metis
    have "view m2 = view m" using m2(3) copied(3) fresh by (auto simp: view_def fun_eq_iff)
    with threw m2 copied(1) show ?thesis
      by (intro that(2) [of m2]) (auto simp: bindP_def prog_simps unwinding_def)
  qed
next
  case threw
  with ok show ?thesis by (intro that(2)) (auto simp: bindP_def prog_simps)
qed

lemma plus_assign_view_yields:
  assumes ok: "mem_ok m" and v: "view m i = Some xs" "view m j = Some ys" and "i \<noteq> j"
    and fits: "length xs + length ys \<le> 2 ^ 63"
  shows "yields m ((view m)(i \<mapsto> xs @ ys)) (plus_assign i j m)"
  using view_objs [OF ok v(1)] view_objs [OF ok v(2)] plus_assign_yields [OF ok _ _ \<open>i \<noteq> j\<close>] fits
  by metis

lemma append_string_view_yields:
  assumes ok: "mem_ok m" and v: "view m i = Some xs" and fits: "length xs + length s \<le> 2 ^ 63"
  shows "yields m ((view m)(i \<mapsto> xs @ map Some s)) (append_string i s m)"
  using view_objs [OF ok v] append_string_yields [OF ok] fits by metis

end
