(* ===== verification/Byte_Buffer_Contract.thy ===== *)
theory Byte_Buffer_Contract
  imports Byte_Buffer_Memory
begin

text \<open>
  The contract of the \<open>ByteBuffer\<close> class of \<open>core/ByteBuffer.hpp\<close> over lists, that the calls of
  the class meet it in every memory a program reaches, and where the code falls short of what
  its interface suggests (appending a buffer to itself, capacities above \<open>2^63\<close>).
\<close>

section \<open>Calls, their contracts and their refinement\<close>

text \<open>
  The public interface of the class as a datatype of calls, what a call hands back, and what it
  means on the contents of the buffers. \<open>data()\<close> and \<open>cdata()\<close>, and the two overloads of \<open>operator[]\<close>
  and of the constructor from a pointer and a length, differ in types only and are one call each. \<open>legal\<close> is what a C++
  caller owes: objects that are used exist, results go to new objects, pointers point to as many
  bytes as are asked for, sizes stay below \<open>2^63\<close>, and no buffer is appended to itself (see
  \<open>self_append_undefined\<close> below).
\<close>

text \<open>A pointer argument as a caller writes it: some storage of its own, or \<open>j.data() + off\<close>.\<close>

datatype source = Outside bytes | Within oid u64

definition source_ptr :: "source \<Rightarrow> pointer act" where
  "source_ptr src = (case src of
      Outside bs \<Rightarrow> retP (Ext bs)
    | Within j off \<Rightarrow> bindP (get_this j) (\<lambda>b. retP (ptr_of (bb_data b) (unat off))))"

datatype bb_call =
    New oid
  | NewString oid bytes
  | NewPtr oid source u64
  | NewCstr oid bytes
  | Copy oid oid
  | Move oid oid
  | Destroy oid
  | AssignCopy oid oid
  | AssignMove oid oid
  | Clear oid
  | Reserve oid u64
  | Resize oid u64
  | Append oid bytes
  | AppendPtr oid source u64
  | PlusAssign oid oid
  | PlusAssignString oid bytes
  | Plus oid oid oid
  | PlusString oid oid bytes
  | Slice oid oid u64 u64
  | Data oid
  | Index oid u64
  | Size oid
  | Capacity oid
  | ToString oid

datatype bb_value = Done | Number u64 | Place pointer | Bytes "cell list"

definition giving :: "'b \<Rightarrow> 'a act \<Rightarrow> 'b act" where
  "giving x m = bindP m (\<lambda>_. retP x)"

fun run_call :: "bb_call \<Rightarrow> bb_value act" where
  "run_call (New i) = giving Done (ByteBuffer_default i)"
| "run_call (NewString i s) = giving Done (ByteBuffer_string i s)"
| "run_call (NewPtr i src n) = bindP (source_ptr src) (\<lambda>p. giving Done (ByteBuffer_ptr i p n))"
| "run_call (NewCstr i s) = giving Done (ByteBuffer_cstr i s)"
| "run_call (Copy i j) = giving Done (ByteBuffer_copy i j)"
| "run_call (Move i j) = giving Done (ByteBuffer_move i j)"
| "run_call (Destroy i) = giving Done (destroy i)"
| "run_call (AssignCopy i j) = giving Done (assign_copy i j)"
| "run_call (AssignMove i j) = giving Done (assign_move i j)"
| "run_call (Clear i) = giving Done (clear_bb i)"
| "run_call (Reserve i n) = giving Done (reserve i n)"
| "run_call (Resize i n) = giving Done (resize i n)"
| "run_call (Append i s) = giving Done (append_string i s)"
| "run_call (AppendPtr i src n) = bindP (source_ptr src) (\<lambda>p. giving Done (append_ptr i p n))"
| "run_call (PlusAssign i j) = giving Done (plus_assign i j)"
| "run_call (PlusAssignString i s) = giving Done (plus_assign_string i s)"
| "run_call (Plus r i j) = giving Done (plus_bb r i j)"
| "run_call (PlusString r i s) = giving Done (plus_bb_string r i s)"
| "run_call (Slice r i a z) = giving Done (slice_bb r i a z)"
| "run_call (Data i) = bindP (data_ptr i) (\<lambda>p. retP (Place p))"
| "run_call (Index i k) = bindP (index_bb i k) (\<lambda>p. retP (Place p))"
| "run_call (Size i) = bindP (size_of i) (\<lambda>n. retP (Number n))"
| "run_call (Capacity i) = bindP (capacity_of i) (\<lambda>n. retP (Number n))"
| "run_call (ToString i) = bindP (toString i) (\<lambda>cs. retP (Bytes cs))"

type_synonym abs_mem = "oid \<rightharpoonup> cell list"

definition small :: "abs_mem \<Rightarrow> oid \<Rightarrow> nat \<Rightarrow> bool" where
  "small V i n = (case V i of None \<Rightarrow> False | Some xs \<Rightarrow> length xs + n \<le> 2 ^ 63)"

definition len_at :: "abs_mem \<Rightarrow> oid \<Rightarrow> nat" where
  "len_at V i = (case V i of None \<Rightarrow> 0 | Some xs \<Rightarrow> length xs)"

definition readable :: "abs_mem \<Rightarrow> source \<Rightarrow> u64 \<Rightarrow> bool" where
  "readable V src n = (case src of
      Outside bs \<Rightarrow> unat n \<le> length bs
    | Within j off \<Rightarrow> V j \<noteq> None \<and> unat off + unat n \<le> len_at V j)"

definition bytes_from :: "abs_mem \<Rightarrow> source \<Rightarrow> u64 \<Rightarrow> cell list" where
  "bytes_from V src n = (case src of
      Outside bs \<Rightarrow> map Some (take (unat n) bs)
    | Within j off \<Rightarrow> take (unat n) (drop (unat off) (the (V j))))"

definition inside :: "oid \<Rightarrow> source \<Rightarrow> bool" where
  "inside i src = (case src of Outside bs \<Rightarrow> False | Within j off \<Rightarrow> j = i)"

fun legal :: "abs_mem \<Rightarrow> bb_call \<Rightarrow> bool" where
  "legal V (New i) = (V i = None)"
| "legal V (NewString i s) = (V i = None \<and> length s \<le> 2 ^ 63)"
| "legal V (NewPtr i src n) = (V i = None \<and> readable V src n \<and> n \<le> 2 ^ 63)"
| "legal V (NewCstr i s) = (V i = None \<and> 0 \<in> set s \<and> length s \<le> 2 ^ 63)"
| "legal V (Copy i j) = (V i = None \<and> small V j 0)"
| "legal V (Move i j) = (V i = None \<and> V j \<noteq> None)"
| "legal V (Destroy i) = (V i \<noteq> None)"
| "legal V (AssignCopy i j) = (V i \<noteq> None \<and> small V j 0)"
| "legal V (AssignMove i j) = (V i \<noteq> None \<and> V j \<noteq> None)"
| "legal V (Clear i) = (V i \<noteq> None)"
| "legal V (Reserve i n) = (V i \<noteq> None \<and> n \<le> 2 ^ 63)"
| "legal V (Resize i n) = (V i \<noteq> None \<and> n \<le> 2 ^ 63)"
| "legal V (Append i s) = small V i (length s)"
| "legal V (AppendPtr i src n) = (small V i (unat n) \<and> readable V src n \<and> \<not> inside i src)"
| "legal V (PlusAssign i j) = (i \<noteq> j \<and> V j \<noteq> None \<and> small V i (len_at V j))"
| "legal V (PlusAssignString i s) = small V i (length s)"
| "legal V (Plus r i j) = (V r = None \<and> V j \<noteq> None \<and> small V i (len_at V j))"
| "legal V (PlusString r i s) = (V r = None \<and> small V i (length s))"
| "legal V (Slice r i a z) = (V r = None \<and> small V i 0)"
| "legal V (Data i) = (V i \<noteq> None)"
| "legal V (Index i k) = (V i \<noteq> None)"
| "legal V (Size i) = (V i \<noteq> None)"
| "legal V (Capacity i) = (V i \<noteq> None)"
| "legal V (ToString i) = (V i \<noteq> None)"

text \<open>The contents after a call that returns; \<open>resize\<close> leaves the bytes it adds open.\<close>

fun spec_call :: "bb_call \<Rightarrow> abs_mem \<Rightarrow> abs_mem \<Rightarrow> bool" where
  "spec_call (New i) V V' = (V' = V(i \<mapsto> []))"
| "spec_call (NewString i s) V V' = (V' = V(i \<mapsto> map Some s))"
| "spec_call (NewPtr i src n) V V' = (V' = V(i \<mapsto> bytes_from V src n))"
| "spec_call (NewCstr i s) V V' = (V' = V(i \<mapsto> map Some (takeWhile (\<lambda>c. c \<noteq> 0) s)))"
| "spec_call (Copy i j) V V' = (V' = V(i := V j))"
| "spec_call (Move i j) V V' = (V' = V(i := V j, j \<mapsto> []))"
| "spec_call (Destroy i) V V' = (V' = V(i := None))"
| "spec_call (AssignCopy i j) V V' = (V' = V(i := V j))"
| "spec_call (AssignMove i j) V V' = (V' = (if i = j then V else V(i := V j, j \<mapsto> [])))"
| "spec_call (Clear i) V V' = (V' = V(i \<mapsto> []))"
| "spec_call (Resize i n) V V' =
     (\<exists>ys. length ys = unat n - len_at V i \<and> V' = V(i \<mapsto> take (unat n) (the (V i)) @ ys))"
| "spec_call (Append i s) V V' = (V' = V(i \<mapsto> the (V i) @ map Some s))"
| "spec_call (AppendPtr i src n) V V' = (V' = V(i \<mapsto> the (V i) @ bytes_from V src n))"
| "spec_call (PlusAssign i j) V V' = (V' = V(i \<mapsto> the (V i) @ the (V j)))"
| "spec_call (PlusAssignString i s) V V' = (V' = V(i \<mapsto> the (V i) @ map Some s))"
| "spec_call (Plus r i j) V V' = (V' = V(r \<mapsto> the (V i) @ the (V j)))"
| "spec_call (PlusString r i s) V V' = (V' = V(r \<mapsto> the (V i) @ map Some s))"
| "spec_call (Slice r i a z) V V' =
     (a \<le> z \<and> unat z \<le> len_at V i \<and>
      V' = V(r \<mapsto> take (unat z - unat a) (drop (unat a) (the (V i)))))"
| "spec_call (Index i k) V V' = (V' = V \<and> unat k < len_at V i)"
| "spec_call c V V' = (V' = V)"

text \<open>How a call may throw, and what it then leaves.\<close>

fun spec_throw :: "bb_call \<Rightarrow> exn \<Rightarrow> abs_mem \<Rightarrow> abs_mem \<Rightarrow> bool" where
  "spec_throw (AssignCopy i j) e V V' = (e = BadAlloc \<and> V' = V(i \<mapsto> []))"
| "spec_throw (Slice r i a z) e V V' =
     (V' = V \<and> (if a \<le> z \<and> unat z \<le> len_at V i then e = BadAlloc
                 else e = slice_error (unat a) (unat z) (len_at V i)))"
| "spec_throw (Index i k) e V V' =
     (V' = V \<and> e = OutOfRange ''Index out of range'' \<and> len_at V i \<le> unat k)"
| "spec_throw (New i) e V V' = False"
| "spec_throw (Move i j) e V V' = False"
| "spec_throw (Destroy i) e V V' = False"
| "spec_throw (AssignMove i j) e V V' = False"
| "spec_throw (Clear i) e V V' = False"
| "spec_throw (Data i) e V V' = False"
| "spec_throw (Size i) e V V' = False"
| "spec_throw (Capacity i) e V V' = False"
| "spec_throw c e V V' = (e = BadAlloc \<and> V' = V)"

text \<open>
  \<open>p\<close> is a place in buffer \<open>i\<close>: reading \<open>n\<close> bytes there gives the bytes of the buffer from \<open>off\<close> on,
  and writing there replaces exactly these.
\<close>

definition denotes :: "mem \<Rightarrow> pointer \<Rightarrow> oid \<Rightarrow> nat \<Rightarrow> nat \<Rightarrow> bool" where
  "denotes m p i off n \<longleftrightarrow> (\<exists>xs. view m i = Some xs \<and> off + n \<le> length xs
    \<and> read_mem p n m = Inr (take n (drop off xs))
    \<and> (\<forall>cs. cs \<noteq> [] \<longrightarrow> length cs = n \<longrightarrow> (\<exists>m'. write_mem p cs m = (Inr (), m') \<and> mem_ok m'
        \<and> view m' = (view m)(i \<mapsto> take off xs @ cs @ drop (off + n) xs))))"

text \<open>What a call hands back; \<open>reserve\<close> hands back nothing but has to leave the room asked for.\<close>

fun spec_value :: "bb_call \<Rightarrow> abs_mem \<Rightarrow> mem \<Rightarrow> bb_value \<Rightarrow> bool" where
  "spec_value (Data i) V m x = (\<exists>p. x = Place p \<and> denotes m p i 0 (len_at V i))"
| "spec_value (Index i k) V m x = (\<exists>p. x = Place p \<and> denotes m p i (unat k) 1)"
| "spec_value (Size i) V m x = (\<exists>n. x = Number n \<and> unat n = len_at V i)"
| "spec_value (Capacity i) V m x = (\<exists>n. x = Number n \<and> len_at V i \<le> unat n)"
| "spec_value (ToString i) V m x = (x = Bytes (the (V i)))"
| "spec_value (Reserve i n) V m x = (x = Done \<and> (\<exists>b. objs m i = Some b \<and> n \<le> bb_capacity b))"
| "spec_value c V m x = (x = Done)"

definition upd_meets :: "bb_call \<Rightarrow> abs_mem \<Rightarrow> (fault + 'a) \<times> mem \<Rightarrow> bool" where
  "upd_meets c V r \<longleftrightarrow> mem_ok (snd r) \<and>
    (case fst r of
       Inr _ \<Rightarrow> spec_call c V (view (snd r))
     | Inl f \<Rightarrow> (\<exists>e. f = Throw e \<and> spec_throw c e V (view (snd r))))"

definition call_meets :: "bb_call \<Rightarrow> abs_mem \<Rightarrow> (fault + bb_value) \<times> mem \<Rightarrow> bool" where
  "call_meets c V r \<longleftrightarrow> upd_meets c V r \<and> (\<forall>x. fst r = Inr x \<longrightarrow> spec_value c V (snd r) x)"

lemma yields_meets:
  assumes "yields m W r" and "mem_ok m" and "spec_call c V W" and "spec_throw c BadAlloc V (view m)"
  shows "upd_meets c V r"
  using assms(1) by (cases rule: yields_cases) (use assms(2-4) in \<open>auto simp: upd_meets_def\<close>)

lemma view_None: "view m i = None \<longleftrightarrow> objs m i = None"
  by (simp add: view_def)

lemma live_ex:
  assumes "view m i \<noteq> None" and "mem_ok m"
  shows "\<exists>b. objs m i = Some b \<and> view m i = Some (contents m b)
    \<and> unat (bb_size b) = length (contents m b)"
  using assms(1) length_contents [OF mem_ok_obj [OF assms(2)]]
  by (cases "objs m i") (auto simp: view_def)

lemma small_ex:
  assumes "small (view m) i n" and "mem_ok m"
  shows "\<exists>b. objs m i = Some b \<and> view m i = Some (contents m b)
    \<and> unat (bb_size b) = length (contents m b) \<and> length (contents m b) + n \<le> 2 ^ 63"
  using assms(1) live_ex [OF _ assms(2), of i]
  by (cases "view m i") (auto simp: small_def)

lemma upd_slice:
  assumes ok: "mem_ok m" and r: "view m r = None" and i: "small (view m) i 0"
  shows "upd_meets (Slice r i a z) (view m) (slice_bb r i a z m)"
proof -
  obtain b where b: "objs m i = Some b" "view m i = Some (contents m b)"
    "unat (bb_size b) = length (contents m b)" "unat (bb_size b) \<le> 2 ^ 63"
    using small_ex [OF i ok] by auto
  have fresh: "objs m r = None" using r by (simp add: view_None)
  have len: "z \<le> bb_size b \<longleftrightarrow> unat z \<le> len_at (view m) i" "len_at (view m) i = unat (bb_size b)"
    using b by (simp_all add: len_at_def word_le_nat_alt)
  show ?thesis
  proof (cases "a \<le> z \<and> z \<le> bb_size b")
    case True
    then have "yields m ((view m)(r \<mapsto> take (unat z - unat a) (drop (unat a) (contents m b))))
        (slice_bb r i a z m)"
      using slice_yields [OF ok fresh b(1) _ _ b(4)] by blast
    then show ?thesis by (rule yields_meets [OF _ ok]) (use True len b(2) in auto)
  next
    case False
    then show ?thesis
      using slice_throws [OF b(1) False, of r] ok len by (auto simp: upd_meets_def)
  qed
qed

lemma upd_resize:
  assumes ok: "mem_ok m" and i: "view m i \<noteq> None" and n: "n \<le> 2 ^ 63"
  shows "upd_meets (Resize i n) (view m) (resize i n m)"
proof -
  obtain b where b: "objs m i = Some b" "view m i = Some (contents m b)"
    using live_ex [OF i ok] by blast
  show ?thesis
  proof (cases rule: resize_yields [OF ok b(1) n])
    case (1 m' ys)
    with b have "length ys = unat n - len_at (view m) i" by (auto simp: len_at_def)
    with 1 b show ?thesis by (auto simp: upd_meets_def)
  next
    case 2
    with ok show ?thesis by (simp add: upd_meets_def)
  qed
qed

lemma upd_plus:
  assumes ok: "mem_ok m" and r: "view m r = None" and j: "view m j \<noteq> None"
    and i: "small (view m) i (len_at (view m) j)"
  shows "upd_meets (Plus r i j) (view m) (plus_bb r i j m)"
proof -
  obtain b where b: "objs m i = Some b" "view m i = Some (contents m b)"
    "unat (bb_size b) = length (contents m b)"
    "length (contents m b) + len_at (view m) j \<le> 2 ^ 63"
    using small_ex [OF i ok] by auto
  obtain c where c: "view m j = Some (contents m c)" using live_ex [OF j ok] by blast
  have "r \<noteq> j" using r c by auto
  with r have fresh: "objs m r = None" "r \<noteq> j" by (simp_all add: view_None)
  have body: "yields m1 ((view m)(r \<mapsto> contents m b @ contents m c)) (plus_assign r j m1)"
    if "mem_ok m1" "view m1 = (view m)(r \<mapsto> contents m b)" for m1
    using plus_assign_view_yields [OF that(1), of r "contents m b" j "contents m c"] that b c fresh
    by (simp add: len_at_def)
  have "unat (bb_size b) \<le> 2 ^ 63" using b by simp
  then show ?thesis
    by (cases rule: copy_then_yields [OF ok fresh(1) b(1) _ body])
      (use b c ok in \<open>auto simp: upd_meets_def plus_bb_def\<close>)
qed

lemma upd_plus_string:
  assumes ok: "mem_ok m" and r: "view m r = None" and i: "small (view m) i (length s)"
  shows "upd_meets (PlusString r i s) (view m) (plus_bb_string r i s m)"
proof -
  obtain b where b: "objs m i = Some b" "view m i = Some (contents m b)"
    "unat (bb_size b) = length (contents m b)" "length (contents m b) + length s \<le> 2 ^ 63"
    using small_ex [OF i ok] by auto
  have fresh: "objs m r = None" using r by (simp add: view_None)
  have body: "yields m1 ((view m)(r \<mapsto> contents m b @ map Some s)) (plus_assign_string r s m1)"
    if "mem_ok m1" "view m1 = (view m)(r \<mapsto> contents m b)" for m1
    using append_string_view_yields [OF that(1), of r "contents m b" s] that b
    by (simp add: plus_assign_string_def)
  have "unat (bb_size b) \<le> 2 ^ 63" using b by simp
  then show ?thesis
    by (cases rule: copy_then_yields [OF ok fresh b(1) _ body])
      (use b ok in \<open>auto simp: upd_meets_def plus_bb_string_def\<close>)
qed

lemma upd_assign:
  assumes ok: "mem_ok m" and i: "view m i \<noteq> None" and j: "small (view m) j 0"
  shows "upd_meets (AssignCopy i j) (view m) (assign_copy i j m)"
proof (cases "i = j")
  case True
  with ok show ?thesis by (simp add: upd_meets_def assign_copy_def prog_simps)
next
  case False
  obtain b where b: "objs m i = Some b" using live_ex [OF i ok] by blast
  obtain c where c: "objs m j = Some c" "view m j = Some (contents m c)" "unat (bb_size c) \<le> 2 ^ 63"
    using small_ex [OF j ok] by auto
  show ?thesis
    by (cases rule: assign_copy_yields [OF ok b c(1) False c(3)])
      (use c in \<open>auto simp: upd_meets_def\<close>)
qed

lemma upd_moves:
  assumes ok: "mem_ok m" and j: "view m j \<noteq> None"
  shows "view m i = None \<Longrightarrow> upd_meets (Move i j) (view m) (ByteBuffer_move i j m)"
    and "view m i \<noteq> None \<Longrightarrow> upd_meets (AssignMove i j) (view m) (assign_move i j m)"
proof -
  obtain c where c: "objs m j = Some c" "view m j = Some (contents m c)"
    using live_ex [OF j ok] by blast
  show "upd_meets (Move i j) (view m) (ByteBuffer_move i j m)" if "view m i = None"
  proof -
    have "objs m i = None" using that by (simp add: view_None)
    then show ?thesis
      by (rule ByteBuffer_move_run [OF ok _ c(1)]) (simp add: upd_meets_def c(2))
  qed
  show "upd_meets (AssignMove i j) (view m) (assign_move i j m)" if i: "view m i \<noteq> None"
  proof (cases "i = j")
    case True
    with ok show ?thesis by (simp add: upd_meets_def assign_move_def prog_simps)
  next
    case False
    obtain b where "objs m i = Some b" using live_ex [OF i ok] by blast
    then show ?thesis
      by (rule assign_move_run [OF ok _ c(1) False]) (simp add: upd_meets_def c(2) False)
  qed
qed

lemma upd_grow:
  assumes ok: "mem_ok m"
  shows "view m i = None \<Longrightarrow> length s \<le> 2 ^ 63 \<Longrightarrow>
      upd_meets (NewString i s) (view m) (ByteBuffer_string i s m)"
    and "view m i = None \<Longrightarrow> small (view m) j 0 \<Longrightarrow>
      upd_meets (Copy i j) (view m) (ByteBuffer_copy i j m)"
    and "small (view m) i (length s) \<Longrightarrow> upd_meets (Append i s) (view m) (append_string i s m)"
    and "i \<noteq> j \<Longrightarrow> view m j \<noteq> None \<Longrightarrow> small (view m) i (len_at (view m) j) \<Longrightarrow>
      upd_meets (PlusAssign i j) (view m) (plus_assign i j m)"
    and "view m i \<noteq> None \<Longrightarrow> n \<le> 2 ^ 63 \<Longrightarrow> upd_meets (Reserve i n) (view m) (reserve i n m)"
proof -
  show "upd_meets (NewString i s) (view m) (ByteBuffer_string i s m)"
    if "view m i = None" "length s \<le> 2 ^ 63"
    using ByteBuffer_string_yields [OF ok] that
    by (intro yields_meets [OF _ ok]) (auto simp: view_None)
  show "upd_meets (Copy i j) (view m) (ByteBuffer_copy i j m)"
    if "view m i = None" and j: "small (view m) j 0"
  proof -
    obtain c where c: "objs m j = Some c" "view m j = Some (contents m c)" "unat (bb_size c) \<le> 2 ^ 63"
      using small_ex [OF j ok] by auto
    show ?thesis using ByteBuffer_copy_yields [OF ok _ c(1,3), of i] that c
      by (intro yields_meets [OF _ ok]) (auto simp: view_None)
  qed
  show "upd_meets (Append i s) (view m) (append_string i s m)" if i: "small (view m) i (length s)"
  proof -
    obtain b where "view m i = Some (contents m b)" "length (contents m b) + length s \<le> 2 ^ 63"
      using small_ex [OF i ok] by auto
    then show ?thesis using append_string_view_yields [OF ok]
      by (intro yields_meets [OF _ ok]) auto
  qed
  show "upd_meets (PlusAssign i j) (view m) (plus_assign i j m)"
    if "i \<noteq> j" and j: "view m j \<noteq> None" and i: "small (view m) i (len_at (view m) j)"
  proof -
    obtain c where c: "view m j = Some (contents m c)" using live_ex [OF j ok] by blast
    obtain b where b: "view m i = Some (contents m b)"
      "length (contents m b) + len_at (view m) j \<le> 2 ^ 63"
      using small_ex [OF i ok] by auto
    with c show ?thesis using plus_assign_view_yields [OF ok b(1) c \<open>i \<noteq> j\<close>]
      by (intro yields_meets [OF _ ok]) (auto simp: len_at_def)
  qed
  show "upd_meets (Reserve i n) (view m) (reserve i n m)" if i: "view m i \<noteq> None" and "n \<le> 2 ^ 63"
  proof -
    obtain b where "objs m i = Some b" using live_ex [OF i ok] by blast
    with that show ?thesis using ensureCapacity_yields [OF ok]
      by (intro yields_meets [OF _ ok]) (auto simp: reserve_def)
  qed
qed

lemma upd_objects:
  assumes ok: "mem_ok m"
  shows "view m i = None \<Longrightarrow> upd_meets (New i) (view m) (ByteBuffer_default i m)"
    and "view m i \<noteq> None \<Longrightarrow> upd_meets (Destroy i) (view m) (destroy i m)"
    and "view m i \<noteq> None \<Longrightarrow> upd_meets (Clear i) (view m) (clear_bb i m)"
proof -
  show "upd_meets (New i) (view m) (ByteBuffer_default i m)" if "view m i = None"
    using new_object_ok [OF ok, of i] that
    by (simp add: upd_meets_def view_None ByteBuffer_default_def prog_simps)
  show "upd_meets (Destroy i) (view m) (destroy i m)" if i: "view m i \<noteq> None"
    using destroy_ok [OF ok] live_ex [OF i ok] by (fastforce simp: upd_meets_def)
  show "upd_meets (Clear i) (view m) (clear_bb i m)" if i: "view m i \<noteq> None"
    using clear_run [OF ok] live_ex [OF i ok] by (fastforce simp: upd_meets_def)
qed

text \<open>Bytes given by a pointer: they can be read, and lie in no buffer but the one named.\<close>

definition points_at :: "mem \<Rightarrow> source \<Rightarrow> pointer \<Rightarrow> bool" where
  "points_at m src p \<longleftrightarrow> (\<forall>a off. p = Into a off \<longrightarrow> a < brk m
    \<and> (\<forall>i b. objs m i = Some b \<longrightarrow> bb_data b = Some a \<longrightarrow> inside i src))"

lemma source_ready:
  assumes ok: "mem_ok m" and src: "readable (view m) src n"
  shows "\<exists>p. source_ptr src m = (Inr p, m) \<and> read_mem p (unat n) m = Inr (bytes_from (view m) src n)
    \<and> points_at m src p"
proof (cases src)
  case (Outside bs)
  then show ?thesis using src
    by (simp add: source_ptr_def retP_def readable_def read_mem_ext bytes_from_def points_at_def)
next
  case (Within j off)
  then obtain b where b: "objs m j = Some b" "view m j = Some (contents m b)"
    "unat (bb_size b) = length (contents m b)"
    using src live_ex [OF _ ok, of j] by (auto simp: readable_def)
  let ?p = "ptr_of (bb_data b) (unat off)"
  have "unat off + unat n \<le> unat (bb_size b)" using src Within b by (simp add: readable_def len_at_def)
  then have "read_mem ?p (unat n) m = Inr (bytes_from (view m) src n)"
    using read_mem_buffer [OF mem_ok_obj [OF ok b(1)]] Within b(2) by (simp add: bytes_from_def)
  moreover have "source_ptr src m = (Inr ?p, m)" using Within b(1) by (simp add: source_ptr_def bindP_def prog_simps)
  moreover have "points_at m src ?p"
    using mem_ok_brk [OF ok b(1)] mem_ok_inj [OF ok b(1)] Within
    by (fastforce simp: points_at_def ptr_of_def inside_def split: option.splits)
  ultimately show ?thesis by blast
qed

lemma upd_new_ptr:
  assumes ok: "mem_ok m" and src: "readable (view m) src n" and i: "view m i = None" "n \<le> 2 ^ 63"
  shows "\<exists>p. source_ptr src m = (Inr p, m) \<and> upd_meets (NewPtr i src n) (view m) (ByteBuffer_ptr i p n m)"
proof -
  obtain p where p: "source_ptr src m = (Inr p, m)" "read_mem p (unat n) m = Inr (bytes_from (view m) src n)"
    "points_at m src p" using source_ready [OF ok src] by blast
  have "yields m ((view m)(i \<mapsto> bytes_from (view m) src n)) (ByteBuffer_ptr i p n m)"
    unfolding ByteBuffer_ptr_def using i p(2,3) ok
    by (intro constructing_append_yields) (auto simp: view_None word_le_nat_alt points_at_def)
  then have "upd_meets (NewPtr i src n) (view m) (ByteBuffer_ptr i p n m)"
    by (rule yields_meets [OF _ ok]) simp_all
  with p(1) show ?thesis by blast
qed

lemma upd_append_ptr:
  assumes ok: "mem_ok m" and src: "readable (view m) src n" "\<not> inside i src" and i: "small (view m) i (unat n)"
  shows "\<exists>p. source_ptr src m = (Inr p, m) \<and> upd_meets (AppendPtr i src n) (view m) (append_ptr i p n m)"
proof -
  obtain p where p: "source_ptr src m = (Inr p, m)" "read_mem p (unat n) m = Inr (bytes_from (view m) src n)"
    "points_at m src p" using source_ready [OF ok src(1)] by blast
  obtain b where b: "objs m i = Some b" "view m i = Some (contents m b)"
    "unat (bb_size b) + unat n \<le> 2 ^ 63" using small_ex [OF i ok] by auto
  have "yields m ((view m)(i \<mapsto> contents m b @ bytes_from (view m) src n)) (append_ptr i p n m)"
    using p(3) src(2) b(1) by (intro append_ptr_yields [OF ok b(1) p(2) _ b(3)]) (auto simp: points_at_def)
  then have "upd_meets (AppendPtr i src n) (view m) (append_ptr i p n m)"
    by (rule yields_meets [OF _ ok]) (simp_all add: b(2))
  with p(1) show ?thesis by blast
qed

lemma upd_cstr:
  assumes ok: "mem_ok m" and s: "view m i = None" "0 \<in> set s" "length s \<le> 2 ^ 63"
  shows "upd_meets (NewCstr i s) (view m) (ByteBuffer_cstr i s m)"
proof -
  let ?n = "length (takeWhile (\<lambda>c. c \<noteq> 0) s)"
  have n: "?n \<le> length s" by (rule length_takeWhile_le)
  then have "unat (word_of_nat ?n :: u64) = ?n" using s(3) by (intro unat_of_nat_small) simp
  then have "read_mem (Ext s) (unat (word_of_nat ?n :: u64)) m = Inr (map Some (takeWhile (\<lambda>c. c \<noteq> 0) s))"
    using n by (simp add: read_mem_ext takeWhile_eq_take [symmetric])
  then have "yields m ((view m)(i \<mapsto> map Some (takeWhile (\<lambda>c. c \<noteq> 0) s)))
      (constructing i (append_ptr i (Ext s) (word_of_nat ?n)) m)"
    using ok s n \<open>unat (word_of_nat ?n :: u64) = ?n\<close>
    by (intro constructing_append_yields) (simp_all add: view_None)
  then have "yields m ((view m)(i \<mapsto> map Some (takeWhile (\<lambda>c. c \<noteq> 0) s))) (ByteBuffer_cstr i s m)"
    using s(2) by (simp add: ByteBuffer_cstr_def strlen_def bindP_liftP_Inr)
  then show ?thesis by (rule yields_meets [OF _ ok]) simp_all
qed

lemma upd_plus_assign_string:
  assumes "mem_ok m" and "small (view m) i (length s)"
  shows "upd_meets (PlusAssignString i s) (view m) (plus_assign_string i s m)"
  using upd_grow(3) [OF assms] by (simp add: upd_meets_def plus_assign_string_def split: sum.splits)

lemmas upd_cases = upd_slice upd_resize upd_plus upd_plus_string upd_assign upd_moves upd_grow
  upd_objects upd_cstr upd_plus_assign_string

text \<open>Places in a buffer.\<close>

lemma buffer_denotes:
  assumes ok: "mem_ok m" and b: "objs m i = Some b" and room: "off + n \<le> unat (bb_size b)"
  shows "denotes m (ptr_of (bb_data b) off) i off n"
proof -
  let ?xs = "contents m b"
  have len: "length ?xs = unat (bb_size b)" by (rule length_contents [OF mem_ok_obj [OF ok b]])
  have "\<exists>m'. write_mem (ptr_of (bb_data b) off) cs m = (Inr (), m') \<and> mem_ok m'
      \<and> view m' = (view m)(i \<mapsto> take off ?xs @ cs @ drop (off + n) ?xs)"
    if cs: "cs \<noteq> []" "length cs = n" for cs
  proof -
    have n: "off < unat (bb_size b)" "n \<le> unat (bb_size b) - off" using cs room by (cases cs; simp)+
    have "bb_data b \<noteq> None"
      using mem_ok_obj [OF ok b] room cs by (auto simp: obj_ok_def split: option.splits)
    then obtain a where a: "bb_data b = Some a" by blast
    obtain ys where ys: "blocks m a = Some ys" "length ys = unat (bb_capacity b)"
      and cap: "unat (bb_size b) \<le> length ys"
      using mem_ok_obj [OF ok b] a by (rule obj_ok_block)
    let ?zs = "take off ys @ cs @ drop (off + n) ys"
    have st: "m\<lparr>blocks := (blocks m)(a \<mapsto> ?zs)\<rparr> = poke m i b a ?zs (bb_size b)"
      using b by (simp add: poke_def fun_upd_idem)
    have xs: "?xs = take (unat (bb_size b)) ys" using a ys(1) by (simp add: contents_def)
    have "length ?zs = unat (bb_capacity b)" using cs room cap ys(2) by simp
    note poked = poke_ok [OF ok b a this, of "bb_size b"]
    have "write_mem (ptr_of (bb_data b) off) cs m = (Inr (), m\<lparr>blocks := (blocks m)(a \<mapsto> ?zs)\<rparr>)"
      using a ys(1) cs room cap by (simp add: write_mem_def ptr_of_def)
    moreover have "take (unat (bb_size b)) ?zs = take off ?xs @ cs @ drop (off + n) ?xs"
      using cs n cap unfolding xs by (simp add: drop_take min_def)
    moreover have "bb_size b \<le> bb_capacity b" using cap ys(2) by (simp add: word_le_nat_alt)
    ultimately show ?thesis using poked unfolding st by simp
  qed
  moreover have "view m i = Some ?xs" using b by (simp add: view_def)
  ultimately show ?thesis
    using read_mem_buffer [OF mem_ok_obj [OF ok b] room] room len by (auto simp: denotes_def)
qed

lemma queries_meet:
  assumes ok: "mem_ok m" and i: "view m i \<noteq> None"
  shows "call_meets (Data i) (view m) (run_call (Data i) m)"
    and "call_meets (Index i k) (view m) (run_call (Index i k) m)"
    and "call_meets (Size i) (view m) (run_call (Size i) m)"
    and "call_meets (Capacity i) (view m) (run_call (Capacity i) m)"
    and "call_meets (ToString i) (view m) (run_call (ToString i) m)"
proof -
  obtain b where b: "objs m i = Some b" "view m i = Some (contents m b)"
    "unat (bb_size b) = length (contents m b)" using live_ex [OF i ok] by blast
  have len: "len_at (view m) i = unat (bb_size b)" using b by (simp add: len_at_def)
  have ob: "obj_ok m b" using mem_ok_obj [OF ok b(1)] .
  then have cap: "bb_size b \<le> bb_capacity b" by (auto simp: obj_ok_def split: option.splits)
  note here = call_meets_def upd_meets_def bindP_def prog_simps
  show "call_meets (Data i) (view m) (run_call (Data i) m)"
    using ok b(1) len buffer_denotes [OF ok b(1), of 0] by (simp add: here data_ptr_def)
  show "call_meets (Index i k) (view m) (run_call (Index i k) m)"
    using ok len index_run(1) [OF ok b(1), of k] buffer_denotes [OF ok b(1), of "unat k" 1]
    by (auto simp: here word_less_nat_alt split: if_splits)
  show "call_meets (Size i) (view m) (run_call (Size i) m)"
    using ok b(1) len by (simp add: here size_of_def)
  show "call_meets (Capacity i) (view m) (run_call (Capacity i) m)"
    using ok b(1) len cap by (simp add: here capacity_of_def word_le_nat_alt)
  show "call_meets (ToString i) (view m) (run_call (ToString i) m)"
    using ok b(2) toString_run [OF ok b(1)] by (simp add: here)
qed

lemma giving_meets:
  assumes "upd_meets c V (m s)" and "\<And>x s'. m s = (Inr x, s') \<Longrightarrow> spec_value c V s' v"
  shows "call_meets c V (giving v m s)"
  using assms by (cases "m s"; cases "fst (m s)")
    (auto simp: call_meets_def upd_meets_def giving_def bindP_def retP_def)

lemma reserve_room:
  assumes "mem_ok m" "view m i \<noteq> None" "n \<le> 2 ^ 63" "reserve i n m = (Inr x, m')"
  shows "\<exists>b. objs m' i = Some b \<and> n \<le> bb_capacity b"
proof -
  obtain b where "objs m i = Some b" using live_ex [OF assms(2,1)] by blast
  from ensureCapacity_returns [OF assms(1) this assms(3) assms(4) [unfolded reserve_def]]
  show ?thesis by metis
qed

lemma run_call_meets:
  assumes ok: "mem_ok m" and legal: "legal (view m) c"
  shows "call_meets c (view m) (run_call c m)"
proof (cases c)
  case (NewPtr i src n)
  then obtain p where "source_ptr src m = (Inr p, m)" "upd_meets c (view m) (ByteBuffer_ptr i p n m)"
    using upd_new_ptr [OF ok, of src n i] legal by auto
  then show ?thesis using NewPtr giving_meets [where m = "ByteBuffer_ptr i p n"] by (simp add: bindP_Inr)
next
  case (AppendPtr i src n)
  then obtain p where "source_ptr src m = (Inr p, m)" "upd_meets c (view m) (append_ptr i p n m)"
    using upd_append_ptr [OF ok, of src n i] legal by auto
  then show ?thesis using AppendPtr giving_meets [where m = "append_ptr i p n"] by (simp add: bindP_Inr)
next
  case (Reserve i n)
  then show ?thesis using upd_grow(5) [OF ok] reserve_room [OF ok] legal by (auto intro!: giving_meets)
qed (use legal queries_meet [OF ok] in \<open>auto intro!: giving_meets upd_cases [OF ok]\<close>)

section \<open>Programs over buffers\<close>

text \<open>
  The memories a program reaches, from an empty one, by legal calls, returning or throwing, and by
  writing through a pointer to bytes of a buffer.
\<close>

inductive reach_mem :: "mem \<Rightarrow> bool" where
  start: "objs m = Map.empty \<Longrightarrow> blocks m = Map.empty \<Longrightarrow> reach_mem m"
| call: "reach_mem m \<Longrightarrow> legal (view m) c \<Longrightarrow> run_call c m = (r, m') \<Longrightarrow> reach_mem m'"
| through: "reach_mem m \<Longrightarrow> denotes m p i off (length cs) \<Longrightarrow> cs \<noteq> [] \<Longrightarrow> write_mem p cs m = (r, m')
    \<Longrightarrow> reach_mem m'"

lemma reach_mem_ok: "reach_mem m \<Longrightarrow> mem_ok m"
proof (induction rule: reach_mem.induct)
  case (start m)
  then show ?case by (simp add: mem_ok_def)
next
  case (call m c r m')
  then show ?case using run_call_meets [of m c] by (simp add: call_meets_def upd_meets_def)
next
  case (through m p i off cs r m')
  then show ?case by (force simp: denotes_def)
qed

text \<open>C8: Every member of the \<open>ByteBuffer\<close> interface (\<open>bb_call\<close> lists them all), called as a caller may (objects
  exist, results go to new objects, pointers point to what is asked for, sizes stay below \<open>2^63\<close>, no
  buffer is appended to itself), in any memory a program of such calls and of writes through
  \<open>data()\<close> and \<open>operator[]\<close> reaches, returns with exactly the contents of the list operation, or throws
  \<open>bad_alloc\<close> or \<open>out_of_range\<close> with the contents the contract says; it never runs into undefined
  behaviour and always ends, and the memory stays well formed. What it hands back is right too: the
  size and the bytes of the list, a capacity that holds them (and, after \<open>reserve\<close>, what was
  reserved), and pointers and references at which exactly the bytes meant are read and written.\<close>

theorem buffer_calls_refine_lists:
  "reach_mem m \<Longrightarrow> legal (view m) c \<Longrightarrow> call_meets c (view m) (run_call c m)"
  by (rule run_call_meets) (rule reach_mem_ok)

definition empty_mem :: mem where
  "empty_mem = \<lparr>objs = Map.empty, blocks = Map.empty, brk = 0, can_alloc = (\<lambda>_ _. True)\<rparr>"

lemma reach_empty_mem: "reach_mem empty_mem"
  by (rule reach_mem.start) (simp_all add: empty_mem_def)

text \<open>C19: No storage is ever leaked, shared or dangling: in every memory such a program reaches, also
  after exceptions, each allocated block is the storage of exactly one live buffer and each
  buffer's storage is allocated; so once all buffers are destroyed nothing is allocated.\<close>

theorem buffer_storage_owned:
  assumes "reach_mem m"
  shows "(\<forall>a. blocks m a \<noteq> None \<longleftrightarrow> (\<exists>!i. \<exists>b. objs m i = Some b \<and> bb_data b = Some a))
    \<and> (objs m = Map.empty \<longrightarrow> blocks m = Map.empty)"
proof -
  note ok = reach_mem_ok [OF assms]
  have owner: "\<exists>i b. objs m i = Some b \<and> bb_data b = Some a" if "blocks m a \<noteq> None" for a
    using mem_ok_owner [OF ok] that by blast
  have "blocks m a \<noteq> None \<longleftrightarrow> (\<exists>!i. \<exists>b. objs m i = Some b \<and> bb_data b = Some a)" for a
  proof
    assume "blocks m a \<noteq> None"
    then show "\<exists>!i. \<exists>b. objs m i = Some b \<and> bb_data b = Some a"
      using owner mem_ok_inj [OF ok] by blast
  next
    assume "\<exists>!i. \<exists>b. objs m i = Some b \<and> bb_data b = Some a"
    then obtain i b where "objs m i = Some b" "bb_data b = Some a" by blast
    then show "blocks m a \<noteq> None" using mem_ok_obj [OF ok] by (fastforce simp: obj_ok_def)
  qed
  moreover have "blocks m = Map.empty" if "objs m = Map.empty"
    using owner that by fastforce
  ultimately show ?thesis by blast
qed

text \<open>The memory with the one string \<open>[7]\<close> in buffer 0.\<close>

definition one_string_mem :: mem where
  "one_string_mem = snd (run_call (NewString 0 [7]) empty_mem)"

lemma reach_one_string_mem: "reach_mem one_string_mem"
  using reach_empty_mem unfolding one_string_mem_def
  by (rule reach_mem.call [where c = "NewString 0 [7]" and r = "fst (run_call (NewString 0 [7]) empty_mem)"])
    (simp_all add: view_def empty_mem_def)

lemma one_string_mem_eval:
  "one_string_mem = \<lparr>objs = [0 \<mapsto> \<lparr>bb_data = Some 0, bb_size = 1, bb_capacity = 64\<rparr>],
    blocks = [0 \<mapsto> Some 7 # replicate 63 None], brk = 1, can_alloc = (\<lambda>_ _. True)\<rparr>"
  by (simp add: one_string_mem_def giving_def empty_mem_def ByteBuffer_string_def append_string_def append_ptr_def
      constructing_def bindP_def prog_simps ByteBuffer_default_def bb_null_def ensureCapacity_def
      grow.simps new_array_def memcpy_def overlap_def read_mem_def ptr_of_def write_mem_def)

text \<open>Reading and overwriting its byte through \<open>operator[]\<close>, and one past its end.\<close>

theorem buffer_calls_refine_lists_witness:
  "call_meets (Index 0 0) (view one_string_mem) (run_call (Index 0 0) one_string_mem)
    \<and> fst (run_call (Index 0 0) one_string_mem) = Inr (Place (Into 0 0))
    \<and> call_meets (Index 0 1) (view one_string_mem) (run_call (Index 0 1) one_string_mem)
    \<and> fst (run_call (Index 0 1) one_string_mem) = Inl (Throw (OutOfRange ''Index out of range''))"
proof -
  have "view one_string_mem 0 \<noteq> None" by (simp add: view_def one_string_mem_eval)
  then have "legal (view one_string_mem) (Index 0 0)" "legal (view one_string_mem) (Index 0 1)" by simp_all
  note meets = this [THEN buffer_calls_refine_lists [OF reach_one_string_mem]]
  have "fst (run_call (Index 0 0) one_string_mem) = Inr (Place (Into 0 0))"
    "fst (run_call (Index 0 1) one_string_mem) = Inl (Throw (OutOfRange ''Index out of range''))"
    by (simp_all add: one_string_mem_eval index_bb_def bindP_def prog_simps ptr_of_def)
  with meets show ?thesis by blast
qed

theorem buffer_storage_owned_witness:
  "(\<forall>a. blocks one_string_mem a \<noteq> None \<longleftrightarrow>
      (\<exists>!i. \<exists>b. objs one_string_mem i = Some b \<and> bb_data b = Some a))
    \<and> blocks one_string_mem 0 \<noteq> None"
  using buffer_storage_owned [OF reach_one_string_mem] by (simp add: one_string_mem_eval)

text \<open>C39: Appending a non-empty buffer to itself (\<open>b += b\<close>) when it has to grow never succeeds: it
  throws \<open>bad_alloc\<close>, or it copies from the storage \<open>ensureCapacity\<close> has just freed, because
  \<open>operator+=\<close> takes \<open>other._data\<close> before the call. The class promises \<open>operator+=\<close> for any
  buffer and guards self-assignment in \<open>operator=\<close> only.\<close>

theorem self_append_undefined:
  assumes ok: "reach_mem m" and b: "objs m i = Some b" and "0 < bb_size b"
    and grows: "unat (bb_capacity b) < 2 * unat (bb_size b)" "2 * unat (bb_size b) \<le> 2 ^ 63"
  shows "fst (plus_assign i i m) = Inl (Throw BadAlloc) \<or> fst (plus_assign i i m) = Inl Undefined"
proof -
  note mok = reach_mem_ok [OF ok]
  let ?n = "bb_size b + bb_size b"
  have n: "unat ?n = 2 * unat (bb_size b)" using grows(2) by (simp add: unat_word_ariths)
  have nz: "bb_size b \<noteq> 0" using assms(3) by auto
  have lt: "bb_capacity b < ?n" and le: "?n \<le> 2 ^ 63"
    using grows n by (simp_all add: word_less_nat_alt word_le_nat_alt)
  then obtain d where d: "bb_data b = Some d"
    using mem_ok_obj [OF mok b] nz by (auto simp: obj_ok_def split: option.splits)
  obtain c where "ensureCapacity i ?n m =
      (if can_alloc m (brk m) (unat c) then (Inr (), regrown m i b c) else (Inl (Throw BadAlloc), m))"
    using ensureCapacity_grows [OF mok b lt le] by blast
  moreover have "read_mem (Into d 0) (unat (bb_size b)) (regrown m i b c) = Inl Undefined"
    and "brk m \<noteq> d" "objs (regrown m i b c) i = Some (b\<lparr>bb_data := Some (brk m), bb_capacity := c\<rparr>)"
    using d mem_ok_brk [OF mok b d] by (auto simp: read_mem_def regrown_def)
  ultimately show ?thesis
    using b d nz by (simp add: plus_assign_def append_ptr_def bindP_def prog_simps ptr_of_def
        memcpy_def overlap_def)
qed

definition self_append_mem :: mem where
  "self_append_mem = snd (run_call (NewString 0 (replicate 33 7)) empty_mem)"

lemma self_append_mem_reach: "reach_mem self_append_mem"
  using reach_empty_mem unfolding self_append_mem_def
  by (rule reach_mem.call [where c = "NewString 0 (replicate 33 7)"
        and r = "fst (run_call (NewString 0 (replicate 33 7)) empty_mem)"])
    (simp_all add: view_def empty_mem_def)

lemma self_append_mem_obj:
  "objs self_append_mem 0 = Some \<lparr>bb_data = Some 0, bb_size = 33, bb_capacity = 64\<rparr>"
  by (simp add: self_append_mem_def giving_def empty_mem_def ByteBuffer_string_def append_string_def append_ptr_def
      constructing_def bindP_def prog_simps ByteBuffer_default_def bb_null_def ensureCapacity_def
      grow.simps new_array_def memcpy_def overlap_def read_mem_def ptr_of_def write_mem_def)

theorem self_append_undefined_witness:
  "fst (plus_assign 0 0 self_append_mem) = Inl (Throw BadAlloc)
    \<or> fst (plus_assign 0 0 self_append_mem) = Inl Undefined"
  by (rule self_append_undefined [OF self_append_mem_reach self_append_mem_obj]) simp_all

text \<open>\<open>reserve\<close> (and with it \<open>append\<close> and \<open>resize\<close>) of more than \<open>2^63\<close> bytes beyond the capacity
  never returns: the doubling of \<open>newCapacity\<close> wraps to zero, and zero stays below the target.\<close>

lemma reserve_diverges:
  assumes "reach_mem m" and "objs m i = Some b" and "2 ^ 63 < n"
  shows "reserve i n m = (Inl Diverges, m)"
proof -
  note ok = reach_mem_ok [OF assms(1)]
  have "bb_capacity b \<le> 2 ^ 63"
    using mem_ok_obj [OF ok assms(2)] power2_u64_le
    by (auto simp: obj_ok_def cap_ok_def split: option.splits)
  with assms(3) have "\<not> n \<le> bb_capacity b" by (meson leD order_trans)
  then show ?thesis unfolding reserve_def by (rule ensureCapacity_diverges [OF ok assms(2,3)])
qed

end
