(* ===== verification/Receive_Memory.thy ===== *)
theory Receive_Memory
  imports Byte_Buffer_Contract
begin

text \<open>
  Receiving into a real \<open>ByteBuffer\<close>. The connections keep the bytes they have received in a
  \<open>ByteBuffer\<close> (\<open>_inFrameBuffer\<close>, \<open>_frameBuffer\<close>); the theories of the two ends work with its bytes,
  a list. Here the buffer is an object of the memory of \<open>Byte_Buffer\<close> beside the connection: the
  calls both receive paths make on it, each of which may fail to allocate, and when they agree
  with the operations on lists. \<open>Server_Memory\<close> and \<open>Client_Memory\<close> build the two paths.
\<close>

section \<open>Programs on a memory and a connection\<close>

type_synonym ('s, 'a) mem_prog = "(mem \<times> 's, fault, 'a) prog"

definition on_heap :: "'a act \<Rightarrow> ('s, 'a) mem_prog" where
  "on_heap p = (\<lambda>(m, s). case p m of (r, m') \<Rightarrow> (r, (m', s)))"

definition on_rest :: "('s, fault, 'a) prog \<Rightarrow> ('s, 'a) mem_prog" where
  "on_rest p = (\<lambda>(m, s). case p s of (r, s') \<Rightarrow> (r, (m, s')))"

text \<open>The bytes of object \<open>i\<close>, read through \<open>cdata()\<close> and \<open>size()\<close>.\<close>

definition bytes_at :: "oid \<Rightarrow> mem \<Rightarrow> bytes" where
  "bytes_at i m = (case objs m i of None \<Rightarrow> []
     | Some b \<Rightarrow> map (\<lambda>c. case c of None \<Rightarrow> 0 | Some x \<Rightarrow> x) (contents m b))"

text \<open>
  A call on the buffer of the connection. \<open>keep\<close> writes the bytes it leaves into the connection's
  list field, which so follows the object in the memory.
\<close>

definition on_buffer :: "(bytes \<Rightarrow> 's \<Rightarrow> 's) \<Rightarrow> oid \<Rightarrow> 'a act \<Rightarrow> ('s, 'a) mem_prog" where
  "on_buffer keep i p = (\<lambda>(m, s). case p m of (r, m') \<Rightarrow> (r, (m', keep (bytes_at i m') s)))"

text \<open>The local object \<open>t\<close> is destroyed when \<open>body\<close> returns or throws.\<close>

definition scoped :: "oid \<Rightarrow> ('s, 'a) mem_prog \<Rightarrow> ('s, 'a) mem_prog" where
  "scoped t body s =
    (case body s of
       (Inr x, s') \<Rightarrow> seqP (on_heap (destroy t)) (retP x) s'
     | (Inl (Throw e), s') \<Rightarrow> seqP (on_heap (destroy t)) (failP (Throw e)) s'
     | r \<Rightarrow> r)"

text \<open>\<open>try m catch (c) handler\<close> for the exceptions \<open>c\<close> the clauses stop.\<close>

definition catching :: "(exn \<Rightarrow> bool) \<Rightarrow> ('s, fault, 'a) prog \<Rightarrow> ('s, fault, 'a) prog \<Rightarrow> ('s, fault, 'a) prog" where
  "catching c m handler s =
    (case m s of
       (Inl (Throw e), s') \<Rightarrow> if c e then handler s' else (Inl (Throw e), s')
     | r \<Rightarrow> r)"

section \<open>The calls on the buffer\<close>

text \<open>
  The loop of \<open>recv\<close>: \<open>append(reinterpret_cast<uint8_t*>(buf), bytes)\<close> for each chunk, outside
  any \<open>try\<close>, and with no limit on what the buffer holds.
\<close>

fun recv_into :: "(bytes \<Rightarrow> 's \<Rightarrow> 's) \<Rightarrow> oid \<Rightarrow> bytes list \<Rightarrow> ('s, unit) mem_prog" where
  "recv_into keep i [] = retP ()"
| "recv_into keep i (b # bs) =
    seqP (on_buffer keep i (append_ptr i (Ext b) (word_of_nat (length b)))) (recv_into keep i bs)"

text \<open>
  \<open>buffer = buffer.slice(n, buffer.size())\<close>: the slice is the temporary \<open>u\<close>, moved from and
  destroyed at the end of the statement.
\<close>

definition cut_front :: "oid \<Rightarrow> oid \<Rightarrow> nat \<Rightarrow> unit act" where
  "cut_front i u n =
    bindP (size_of i) (\<lambda>sz.
    seqP (slice_bb u i (word_of_nat n) sz)
    (seqP (assign_move i u) (destroy u)))"

text \<open>The loop \<open>while (true)\<close> of \<open>_parseFrames\<close>, for at most the given number of rounds.\<close>

fun rounds :: "nat \<Rightarrow> ('f \<Rightarrow> ('s, fault, 'f + 'f) prog) \<Rightarrow> 'f \<Rightarrow> ('s, fault, 'f) prog" where
  "rounds 0 step x = failP Diverges"
| "rounds (Suc n) step x =
    bindP (step x) (\<lambda>r. case r of Inl y \<Rightarrow> retP y | Inr y \<Rightarrow> rounds n step y)"

section \<open>Allocation\<close>

text \<open>
  No allocation fails; none above \<open>L\<close> bytes succeeds. A call is \<open>modest\<close> when it leaves the
  allocator alone, throws \<open>bad_alloc\<close> only if an allocation can fail, and gets no block above a
  limit.
\<close>

definition roomy :: "mem \<Rightarrow> bool" where
  "roomy m \<longleftrightarrow> (\<forall>a n. can_alloc m a n)"

definition limited :: "nat \<Rightarrow> mem \<Rightarrow> bool" where
  "limited L m \<longleftrightarrow> (\<forall>a n. L < n \<longrightarrow> \<not> can_alloc m a n) \<and> (\<forall>a cs. blocks m a = Some cs \<longrightarrow> length cs \<le> L)"

definition modest :: "'a act \<Rightarrow> bool" where
  "modest p \<longleftrightarrow> (\<forall>m. can_alloc (snd (p m)) = can_alloc m
     \<and> (fst (p m) = Inl (Throw BadAlloc) \<longrightarrow> \<not> roomy m)
     \<and> (\<forall>L. limited L m \<longrightarrow> limited L (snd (p m))))"

named_theorems modest_intros "calls that are modest"

lemma modestI:
  assumes "\<And>m. can_alloc (snd (p m)) = can_alloc m"
    and "\<And>m. roomy m \<Longrightarrow> fst (p m) \<noteq> Inl (Throw BadAlloc)"
    and "\<And>m L. limited L m \<Longrightarrow> limited L (snd (p m))"
  shows "modest p"
  using assms by (auto simp: modest_def)

lemma modest_bind [modest_intros]:
  assumes "modest p" "\<And>x. modest (f x)"
  shows "modest (bindP p f)"
proof (rule modestI)
  fix m
  have p: "can_alloc (snd (p m)) = can_alloc m" "roomy m \<Longrightarrow> fst (p m) \<noteq> Inl (Throw BadAlloc)"
    "limited L m \<Longrightarrow> limited L (snd (p m))" for L
    using assms(1) by (auto simp: modest_def)
  have f: "can_alloc (snd (f x m')) = can_alloc m'" "roomy m' \<Longrightarrow> fst (f x m') \<noteq> Inl (Throw BadAlloc)"
    "limited L m' \<Longrightarrow> limited L (snd (f x m'))" for x m' L
    using assms(2) by (auto simp: modest_def)
  show "can_alloc (snd (bindP p f m)) = can_alloc m" using p(1) f(1) by (simp add: bindP_run split: sum.split)
  show "fst (bindP p f m) \<noteq> Inl (Throw BadAlloc)" if "roomy m"
    using p(1,2) f(2) that by (auto simp: bindP_run roomy_def split: sum.split)
  show "limited L (snd (bindP p f m))" if "limited L m" for L
    using p(3) f(3) that by (simp add: bindP_run split: sum.split)
qed

lemma modest_seq [modest_intros]: "modest p \<Longrightarrow> modest q \<Longrightarrow> modest (seqP p q)"
  unfolding seqP_def by (rule modest_bind)

lemma modest_ret [modest_intros]: "modest (retP x)"
  by (simp add: modest_def retP_def)

lemma modest_fail [modest_intros]: "e \<noteq> Throw BadAlloc \<Longrightarrow> modest (failP e)"
  by (simp add: modest_def failP_def)

lemma modest_check [modest_intros]: "e \<noteq> Throw BadAlloc \<Longrightarrow> modest (checkP b e)"
  by (simp add: modest_def checkP_def retP_def failP_def)

lemma modest_read [modest_intros]: "modest (liftP (read_mem p n))"
  by (simp add: modest_def liftP_def read_mem_def split: pointer.split option.split)

lemma modest_get [modest_intros]: "modest (get_this i)"
  by (simp add: modest_def get_this_def liftP_def split: option.split)

lemma modest_set [modest_intros]: "modest (set_this i b)"
  by (simp add: modest_def set_this_def modP_def limited_def)

lemma modest_drop [modest_intros]: "modest (modP (\<lambda>m. m\<lparr>objs := f (objs m)\<rparr>))"
  by (simp add: modest_def modP_def limited_def)

lemma modest_write [modest_intros]: "modest (write_mem p cs)"
  by (rule modestI) (auto simp: write_mem_def limited_def split: pointer.split option.split)

lemma modest_delete [modest_intros]: "modest (delete_array a)"
  by (rule modestI) (auto simp: delete_array_def limited_def split: option.split)

lemma modest_new [modest_intros]: "modest (new_array n)"
  by (rule modestI) (auto simp: new_array_def limited_def roomy_def intro: leI)

lemma modest_if [modest_intros]: "(b \<Longrightarrow> modest p) \<Longrightarrow> (\<not> b \<Longrightarrow> modest q) \<Longrightarrow> modest (if b then p else q)"
  by simp

lemma modest_option [modest_intros]:
  "modest q \<Longrightarrow> (\<And>x. modest (p x)) \<Longrightarrow> modest (case y of None \<Rightarrow> q | Some x \<Rightarrow> p x)"
  by (simp split: option.split)

lemma modest_memcpy [modest_intros]: "modest (memcpy d s n)"
  unfolding memcpy_def by (intro modest_intros) simp_all

lemma modest_ensureCapacity [modest_intros]: "modest (ensureCapacity i n)"
  unfolding ensureCapacity_def by (intro modest_intros) simp_all

lemma modest_append [modest_intros]: "modest (append_ptr i p len)"
  unfolding append_ptr_def by (intro modest_intros)

lemma modest_constructing [modest_intros]:
  assumes "modest p"
  shows "modest (constructing i p)"
proof (rule modestI)
  have "modest (seqP (ByteBuffer_default i) p)" unfolding ByteBuffer_default_def by (intro modest_intros assms)
  then have all: "can_alloc (snd (seqP (ByteBuffer_default i) p m)) = can_alloc m"
    "roomy m \<Longrightarrow> fst (seqP (ByteBuffer_default i) p m) \<noteq> Inl (Throw BadAlloc)"
    "limited L m \<Longrightarrow> limited L (snd (seqP (ByteBuffer_default i) p m))" for m L
    by (auto simp: modest_def)
  fix m
  obtain r m' where run: "seqP (ByteBuffer_default i) p m = (r, m')" by (cases "seqP (ByteBuffer_default i) p m")
  then have "constructing i p m =
      (r, if \<exists>e. r = Inl (Throw e) then m'\<lparr>objs := (objs m')(i := None)\<rparr> else m')"
    by (auto simp: constructing_def split: sum.split fault.split)
  then show "can_alloc (snd (constructing i p m)) = can_alloc m"
    "roomy m \<Longrightarrow> fst (constructing i p m) \<noteq> Inl (Throw BadAlloc)"
    "\<And>L. limited L m \<Longrightarrow> limited L (snd (constructing i p m))"
    using all [where m = m] run by (auto simp: limited_def)
qed

lemma modest_slice [modest_intros]: "modest (slice_bb r i start stop)"
  unfolding slice_bb_def ByteBuffer_ptr_def by (intro modest_intros) (simp add: slice_error_def)

lemma modest_destroy [modest_intros]: "modest (destroy i)"
  unfolding destroy_def by (intro modest_intros)

lemma modest_cut_front [modest_intros]: "modest (cut_front i u n)"
  unfolding cut_front_def assign_move_def size_of_def by (intro modest_intros)

lemma modestD:
  assumes "modest p" "p m = (r, m')"
  shows "can_alloc m' = can_alloc m" "r = Inl (Throw BadAlloc) \<Longrightarrow> \<not> roomy m" "limited L m \<Longrightarrow> limited L m'"
  using assms by (auto simp: modest_def dest: spec [of _ m])

section \<open>A buffer that holds a list\<close>

text \<open>The memory \<open>m\<close> is sound and object \<open>i\<close> holds the bytes \<open>bs\<close>.\<close>

definition holds :: "oid \<Rightarrow> mem \<Rightarrow> bytes \<Rightarrow> bool" where
  "holds i m bs \<longleftrightarrow> mem_ok m \<and> view m i = Some (map Some bs)"

lemma bytes_at_view: "view m i = Some (map Some bs) \<Longrightarrow> bytes_at i m = bs"
  by (auto simp: bytes_at_def view_def comp_def)

lemma bytes_at_holds: "holds i m bs \<Longrightarrow> bytes_at i m = bs"
  by (auto simp: holds_def bytes_at_view)

lemma append_chunk:
  assumes "holds i m bs" "length bs + length b \<le> 2 ^ 63"
  shows "yields m ((view m)(i \<mapsto> map Some (bs @ b))) (append_ptr i (Ext b) (word_of_nat (length b)) m)"
proof -
  have ok: "mem_ok m" and v: "view m i = Some (map Some bs)" using assms(1) by (simp_all add: holds_def)
  obtain o' where o': "objs m i = Some o'" "contents m o' = map Some bs" "unat (bb_size o') = length bs"
    using view_objs [OF ok v] by auto
  have len: "unat (word_of_nat (length b) :: u64) = length b" using assms(2) by (intro unat_of_length) simp
  have "yields m ((view m)(i \<mapsto> contents m o' @ map Some b)) (append_ptr i (Ext b) (word_of_nat (length b)) m)"
    using assms(2) o'(3) by (intro append_ptr_yields [OF ok o'(1)]) (simp_all add: len read_mem_ext)
  then show ?thesis by (simp add: o'(2))
qed

text \<open>A slice of the buffer into a fresh object, and the buffer shortened by it.\<close>

lemma slice_front:
  assumes "holds i m bs" "view m t = None" "n \<le> length bs" "length bs \<le> 2 ^ 63"
  shows "yields m ((view m)(t \<mapsto> map Some (take n bs))) (slice_bb t i 0 (word_of_nat n) m)"
proof -
  have ok: "mem_ok m" and v: "view m i = Some (map Some bs)" and t: "objs m t = None"
    using assms(1,2) by (auto simp: holds_def view_None)
  obtain o' where o': "objs m i = Some o'" "contents m o' = map Some bs" "unat (bb_size o') = length bs"
    using view_objs [OF ok v] by auto
  have n: "unat (word_of_nat n :: u64) = n" using assms(3,4) by (simp add: unat_of_nat_small)
  show ?thesis
    using slice_yields [OF ok t o'(1), of 0 "word_of_nat n"] assms(3,4) o'(2,3)
    by (simp add: word_le_nat_alt n take_map)
qed

lemma cut_front_yields:
  assumes "holds i m bs" and u: "view m u = None"
    and n: "n \<le> length bs" "length bs \<le> 2 ^ 63"
  shows "yields m ((view m)(i \<mapsto> map Some (drop n bs))) (cut_front i u n m)"
proof -
  have ok: "mem_ok m" and v: "view m i = Some (map Some bs)" using assms(1) by (simp_all add: holds_def)
  obtain o' where o': "objs m i = Some o'" "contents m o' = map Some bs" "unat (bb_size o') = length bs"
    using view_objs [OF ok v] by auto
  have fresh: "objs m u = None" using u by (simp add: view_None)
  have neq: "i \<noteq> u" using u v by auto
  have nat: "unat (word_of_nat n :: u64) = n" using n by (simp add: unat_of_nat_small)
  have slice: "yields m ((view m)(u \<mapsto> map Some (drop n bs))) (slice_bb u i (word_of_nat n) (bb_size o') m)"
    using slice_yields [OF ok fresh o'(1), of "word_of_nat n" "bb_size o'"] n o'(2,3)
    by (simp add: word_le_nat_alt nat drop_map)
  have cut: "cut_front i u n m = seqP (slice_bb u i (word_of_nat n) (bb_size o')) (seqP (assign_move i u) (destroy u)) m"
    using o'(1) by (simp add: cut_front_def size_of_def bindP_def prog_simps)
  from slice show ?thesis
  proof (cases rule: yields_cases)
    case (returned x m1)
    then obtain a c where ac: "objs m1 i = Some a" "objs m1 u = Some c" "contents m1 c = map Some (drop n bs)"
      using view_SomeD [of m1 u] view_SomeD [of m1 i] v neq by auto
    from assign_move_run [OF returned(2) ac(1,2) neq] obtain m2 where
      m2: "assign_move i u m1 = (Inr (), m2)" "mem_ok m2" "view m2 = (view m1)(i \<mapsto> contents m1 c, u \<mapsto> [])"
      by metis
    then obtain d where d: "objs m2 u = Some d" using view_SomeD [of m2 u] by auto
    from destroy_ok [OF m2(2) d] obtain m3 where
      m3: "destroy u m2 = (Inr (), m3)" "mem_ok m3" "view m3 = (view m2)(u := None)" by metis
    have "view m3 = (view m)(i \<mapsto> map Some (drop n bs))"
      using m3(3) m2(3) returned(3) ac(3) u neq by (auto simp: fun_eq_iff)
    then show ?thesis using cut returned(1) m2(1) m3 by (simp add: yields_def bindP_def prog_simps)
  next
    case threw
    then show ?thesis using cut by (simp add: yields_def bindP_def prog_simps)
  qed
qed

text \<open>A buffer in memory where no block is larger than \<open>L\<close> holds at most \<open>L\<close> bytes.\<close>

lemma limited_holds:
  assumes "holds i m bs" "limited L m"
  shows "length bs \<le> L"
proof -
  have ok: "mem_ok m" and v: "view m i = Some (map Some bs)" using assms(1) by (simp_all add: holds_def)
  obtain o' where o': "objs m i = Some o'" "contents m o' = map Some bs" using view_objs [OF ok v] by auto
  show ?thesis
  proof (cases "bb_data o'")
    case None
    then show ?thesis using o' by (simp add: contents_def)
  next
    case (Some a)
    obtain xs where xs: "blocks m a = Some xs" "length xs = unat (bb_capacity o')"
      using mem_ok_obj [OF ok o'(1)] Some by (rule obj_ok_block)
    then have "length (map Some bs) \<le> length xs" using o'(2) Some by (metis contents_def length_take min.cobounded1 option.case(2) option.sel)
    moreover have "length xs \<le> L" using assms(2) xs(1) by (auto simp: limited_def)
    ultimately show ?thesis by simp
  qed
qed

section \<open>Agreement with the operations on lists\<close>

text \<open>
  The outcome \<open>R\<close> of a program that started in memory \<open>m\<close> mirrors the outcome \<open>r\<close> of a program on
  the connection alone: it is the same, or an allocation has failed; and unless the process is past
  saving, the buffer \<open>i\<close> holds the list in the connection, and nothing else has changed.
\<close>

definition survives :: "fault + 'a \<Rightarrow> bool" where
  "survives r \<longleftrightarrow> (case r of Inl (Throw e) \<Rightarrow> True | Inl f \<Rightarrow> False | Inr x \<Rightarrow> True)"

lemma survives_simps [simp]: "survives (Inr x)" "survives (Inl f) \<longleftrightarrow> (\<exists>e. f = Throw e)"
  by (simp_all add: survives_def split: fault.split)

definition mirrors :: "('s \<Rightarrow> bytes) \<Rightarrow> oid \<Rightarrow> mem \<Rightarrow> (fault + 'a) \<times> (mem \<times> 's) \<Rightarrow> (fault + 'a) \<times> 's \<Rightarrow> bool" where
  "mirrors get i m R r \<longleftrightarrow> (case R of (q, (m', s')) \<Rightarrow>
     ((q, s') = r \<or> q = Inl (Throw BadAlloc) \<and> \<not> roomy m) \<and> can_alloc m' = can_alloc m
     \<and> (survives q \<longrightarrow> holds i m' (get s') \<and> view m' = (view m)(i \<mapsto> map Some (get s'))))"

lemma roomy_same: "can_alloc m' = can_alloc m \<Longrightarrow> roomy m' = roomy m"
  by (simp add: roomy_def)

lemma mirrorsE:
  assumes "mirrors get i m R r"
  obtains (same) m' where "R = (fst r, (m', snd r))" "can_alloc m' = can_alloc m"
      "survives (fst r) \<longrightarrow> holds i m' (get (snd r)) \<and> view m' = (view m)(i \<mapsto> map Some (get (snd r)))"
  | (failed) m' s' where "R = (Inl (Throw BadAlloc), (m', s'))" "\<not> roomy m" "can_alloc m' = can_alloc m"
      "holds i m' (get s')" "view m' = (view m)(i \<mapsto> map Some (get s'))"
  using assms unfolding mirrors_def by (cases R) (auto split: prod.splits)

lemma mirrors_trans:
  assumes "mirrors get i m' R r" "can_alloc m' = can_alloc m" "view m' = (view m)(i \<mapsto> x)"
  shows "mirrors get i m R r"
  using assms by (auto simp: mirrors_def roomy_same [OF assms(2)] split: prod.splits)

lemma mirrors_ret: "holds i m (get s) \<Longrightarrow> mirrors get i m (r, (m, s)) (r, s)"
  by (auto simp: mirrors_def holds_def)

lemma mirrors_rest:
  assumes "holds i m (get s)" "get (snd (p s)) = get s"
  shows "mirrors get i m (on_rest p (m, s)) (p s)"
  using assms by (auto simp: mirrors_def on_rest_def holds_def split: prod.split)

lemma mirrors_bind:
  assumes "mirrors get i m (p (m, s)) (q s)"
    and "\<And>x m' s'. q s = (Inr x, s') \<Longrightarrow> holds i m' (get s') \<Longrightarrow> view m' = (view m)(i \<mapsto> map Some (get s'))
      \<Longrightarrow> mirrors get i m' (f x (m', s')) (g x s')"
  shows "mirrors get i m (bindP p f (m, s)) (bindP q g s)"
proof -
  obtain r s1 where q: "q s = (r, s1)" by (cases "q s")
  from assms(1) show ?thesis
  proof (cases rule: mirrorsE)
    case (same m')
    show ?thesis
    proof (cases r)
      case (Inl e)
      then show ?thesis using same q by (simp add: bindP_def mirrors_def)
    next
      case (Inr x)
      then have m': "holds i m' (get s1)" "view m' = (view m)(i \<mapsto> map Some (get s1))" using same(3) q by auto
      with assms(2) [of x s1] q Inr have "mirrors get i m' (f x (m', s1)) (g x s1)" by simp
      then have "mirrors get i m (f x (m', s1)) (g x s1)" by (rule mirrors_trans [OF _ same(2) m'(2)])
      then show ?thesis using same(1) q Inr by (simp add: bindP_def)
    qed
  next
    case failed
    then show ?thesis by (simp add: bindP_def mirrors_def)
  qed
qed

lemma mirrors_catch:
  assumes "mirrors get i m (p (m, s)) (q s)" "\<not> c BadAlloc"
    and "\<And>e m' s'. q s = (Inl (Throw e), s') \<Longrightarrow> holds i m' (get s') \<Longrightarrow> mirrors get i m' (f (m', s')) (g s')"
  shows "mirrors get i m (catching c p f (m, s)) (catching c q g s)"
proof -
  obtain r s1 where q: "q s = (r, s1)" by (cases "q s")
  from assms(1) show ?thesis
  proof (cases rule: mirrorsE)
    case (same m')
    show ?thesis
    proof (cases "\<exists>e. r = Inl (Throw e) \<and> c e")
      case True
      then obtain e where e: "r = Inl (Throw e)" "c e" by blast
      then have m': "holds i m' (get s1)" "view m' = (view m)(i \<mapsto> map Some (get s1))" using same(3) q by auto
      with assms(3) [of e s1] q e have "mirrors get i m' (f (m', s1)) (g s1)" by simp
      then have "mirrors get i m (f (m', s1)) (g s1)" by (rule mirrors_trans [OF _ same(2) m'(2)])
      then show ?thesis using same(1) q e by (simp add: catching_def)
    next
      case False
      then have "catching c q g s = q s" "catching c p f (m, s) = p (m, s)"
        using same(1) q by (auto simp: catching_def split: sum.splits fault.splits)
      then show ?thesis using assms(1) by simp
    qed
  next
    case failed
    then have "catching c p f (m, s) = p (m, s)" using assms(2) by (simp add: catching_def)
    then show ?thesis using failed by (simp add: mirrors_def)
  qed
qed

text \<open>Programs of the connection that leave the list alone.\<close>

definition leaves :: "('s \<Rightarrow> bytes) \<Rightarrow> ('s, fault, 'a) prog \<Rightarrow> bool" where
  "leaves get p \<longleftrightarrow> (\<forall>s. get (snd (p s)) = get s)"

named_theorems leaves_intros "programs that leave the list of bytes alone"

lemma leavesI: "(\<And>s. get (snd (p s)) = get s) \<Longrightarrow> leaves get p"
  by (simp add: leaves_def)

lemma leaves_basic [leaves_intros]: "leaves get (retP x)" "leaves get (failP e)" "leaves get (liftP f)"
  by (simp_all add: leaves_def prog_simps)

lemma leaves_bind [leaves_intros]: "leaves get p \<Longrightarrow> (\<And>x. leaves get (f x)) \<Longrightarrow> leaves get (bindP p f)"
  by (simp add: leaves_def bindP_run split: sum.split)

lemma leaves_seq [leaves_intros]: "leaves get p \<Longrightarrow> leaves get q \<Longrightarrow> leaves get (seqP p q)"
  unfolding seqP_def by (rule leaves_bind)

lemma leaves_if [leaves_intros]: "leaves get p \<Longrightarrow> leaves get q \<Longrightarrow> leaves get (if b then p else q)"
  by simp

lemma leaves_state [leaves_intros]: "(\<And>c w. leaves get (g c w)) \<Longrightarrow> leaves get (\<lambda>(c, w). g c w (c, w))"
  by (auto simp: leaves_def)

lemma mirrors_leaves: "holds i m (get s) \<Longrightarrow> leaves get p \<Longrightarrow> mirrors get i m (on_rest p (m, s)) (p s)"
  by (rule mirrors_rest) (simp_all add: leaves_def)

text \<open>A local slice of the buffer, as the frame that is decoded.\<close>

lemma mirrors_scoped:
  assumes "holds i m (get s)" "view m t = None" "n \<le> length (get s)" "length (get s) \<le> 2 ^ 63"
    and "\<And>m1. holds i m1 (get s) \<Longrightarrow> view m1 = (view m)(t \<mapsto> map Some (take n (get s)))
      \<Longrightarrow> mirrors get i m1 (body (m1, s)) r"
  shows "mirrors get i m (seqP (on_heap (slice_bb t i 0 (word_of_nat n))) (scoped t body) (m, s)) r"
  using slice_front [OF assms(1-4)]
proof (cases rule: yields_cases)
  case threw
  then have "\<not> roomy m" using modestD(2) [OF modest_slice threw] by simp
  then show ?thesis using threw assms(1)
    by (auto simp: on_heap_def bindP_def prog_simps mirrors_def holds_def)
next
  case (returned x m1)
  note alloc = modestD(1) [OF modest_slice returned(1)]
  have t: "t \<noteq> i" using assms(1,2) by (auto simp: holds_def)
  have h1: "holds i m1 (get s)" using returned(2,3) assms(1) t by (simp add: holds_def)
  have run: "seqP (on_heap (slice_bb t i 0 (word_of_nat n))) (scoped t body) (m, s) = scoped t body (m1, s)"
    using returned(1) by (simp add: on_heap_def bindP_def prog_simps)
  obtain q m2 s2 where b: "body (m1, s) = (q, (m2, s2))" by (metis surj_pair)
  have mir: "(q, s2) = r \<or> q = Inl (Throw BadAlloc) \<and> \<not> roomy m" "can_alloc m2 = can_alloc m"
    "survives q \<Longrightarrow> holds i m2 (get s2) \<and> view m2 = (view m1)(i \<mapsto> map Some (get s2))"
    using assms(5) [OF h1 returned(3)] b alloc roomy_same [OF alloc] by (auto simp: mirrors_def)
  show ?thesis
  proof (cases "survives q")
    case False
    then have "scoped t body (m1, s) = (q, (m2, s2))"
      using b by (auto simp: scoped_def survives_def split: sum.split fault.split)
    then show ?thesis using False mir run by (simp add: mirrors_def)
  next
    case True
    note m2 = mir(3) [OF True]
    obtain o' where o': "objs m2 t = Some o'" using m2 returned(3) t view_SomeD [of m2 t] by auto
    have ok: "mem_ok m2" using m2 by (simp add: holds_def)
    from destroy_ok [OF ok o'] obtain m3 where
      m3: "destroy t m2 = (Inr (), m3)" "mem_ok m3" "view m3 = (view m2)(t := None)" by metis
    have view: "view m3 = (view m)(i \<mapsto> map Some (get s2))"
      using m3(3) m2 returned(3) t assms(2) by (auto simp: fun_eq_iff)
    have "scoped t body (m1, s) = (q, (m3, s2))"
      using True b m3(1)
      by (auto simp: scoped_def on_heap_def bindP_def prog_simps survives_def split: sum.splits fault.splits)
    then show ?thesis
      using run mir(1,2) m3(2) view modestD(1) [OF modest_destroy m3(1)] by (auto simp: mirrors_def holds_def)
  qed
qed

text \<open>
  A connection whose list of bytes \<open>get\<close> reads and \<open>keep\<close> writes: the calls on its buffer, and the
  parser's loop over any step that takes bytes off the buffer in each round.
\<close>

locale receiving =
  fixes get :: "'s \<Rightarrow> bytes" and keep :: "bytes \<Rightarrow> 's \<Rightarrow> 's"
  assumes get_keep [simp]: "get (keep b s) = b"
    and keep_get [simp]: "keep (get s) s = s"
    and keep_keep [simp]: "keep b (keep b' s) = keep b s"
begin

lemma mirrors_buffer:
  assumes "holds i m (get s)" "modest p" "yields m ((view m)(i \<mapsto> map Some bs)) (p m)"
  shows "mirrors get i m (on_buffer keep i p (m, s)) (Inr (), keep bs s)"
  using assms(3)
proof (cases rule: yields_cases)
  case (returned u m')
  then have "holds i m' bs" by (simp add: holds_def)
  then show ?thesis using returned modestD(1) [OF assms(2) returned(1)] bytes_at_holds
    by (auto simp: mirrors_def on_buffer_def)
next
  case threw
  then show ?thesis using assms(1) bytes_at_holds [OF assms(1)] modestD(2) [OF assms(2) threw]
    by (auto simp: mirrors_def on_buffer_def holds_def)
qed

lemma recv_into_mirrors:
  "holds i m (get s) \<Longrightarrow> length (get s @ concat chunks) \<le> 2 ^ 63
    \<Longrightarrow> mirrors get i m (recv_into keep i chunks (m, s)) (Inr (), keep (get s @ concat chunks) s)"
proof (induction chunks arbitrary: m s)
  case Nil
  then show ?case using mirrors_ret [of i m get s "Inr ()"] by (simp add: retP_def)
next
  case (Cons b chunks)
  let ?p = "on_buffer keep i (append_ptr i (Ext b) (word_of_nat (length b)))"
  have one: "mirrors get i m (?p (m, s)) ((\<lambda>s. (Inr (), keep (get s @ b) s)) s)"
    using Cons.prems append_chunk [OF Cons.prems(1), of b]
    by (intro mirrors_buffer modest_append) simp_all
  have "mirrors get i m (bindP ?p (\<lambda>_. recv_into keep i chunks) (m, s))
      (bindP (\<lambda>s. (Inr (), keep (get s @ b) s)) (\<lambda>_ s. (Inr (), keep (get s @ concat chunks) s)) s)"
  proof (rule mirrors_bind [where p = ?p and q = "\<lambda>s. (Inr (), keep (get s @ b) s)", OF one])
    fix x m' s'
    assume "(Inr (), keep (get s @ b) s) = (Inr x, s')" "holds i m' (get s')"
    then show "mirrors get i m' (recv_into keep i chunks (m', s')) (Inr (), keep (get s' @ concat chunks) s')"
      using Cons.IH [of m' s'] Cons.prems(2) by auto
  qed
  then show ?case by (simp add: seqP_def bindP_def)
qed

lemma cut_front_mirrors:
  assumes "holds i m (get s)" "view m u = None" "n \<le> length (get s)" "length (get s) \<le> 2 ^ 63"
  shows "mirrors get i m (on_buffer keep i (cut_front i u n) (m, s)) (Inr (), keep (drop n (get s)) s)"
  by (rule mirrors_buffer [OF assms(1) modest_cut_front cut_front_yields [OF assms]])

lemma rounds_mirror:
  assumes step: "\<And>x m s. holds i m (get s) \<Longrightarrow> \<forall>t \<in> T. view m t = None \<Longrightarrow> length (get s) \<le> 2 ^ 63
      \<Longrightarrow> mirrors get i m (stepm x (m, s)) (step x s)"
    and shrinks: "\<And>x s y s'. step x s = (Inr (Inr y), s') \<Longrightarrow> length (get s') < length (get s)"
    and loop: "\<And>x s. loop x s = (case step x s of (Inl e, s') \<Rightarrow> (Inl e, s') | (Inr (Inl y), s') \<Rightarrow> (Inr y, s')
        | (Inr (Inr y), s') \<Rightarrow> loop y s')"
    and T: "i \<notin> T"
  shows "holds i m (get s) \<Longrightarrow> \<forall>t \<in> T. view m t = None \<Longrightarrow> length (get s) < n \<Longrightarrow> length (get s) \<le> 2 ^ 63
    \<Longrightarrow> mirrors get i m (rounds n stepm x (m, s)) (loop x s)"
proof (induction n arbitrary: x m s)
  case (Suc n)
  have "loop x s = bindP (step x) (\<lambda>r. case r of Inl y \<Rightarrow> retP y | Inr y \<Rightarrow> loop y) s"
    by (subst loop) (simp add: bindP_def retP_def split: prod.split sum.split)
  moreover have "mirrors get i m (bindP (stepm x) (\<lambda>r. case r of Inl y \<Rightarrow> retP y | Inr y \<Rightarrow> rounds n stepm y) (m, s))
      (bindP (step x) (\<lambda>r. case r of Inl y \<Rightarrow> retP y | Inr y \<Rightarrow> loop y) s)"
  proof (rule mirrors_bind [where p = "stepm x" and q = "step x"])
    show "mirrors get i m (stepm x (m, s)) (step x s)" using step Suc.prems by blast
  next
    fix r m' s'
    assume r: "step x s = (Inr r, s')" "holds i m' (get s')" "view m' = (view m)(i \<mapsto> map Some (get s'))"
    then have T': "\<forall>t \<in> T. view m' t = None" using Suc.prems(2) T by auto
    show "mirrors get i m' ((case r of Inl y \<Rightarrow> retP y | Inr y \<Rightarrow> rounds n stepm y) (m', s'))
        ((case r of Inl y \<Rightarrow> retP y | Inr y \<Rightarrow> loop y) s')"
    proof (cases r)
      case (Inl y)
      then show ?thesis using mirrors_ret [where get = get, OF r(2)] by (simp add: retP_def)
    next
      case (Inr y)
      then have "length (get s') < length (get s)" using shrinks r(1) by blast
      then show ?thesis using Suc.IH [OF r(2) T', of y] Suc.prems(3,4) Inr by simp
    qed
  qed
  ultimately show ?case by simp
qed simp

text \<open>
  A peer that sends more than the allocator gives in one block makes \<open>append\<close> throw, since the loop
  of \<open>recv\<close> appends whatever arrives.
\<close>

lemma flood:
  assumes "holds i m (get s)" "limited L m" "L < length (get s @ concat chunks)"
    "length (get s @ concat chunks) \<le> 2 ^ 63"
  shows "fst (recv_into keep i chunks (m, s)) = Inl (Throw BadAlloc)"
proof -
  have lim: "recv_into keep i chunks (m, s) = (r, (m', s')) \<Longrightarrow> limited L m \<Longrightarrow> limited L m'" for r m' s' m s
  proof (induction chunks arbitrary: m s)
    case (Cons b chunks)
    obtain q m1 where a: "append_ptr i (Ext b) (word_of_nat (length b)) m = (q, m1)"
      by (cases "append_ptr i (Ext b) (word_of_nat (length b)) m")
    with Cons modestD(3) [OF modest_append a] show ?case
      by (cases q) (auto simp: on_buffer_def bindP_def prog_simps)
  qed (simp add: retP_def)
  obtain q m' s' where run: "recv_into keep i chunks (m, s) = (q, (m', s'))" by (metis surj_pair)
  from recv_into_mirrors [OF assms(1,4)] have "q = Inl (Throw BadAlloc)
      \<or> q = Inr () \<and> holds i m' (get s @ concat chunks)"
    using run by (auto simp: mirrors_def)
  then show ?thesis using limited_holds lim [OF run assms(2)] assms(3) run by fastforce
qed

end

lemma recv_fails: "fst (recv_into keep i chunks ms) = Inl e \<Longrightarrow> fst (seqP (recv_into keep i chunks) p ms) = Inl e"
  by (cases "recv_into keep i chunks ms") (simp add: seqP_def bindP_def)

text \<open>A memory with one empty buffer, object 0, whose allocator grants the sizes in \<open>can\<close>.\<close>

definition one_buffer :: "(nat \<Rightarrow> bool) \<Rightarrow> mem" where
  "one_buffer can = \<lparr>objs = [0 \<mapsto> bb_null], blocks = Map.empty, brk = 0, can_alloc = (\<lambda>a n. can n)\<rparr>"

lemma one_buffer_facts:
  "holds 0 (one_buffer can) []" "view (one_buffer can) 1 = None" "view (one_buffer can) 2 = None"
  "limited 64 (one_buffer (\<lambda>n. n \<le> 64))"
  by (simp_all add: one_buffer_def holds_def mem_ok_def obj_ok_def bb_null_def view_def contents_def limited_def)

end
