(* ===== verification/Encoders.thy ===== *)
theory Encoders
  imports Errors
begin

text \<open>
  \<open>core/encoders.cpp\<close>: big-endian conversion between unsigned words and byte strings, and the
  readers \<open>ptrToU16\<close>, \<open>ptrToU32\<close>, \<open>ptrToU64\<close> that take a raw pointer. A \<open>std::string\<close> is its
  bytes. A raw pointer is the bytes from it to the end of its array: reading past them is
  \<open>Undefined\<close>, as it is in C++.
\<close>

section \<open>Words to strings\<close>

definition u8ToStr :: "u8 \<Rightarrow> bytes" where
  "u8ToStr v = replicate 1 v"

definition u16ToStr :: "u16 \<Rightarrow> bytes" where
  "u16ToStr v =
    (let s = replicate 2 0;
         s = s[0 := ucast (drop_bit 8 v AND 0xFF)];
         s = s[1 := ucast (v AND 0xFF)]
     in s)"

definition u32ToStr :: "u32 \<Rightarrow> bytes" where
  "u32ToStr v =
    (let s = replicate 4 0;
         s = s[0 := ucast (drop_bit 24 v AND 0xFF)];
         s = s[1 := ucast (drop_bit 16 v AND 0xFF)];
         s = s[2 := ucast (drop_bit 8 v AND 0xFF)];
         s = s[3 := ucast (v AND 0xFF)]
     in s)"

text \<open>The loop \<open>for (int i = 0; i < 8; ++i)\<close> of \<open>u64ToStr\<close>.\<close>

function u64ToStr_loop :: "u64 \<Rightarrow> nat \<Rightarrow> bytes \<Rightarrow> bytes" where
  "u64ToStr_loop v i s =
    (if i < 8 then u64ToStr_loop v (i + 1) (s[i := ucast (drop_bit ((7 - i) * 8) v AND 0xFF)])
     else s)"
  by pat_completeness auto
termination
  by (relation "measure (\<lambda>(v, i, s). 8 - i)") auto

declare u64ToStr_loop.simps [simp del]

definition u64ToStr :: "u64 \<Rightarrow> bytes" where
  "u64ToStr v = u64ToStr_loop v 0 (replicate 8 0)"

section \<open>Strings to words\<close>

text \<open>\<open>value[0]\<close> on an empty \<open>std::string\<close> is its terminating null character.\<close>

definition strToU8 :: "bytes \<Rightarrow> u8" where
  "strToU8 value = (if value = [] then 0 else value ! 0)"

text \<open>The operands of \<open>strToU16\<close> and \<open>ptrToU16\<close> are promoted to \<open>int\<close>, shifted and or-ed there.\<close>

definition be16 :: "u8 \<Rightarrow> u8 \<Rightarrow> u16" where
  "be16 a b = ucast (push_bit 8 (ucast a :: 32 word) OR ucast b)"

definition be32 :: "u8 \<Rightarrow> u8 \<Rightarrow> u8 \<Rightarrow> u8 \<Rightarrow> u32" where
  "be32 a b c d = push_bit 24 (ucast a) OR push_bit 16 (ucast b) OR push_bit 8 (ucast c) OR ucast d"

definition be64 :: "u8 \<Rightarrow> u8 \<Rightarrow> u8 \<Rightarrow> u8 \<Rightarrow> u8 \<Rightarrow> u8 \<Rightarrow> u8 \<Rightarrow> u8 \<Rightarrow> u64" where
  "be64 a b c d e f g h =
    push_bit 56 (ucast a) OR push_bit 48 (ucast b) OR push_bit 40 (ucast c) OR push_bit 32 (ucast d)
    OR push_bit 24 (ucast e) OR push_bit 16 (ucast f) OR push_bit 8 (ucast g) OR ucast h"

definition strToU16 :: "bytes \<Rightarrow> fault + u16" where
  "strToU16 s =
    (if length s < 2 then Inl (Throw (InvalidArgument ''input too short''))
     else Inr (be16 (s ! 0) (s ! 1)))"

definition strToU32 :: "bytes \<Rightarrow> fault + u32" where
  "strToU32 s =
    (if length s < 4 then Inl (Throw (InvalidArgument ''input too short''))
     else Inr (be32 (s ! 0) (s ! 1) (s ! 2) (s ! 3)))"

definition strToU64 :: "bytes \<Rightarrow> fault + u64" where
  "strToU64 s =
    (if length s < 8 then Inl (Throw (InvalidArgument ''input too short''))
     else Inr (be64 (s ! 0) (s ! 1) (s ! 2) (s ! 3) (s ! 4) (s ! 5) (s ! 6) (s ! 7)))"

definition ptrToU16 :: "bytes \<Rightarrow> fault + u16" where
  "ptrToU16 p = (if length p < 2 then Inl Undefined else Inr (be16 (p ! 0) (p ! 1)))"

definition ptrToU32 :: "bytes \<Rightarrow> fault + u32" where
  "ptrToU32 p =
    (if length p < 4 then Inl Undefined else Inr (be32 (p ! 0) (p ! 1) (p ! 2) (p ! 3)))"

definition ptrToU64 :: "bytes \<Rightarrow> fault + u64" where
  "ptrToU64 p =
    (if length p < 8 then Inl Undefined
     else Inr (be64 (p ! 0) (p ! 1) (p ! 2) (p ! 3) (p ! 4) (p ! 5) (p ! 6) (p ! 7)))"

section \<open>Explicit form of the encodings\<close>

named_theorems encoder_forms "the encoders as lists of bytes"

lemma u8ToStr_form [encoder_forms]: "u8ToStr v = [v]"
  by (simp add: u8ToStr_def)

lemma u16ToStr_form [encoder_forms]: "u16ToStr v = [cut 8 v, cut 0 v]"
  by (simp add: u16ToStr_def cut_def numeral_eq_Suc)

lemma u32ToStr_form [encoder_forms]: "u32ToStr v = [cut 24 v, cut 16 v, cut 8 v, cut 0 v]"
  by (simp add: u32ToStr_def cut_def eval_nat_numeral)

lemma u64ToStr_form [encoder_forms]:
  "u64ToStr v = [cut 56 v, cut 48 v, cut 40 v, cut 32 v, cut 24 v, cut 16 v, cut 8 v, cut 0 v]"
  by (simp add: u64ToStr_def u64ToStr_loop.simps cut_def eval_nat_numeral)

lemma be16_put: "be16 a b = put 8 a OR put 0 b"
  by (rule bit_word_eqI)
    (auto simp: be16_def bit_ucast_iff bit_or_iff bit_put bit_push_bit_iff dest: bit_imp_le_length)

lemma be32_put: "be32 a b c d = put 24 a OR put 16 b OR put 8 c OR put 0 d"
  by (simp add: be32_def put_def)

lemma be64_put:
  "be64 a b c d e f g h = put 56 a OR put 48 b OR put 40 c OR put 32 d
    OR put 24 e OR put 16 f OR put 8 g OR put 0 h"
  by (simp add: be64_def put_def)

text \<open>Putting a word together undoes taking it apart, and conversely.\<close>

lemma be16_cut: "be16 (cut 8 v) (cut 0 v) = v"
  by (rule bit_word_eqI) (auto simp: be16_put bit_or_iff bit_put_cut)

lemma be32_cut: "be32 (cut 24 v) (cut 16 v) (cut 8 v) (cut 0 v) = v"
  by (rule bit_word_eqI) (auto simp: be32_put bit_or_iff bit_put_cut)

lemma be64_cut:
  "be64 (cut 56 v) (cut 48 v) (cut 40 v) (cut 32 v) (cut 24 v) (cut 16 v) (cut 8 v) (cut 0 v) = v"
  by (rule bit_word_eqI) (simp add: be64_put bit_or_iff bit_put_cut, arith)

lemma cut_be16: "u16ToStr (be16 a b) = [a, b]"
  by (simp add: u16ToStr_form be16_put cut_simps)

lemma cut_be32: "u32ToStr (be32 a b c d) = [a, b, c, d]"
  by (simp add: u32ToStr_form be32_put cut_simps)

lemma cut_be64: "u64ToStr (be64 a b c d e f g h) = [a, b, c, d, e, f, g, h]"
  by (simp add: u64ToStr_form be64_put cut_simps)

section \<open>The interface of a fixed-width field\<close>

text \<open>
  What the frame code relies on of a pair of writer and pointer reader: the writer emits
  \<open>width\<close> bytes, the reader reads them back whatever follows, reads nothing but them, and
  refuses (is undefined) exactly on fewer bytes.
\<close>

locale field_codec =
  fixes enc :: "'w \<Rightarrow> bytes" and dec :: "bytes \<Rightarrow> fault + 'w" and width :: nat
  assumes enc_length: "length (enc v) = width"
    and dec_enc: "dec (enc v) = Inr v"
    and enc_dec: "dec p = Inr v \<Longrightarrow> enc v = take width p"
    and dec_prefix: "width \<le> length p \<Longrightarrow> dec p = dec (take width p)"
    and dec_total: "width \<le> length p \<Longrightarrow> \<exists>v. dec p = Inr v"
    and dec_short: "length p < width \<Longrightarrow> dec p = Inl Undefined"
begin

lemma dec_enc_append: "dec (enc v @ rest) = Inr v"
  using dec_prefix [of "enc v @ rest"] by (simp add: enc_length dec_enc)

lemma dec_at: "length a = n \<Longrightarrow> dec (drop n (a @ enc v @ rest)) = Inr v"
  by (simp add: dec_enc_append)

lemma enc_inj: "enc v = enc w \<longleftrightarrow> v = w"
  by (metis dec_enc sum.inject(2))

lemma dec_defined_iff: "dec p = Inl Undefined \<longleftrightarrow> length p < width"
  using dec_short [of p] dec_total [of p] by (cases "length p < width") auto

lemma dec_eq_Inr: "dec p = Inr v \<longleftrightarrow> width \<le> length p \<and> take width p = enc v"
proof
  assume *: "dec p = Inr v"
  then have "width \<le> length p" using dec_short [of p] by (cases "length p < width") auto
  with * show "width \<le> length p \<and> take width p = enc v" by (simp add: enc_dec)
next
  assume "width \<le> length p \<and> take width p = enc v"
  then show "dec p = Inr v" using dec_prefix [of p] by (simp add: dec_enc)
qed

lemma dec_split: "width \<le> length p \<Longrightarrow> \<exists>v. p = enc v @ drop width p"
  using dec_total [of p] enc_dec append_take_drop_id [of width p] by metis

end

lemma ptrToU16_eq: "ptrToU16 p = Inr v \<longleftrightarrow> 2 \<le> length p \<and> v = be16 (p ! 0) (p ! 1)"
  by (auto simp: ptrToU16_def)

lemma ptrToU32_eq:
  "ptrToU32 p = Inr v \<longleftrightarrow> 4 \<le> length p \<and> v = be32 (p ! 0) (p ! 1) (p ! 2) (p ! 3)"
  by (auto simp: ptrToU32_def)

lemma ptrToU64_eq:
  "ptrToU64 p = Inr v \<longleftrightarrow> 8 \<le> length p
    \<and> v = be64 (p ! 0) (p ! 1) (p ! 2) (p ! 3) (p ! 4) (p ! 5) (p ! 6) (p ! 7)"
  by (auto simp: ptrToU64_def)

lemma take_nth_list: "n \<le> length p \<Longrightarrow> take n p = map ((!) p) [0..<n]"
  by (auto intro!: nth_equalityI)

lemma take_4_nth: "4 \<le> length p \<Longrightarrow> take 4 p = [p ! 0, p ! 1, p ! 2, p ! 3]"
  and take_8_nth: "8 \<le> length p \<Longrightarrow>
    take 8 p = [p ! 0, p ! 1, p ! 2, p ! 3, p ! 4, p ! 5, p ! 6, p ! 7]"
  by (simp_all add: take_nth_list upt_rec) (simp_all add: eval_nat_numeral)

interpretation u16: field_codec u16ToStr ptrToU16 2
proof unfold_locales
  fix v and p :: bytes
  show "length (u16ToStr v) = 2" by (simp add: u16ToStr_form)
  show "ptrToU16 (u16ToStr v) = Inr v" by (simp add: u16ToStr_form ptrToU16_def be16_cut)
  show "ptrToU16 p = Inr v \<Longrightarrow> u16ToStr v = take 2 p"
    by (auto simp: ptrToU16_eq cut_be16 take_nth_list upt_rec)
  show "2 \<le> length p \<Longrightarrow> ptrToU16 p = ptrToU16 (take 2 p)"
    and "2 \<le> length p \<Longrightarrow> \<exists>v. ptrToU16 p = Inr v"
    and "length p < 2 \<Longrightarrow> ptrToU16 p = Inl Undefined"
    by (simp_all add: ptrToU16_def)
qed

interpretation u32: field_codec u32ToStr ptrToU32 4
proof unfold_locales
  fix v and p :: bytes
  show "length (u32ToStr v) = 4" by (simp add: u32ToStr_form)
  show "ptrToU32 (u32ToStr v) = Inr v"
    by (simp add: u32ToStr_form ptrToU32_def be32_cut)
  show "ptrToU32 p = Inr v \<Longrightarrow> u32ToStr v = take 4 p"
    by (auto simp: ptrToU32_eq cut_be32 take_4_nth)
  show "4 \<le> length p \<Longrightarrow> ptrToU32 p = ptrToU32 (take 4 p)"
    and "4 \<le> length p \<Longrightarrow> \<exists>v. ptrToU32 p = Inr v"
    and "length p < 4 \<Longrightarrow> ptrToU32 p = Inl Undefined"
    by (simp_all add: ptrToU32_def)
qed

interpretation u64: field_codec u64ToStr ptrToU64 8
proof unfold_locales
  fix v and p :: bytes
  show "length (u64ToStr v) = 8" by (simp add: u64ToStr_form)
  show "ptrToU64 (u64ToStr v) = Inr v"
    by (simp add: u64ToStr_form ptrToU64_def be64_cut)
  show "ptrToU64 p = Inr v \<Longrightarrow> u64ToStr v = take 8 p"
    by (auto simp: ptrToU64_eq cut_be64 take_8_nth)
  show "8 \<le> length p \<Longrightarrow> ptrToU64 p = ptrToU64 (take 8 p)"
    and "8 \<le> length p \<Longrightarrow> \<exists>v. ptrToU64 p = Inr v"
    and "length p < 8 \<Longrightarrow> ptrToU64 p = Inl Undefined"
    by (simp_all add: ptrToU64_def)
qed

text \<open>The string readers agree with the pointer readers and throw where those are undefined.\<close>

lemma strToU16_ptr: "2 \<le> length s \<Longrightarrow> strToU16 s = ptrToU16 s"
  and strToU32_ptr: "4 \<le> length s \<Longrightarrow> strToU32 s = ptrToU32 s"
  and strToU64_ptr: "8 \<le> length s \<Longrightarrow> strToU64 s = ptrToU64 s"
  by (simp_all add: strToU16_def ptrToU16_def strToU32_def ptrToU32_def strToU64_def ptrToU64_def)

section \<open>Network byte order\<close>

lemma unat_cut: "unat (cut k (w :: 'a::len word)) = unat w div 2 ^ k mod 256"
proof -
  have "(255 :: 'a word) = mask 8" by (simp add: mask_eq_exp_minus_1)
  then have "cut k w = ucast (take_bit 8 (drop_bit k w))"
    by (simp add: cut_def take_bit_eq_mask)
  moreover have "take_bit LENGTH('a) (unat w) = unat w"
    by (rule take_bit_nat_eq_self) (rule unsigned_less)
  ultimately have "unat (cut k w) = take_bit 8 (drop_bit k (unat w))"
    by (simp add: unsigned_ucast_eq unsigned_take_bit_eq unsigned_drop_bit_eq)
  then show ?thesis by (simp add: drop_bit_eq_div take_bit_eq_mod)
qed

text \<open>The number a byte string denotes in network byte order: the reference for the encoders.\<close>

fun number_of :: "bytes \<Rightarrow> nat" where
  "number_of [] = 0"
| "number_of (b # bs) = unat b * 256 ^ length bs + number_of bs"

definition digits :: "nat \<Rightarrow> 'a::len word \<Rightarrow> bytes" where
  "digits m v = map (\<lambda>i. cut (8 * i) v) (rev [0..<m])"

lemma number_of_digits: "number_of (digits m v) = unat v mod 256 ^ m"
proof (induction m)
  case (Suc m)
  have "unat (cut (8 * m) v) = unat v div 256 ^ m mod 256"
    by (simp add: unat_cut power_mult)
  then show ?case
    using Suc mod_mult2_eq [of "unat v" "256 ^ m" 256] by (simp add: digits_def mult.commute)
qed (simp add: digits_def)

lemma encoders_digits: "u16ToStr v = digits 2 v" "u32ToStr w = digits 4 w" "u64ToStr x = digits 8 x"
  by (simp_all add: digits_def encoder_forms upt_rec)

section \<open>Properties\<close>

text \<open>
  The encoders write network byte order: the bytes of \<open>u16ToStr\<close>, \<open>u32ToStr\<close> and \<open>u64ToStr\<close>,
  read as the digits of a number in base 256, most significant first, denote the encoded value.
\<close>

lemma encoders_network_order:
  "number_of (u16ToStr v) = unat v \<and> number_of (u32ToStr w) = unat w \<and> number_of (u64ToStr x) = unat x"
  using unsigned_less [of v, where ?'a = nat] unsigned_less [of w, where ?'a = nat]
    unsigned_less [of x, where ?'a = nat]
  by (simp add: encoders_digits number_of_digits)

text \<open>
  C28: the readers undo the encoders, whatever follows, and the encoders undo the readers: any
  bytes that are enough are the encoding of the number read from them.
\<close>

theorem encoders_round_trip:
  "strToU16 (u16ToStr v @ r) = Inr v \<and> strToU32 (u32ToStr w @ r) = Inr w \<and> strToU64 (u64ToStr x @ r) = Inr x
    \<and> ptrToU16 (u16ToStr v @ r) = Inr v \<and> ptrToU32 (u32ToStr w @ r) = Inr w
    \<and> ptrToU64 (u64ToStr x @ r) = Inr x \<and> strToU8 (u8ToStr b @ r) = b
    \<and> u16ToStr (be16 b0 b1) = [b0, b1] \<and> u32ToStr (be32 b0 b1 b2 b3) = [b0, b1, b2, b3]
    \<and> u64ToStr (be64 b0 b1 b2 b3 b4 b5 b6 b7) = [b0, b1, b2, b3, b4, b5, b6, b7]"
  by (simp add: strToU16_ptr strToU32_ptr strToU64_ptr u16.enc_length u32.enc_length u64.enc_length
      u16.dec_enc_append u32.dec_enc_append u64.dec_enc_append strToU8_def u8ToStr_def
      cut_be16 cut_be32 cut_be64)

end
