(* ===== verification/Crypto.thy ===== *)
theory Crypto
  imports Encoders
begin

text \<open>
  \<open>core/enc/aes.cpp\<close>, \<open>core/enc/rsa.cpp\<close>, \<open>core/enc/rand.cpp\<close>: the wrappers the protocol uses
  around OpenSSL. OpenSSL itself is not part of the repository: it is the parameter
  \<open>ossl :: openssl\<close> of every definition here, one field per library function the wrappers call.
  A fallible function also gets the number of the call, so whether a call fails, and what
  \<open>RAND_bytes\<close> returns, may differ from call to call. The state counts the calls made and the
  OpenSSL objects allocated and not freed. \<open>gcm_laws\<close>, \<open>gcm_reliable\<close>, \<open>rsa_pair\<close> and \<open>keygen_laws\<close>
  (in \<open>Crypto_Laws\<close>) name what the documentation of the library promises; the theorems that need
  them have them as hypotheses.
\<close>

section \<open>The library\<close>

type_synonym pkey = nat  \<comment> \<open>an opaque \<open>EVP_PKEY\<close>\<close>

text \<open>A memory BIO, as \<open>BIO_get_mem_ptr\<close> gives it: its buffer and the number of bytes written.\<close>

record BUF_MEM =
  mem_data :: bytes
  mem_length :: nat

record openssl =
  RAND_bytes :: "nat \<Rightarrow> nat \<Rightarrow> bytes option"
  CIPHER_CTX_new :: "nat \<Rightarrow> bool"
  EncryptInit :: "nat \<Rightarrow> bool"
  EncryptInitKey :: "nat \<Rightarrow> bytes \<Rightarrow> bytes \<Rightarrow> bool"
  EncryptUpdate :: "nat \<Rightarrow> bytes \<Rightarrow> bytes \<Rightarrow> bytes \<Rightarrow> int \<Rightarrow> bytes option"
  EncryptFinal :: "nat \<Rightarrow> bytes \<Rightarrow> bytes \<Rightarrow> bytes \<Rightarrow> bytes option"
  GetTag :: "bytes \<Rightarrow> bytes \<Rightarrow> bytes \<Rightarrow> bytes"
  DecryptInit :: "nat \<Rightarrow> bool"
  DecryptInitKey :: "nat \<Rightarrow> bytes \<Rightarrow> bytes \<Rightarrow> bool"
  DecryptUpdate :: "nat \<Rightarrow> bytes \<Rightarrow> bytes \<Rightarrow> bytes \<Rightarrow> int \<Rightarrow> bytes option"
  DecryptFinal :: "nat \<Rightarrow> bytes \<Rightarrow> bytes \<Rightarrow> bytes \<Rightarrow> bytes \<Rightarrow> bytes option"
  PEM_read_PUBKEY :: "nat \<Rightarrow> bytes \<Rightarrow> pkey option"
  PEM_read_PrivateKey :: "nat \<Rightarrow> bytes \<Rightarrow> pkey option"
  PKEY_CTX_new :: "nat \<Rightarrow> bool"
  PKEY_encrypt_init :: "nat \<Rightarrow> bool"
  PKEY_encrypt_size :: "nat \<Rightarrow> pkey \<Rightarrow> bytes \<Rightarrow> nat option"
  PKEY_encrypt :: "nat \<Rightarrow> pkey \<Rightarrow> bytes \<Rightarrow> bytes option"
  PKEY_decrypt_init :: "nat \<Rightarrow> bool"
  PKEY_decrypt_size :: "nat \<Rightarrow> pkey \<Rightarrow> bytes \<Rightarrow> nat option"
  PKEY_decrypt :: "nat \<Rightarrow> pkey \<Rightarrow> bytes \<Rightarrow> bytes option"
  PKEY_keygen_init :: "nat \<Rightarrow> bool"
  PKEY_set_bits :: "nat \<Rightarrow> nat \<Rightarrow> bool"
  PKEY_keygen :: "nat \<Rightarrow> pkey option"
  PEM_write_PUBKEY :: "pkey \<Rightarrow> BUF_MEM"
  PEM_write_PrivateKey :: "pkey \<Rightarrow> BUF_MEM"

text \<open>Calls made so far, and live \<open>EVP_CIPHER_CTX\<close>, \<open>EVP_PKEY\<close> and \<open>EVP_PKEY_CTX\<close> objects.\<close>

record crypto_state =
  calls :: nat
  cipher_ctxs :: nat
  pkeys :: nat
  pkey_ctxs :: nat

type_synonym 'a crypto = "(crypto_state, fault, 'a) prog"

text \<open>A library call that reports success, and one that yields a value; failure throws \<open>e\<close>.\<close>

definition call_ok :: "(nat \<Rightarrow> bool) \<Rightarrow> exn \<Rightarrow> unit crypto" where
  "call_ok f e s =
    (if f (calls s) then (Inr (), s\<lparr>calls := Suc (calls s)\<rparr>)
     else (Inl (Throw e), s\<lparr>calls := Suc (calls s)\<rparr>))"

definition call_val :: "(nat \<Rightarrow> 'a option) \<Rightarrow> exn \<Rightarrow> 'a crypto" where
  "call_val f e s =
    (case f (calls s) of
       Some x \<Rightarrow> (Inr x, s\<lparr>calls := Suc (calls s)\<rparr>)
     | None \<Rightarrow> (Inl (Throw e), s\<lparr>calls := Suc (calls s)\<rparr>))"

text \<open>A \<open>size_t\<close> passed where the library takes \<open>int\<close>.\<close>

definition c_int :: "nat \<Rightarrow> int" where
  "c_int n = sint (word_of_nat n :: 32 word)"

section \<open>Random values\<close>

definition generateAESKey :: "openssl \<Rightarrow> bytes crypto" where
  "generateAESKey ossl =
    call_val (\<lambda>t. RAND_bytes ossl t 32) (throwErr ERR_ENCRYPTION ''AES key generation failed'')"

definition rand64 :: "openssl \<Rightarrow> u64 crypto" where
  "rand64 ossl =
    bindP (call_val (\<lambda>t. RAND_bytes ossl t 8) (throwErr ERR_ENCRYPTION ''rand64 generation failed''))
      (\<lambda>key. liftP (\<lambda>_. ptrToU64 key))"

section \<open>AES-256-GCM\<close>

definition AES_KEY_SIZE :: nat where "AES_KEY_SIZE = 32"

text \<open>
  \<open>aesEncrypt\<close>. The output buffer has the size of the plaintext; the library writing more
  than that counts as undefined.
\<close>

definition aesEncrypt :: "openssl \<Rightarrow> bytes \<Rightarrow> bytes \<Rightarrow> bytes crypto" where
  "aesEncrypt ossl plaintext key =
    seqP (checkP (length key = 32) (Throw (RuntimeError ''Invalid AES-256 key'')))
    (bindP (call_val (\<lambda>t. RAND_bytes ossl t 12) (throwErr ERR_ENCRYPTION ''IV generation failed'')) (\<lambda>iv.
     seqP (call_ok (CIPHER_CTX_new ossl) (throwErr ERR_ENCRYPTION ''AES ctx failed''))
    (seqP (modP (\<lambda>s. s\<lparr>cipher_ctxs := cipher_ctxs s + 1\<rparr>))
    (seqP (call_ok (EncryptInit ossl) (throwErr ERR_ENCRYPTION ''Encrypt init failed''))
    (seqP (call_ok (\<lambda>t. EncryptInitKey ossl t key iv) (throwErr ERR_ENCRYPTION ''Encrypt key init failed''))
    (bindP (call_val (\<lambda>t. EncryptUpdate ossl t key iv plaintext (c_int (length plaintext)))
             (throwErr ERR_ENCRYPTION ''Encrypt update failed'')) (\<lambda>out.
     bindP (call_val (\<lambda>t. EncryptFinal ossl t key iv plaintext)
             (throwErr ERR_ENCRYPTION ''Encrypt final failed'')) (\<lambda>fin.
     seqP (checkP (length out + length fin \<le> length plaintext) Undefined)
    (seqP (modP (\<lambda>s. s\<lparr>cipher_ctxs := cipher_ctxs s - 1\<rparr>))
      (retP (iv @ GetTag ossl key iv plaintext @ out @ fin)))))))))))"

definition aesDecrypt :: "openssl \<Rightarrow> bytes \<Rightarrow> bytes \<Rightarrow> bytes crypto" where
  "aesDecrypt ossl encrypted key =
    seqP (checkP (length key = 32) (Throw (RuntimeError ''Invalid AES-256 key'')))
    (seqP (checkP (\<not> length encrypted < 12 + 16) (Throw (RuntimeError ''Invalid AES packet'')))
    (let iv = take 12 encrypted;
         tag = take 16 (drop 12 encrypted);
         ct = drop 28 encrypted;
         ctLen = length encrypted - 28
     in
     seqP (call_ok (CIPHER_CTX_new ossl) (throwErr ERR_ENCRYPTION ''AES ctx failed''))
    (seqP (modP (\<lambda>s. s\<lparr>cipher_ctxs := cipher_ctxs s + 1\<rparr>))
    (seqP (call_ok (DecryptInit ossl) (throwErr ERR_ENCRYPTION ''Decrypt init failed''))
    (seqP (call_ok (\<lambda>t. DecryptInitKey ossl t key iv) (throwErr ERR_ENCRYPTION ''Decrypt key init failed''))
    (bindP (call_val (\<lambda>t. DecryptUpdate ossl t key iv ct (c_int ctLen))
             (throwErr ERR_ENCRYPTION ''Decrypt update failed'')) (\<lambda>out s.
     (case DecryptFinal ossl (calls s) key iv ct tag of
        None \<Rightarrow> (Inl (Throw (RuntimeError ''AES authentication failed'')),
                 s\<lparr>calls := Suc (calls s), cipher_ctxs := cipher_ctxs s - 1\<rparr>)
      | Some fin \<Rightarrow>
          seqP (checkP (length out + length fin \<le> ctLen) Undefined) (retP (out @ fin))
            (s\<lparr>calls := Suc (calls s), cipher_ctxs := cipher_ctxs s - 1\<rparr>)))))))))"

section \<open>RSA-2048 OAEP\<close>

definition bioToString :: "BUF_MEM \<Rightarrow> fault + bytes" where
  "bioToString mem =
    (if mem_length mem \<le> length (mem_data mem) then Inr (take (mem_length mem) (mem_data mem)) else Inl Undefined)"

text \<open>
  \<open>BIO_new_mem_buf\<close> and \<open>BIO_free\<close> around the parser allocate and free one object. The length of
  the text is passed as an \<open>int\<close>: for texts below 2 GiB that is their length.
\<close>

definition loadPublicKey :: "openssl \<Rightarrow> bytes \<Rightarrow> pkey crypto" where
  "loadPublicKey ossl pem =
    bindP (call_val (\<lambda>t. PEM_read_PUBKEY ossl t pem)
            (throwErr ERR_ENCRYPTION ''Failed loading public key''))
      (\<lambda>key. seqP (modP (\<lambda>s. s\<lparr>pkeys := pkeys s + 1\<rparr>)) (retP key))"

definition loadPrivateKey :: "openssl \<Rightarrow> bytes \<Rightarrow> pkey crypto" where
  "loadPrivateKey ossl pem =
    bindP (call_val (\<lambda>t. PEM_read_PrivateKey ossl t pem)
            (throwErr ERR_ENCRYPTION ''Failed loading private key''))
      (\<lambda>key. seqP (modP (\<lambda>s. s\<lparr>pkeys := pkeys s + 1\<rparr>)) (retP key))"

text \<open>
  \<open>tmp\<close> has the size the first call reports; writing more counts as undefined. The second
  call updates \<open>outLen\<close> to what it wrote.
\<close>

definition rsaEncrypt :: "openssl \<Rightarrow> bytes \<Rightarrow> bytes \<Rightarrow> bytes crypto" where
  "rsaEncrypt ossl plaintext publicKeyPem =
    bindP (loadPublicKey ossl publicKeyPem) (\<lambda>key.
     seqP (call_ok (PKEY_CTX_new ossl) (throwErr ERR_ENCRYPTION ''Encrypt ctx failed''))
    (seqP (modP (\<lambda>s. s\<lparr>pkey_ctxs := pkey_ctxs s + 1\<rparr>))
    (seqP (call_ok (PKEY_encrypt_init ossl) (throwErr ERR_ENCRYPTION ''Encrypt init failed''))
    (bindP (call_val (\<lambda>t. PKEY_encrypt_size ossl t key plaintext)
             (throwErr ERR_ENCRYPTION ''RSA encrypt size failed'')) (\<lambda>outLen.
     bindP (call_val (\<lambda>t. PKEY_encrypt ossl t key plaintext)
             (throwErr ERR_ENCRYPTION ''RSA encrypt failed'')) (\<lambda>tmp.
     seqP (checkP (length tmp \<le> outLen) Undefined)
    (seqP (modP (\<lambda>s. s\<lparr>pkeys := pkeys s - 1, pkey_ctxs := pkey_ctxs s - 1\<rparr>))
      (retP tmp))))))))"

definition rsaDecrypt :: "openssl \<Rightarrow> bytes \<Rightarrow> bytes \<Rightarrow> bytes crypto" where
  "rsaDecrypt ossl ciphertext privateKeyPem =
    bindP (loadPrivateKey ossl privateKeyPem) (\<lambda>key.
     seqP (call_ok (PKEY_CTX_new ossl) (throwErr ERR_ENCRYPTION ''Decrypt ctx failed''))
    (seqP (modP (\<lambda>s. s\<lparr>pkey_ctxs := pkey_ctxs s + 1\<rparr>))
    (seqP (call_ok (PKEY_decrypt_init ossl) (throwErr ERR_ENCRYPTION ''Decrypt init failed''))
    (bindP (call_val (\<lambda>t. PKEY_decrypt_size ossl t key ciphertext)
             (throwErr ERR_ENCRYPTION ''RSA decrypt size failed'')) (\<lambda>outLen.
     bindP (call_val (\<lambda>t. PKEY_decrypt ossl t key ciphertext)
             (throwErr ERR_ENCRYPTION ''RSA decrypt failed'')) (\<lambda>tmp.
     seqP (checkP (length tmp \<le> outLen) Undefined)
    (seqP (modP (\<lambda>s. s\<lparr>pkeys := pkeys s - 1, pkey_ctxs := pkey_ctxs s - 1\<rparr>))
      (retP tmp))))))))"

record rsa_key_pair =
  public_key :: bytes
  private_key :: bytes

text \<open>The two BIOs the pair is written to are freed before it is returned.\<close>

definition generateRSAKeyPair :: "openssl \<Rightarrow> rsa_key_pair crypto" where
  "generateRSAKeyPair ossl =
     seqP (call_ok (PKEY_CTX_new ossl) (throwErr ERR_ENCRYPTION ''Failed creating RSA context''))
    (seqP (modP (\<lambda>s. s\<lparr>pkey_ctxs := pkey_ctxs s + 1\<rparr>))
    (seqP (call_ok (PKEY_keygen_init ossl) (throwErr ERR_ENCRYPTION ''Keygen init failed''))
    (seqP (call_ok (\<lambda>t. PKEY_set_bits ossl t 2048) (throwErr ERR_ENCRYPTION ''Failed setting RSA bits''))
    (bindP (call_val (PKEY_keygen ossl) (throwErr ERR_ENCRYPTION ''RSA generation failed'')) (\<lambda>key.
     seqP (modP (\<lambda>s. s\<lparr>pkeys := pkeys s + 1\<rparr>))
    (bindP (liftP (\<lambda>_. bioToString (PEM_write_PUBKEY ossl key))) (\<lambda>pub.
     bindP (liftP (\<lambda>_. bioToString (PEM_write_PrivateKey ossl key))) (\<lambda>priv.
     seqP (modP (\<lambda>s. s\<lparr>pkeys := pkeys s - 1, pkey_ctxs := pkey_ctxs s - 1\<rparr>))
      (retP \<lparr>public_key = pub, private_key = priv\<rparr>)))))))))"

end
