(* ===== verification/Crypto_Laws.thy ===== *)
theory Crypto_Laws
  imports Crypto
begin

text \<open>
  What the documentation of OpenSSL promises of the functions \<open>core/enc\<close> calls, as named
  hypotheses, and what the wrappers then guarantee: sizes, the exceptions that can leave
  them, the round trip of encryption, and which objects they leave allocated.
\<close>

section \<open>Documented behaviour\<close>

text \<open>
  GCM is a stream mode: an update writes as many bytes as it reads, the final call writes
  none, the tag has 16 bytes, and decrypting what was encrypted under the same key and IV
  gives it back.
\<close>

definition gcm_laws :: "openssl \<Rightarrow> bool" where
  "gcm_laws ossl \<longleftrightarrow>
    (\<forall>t n bs. RAND_bytes ossl t n = Some bs \<longrightarrow> length bs = n) \<and>
    (\<forall>k iv p. length (GetTag ossl k iv p) = 16) \<and>
    (\<forall>t k iv p n c. EncryptUpdate ossl t k iv p n = Some c \<longrightarrow> length c = nat n) \<and>
    (\<forall>t k iv p f. EncryptFinal ossl t k iv p = Some f \<longrightarrow> f = []) \<and>
    (\<forall>t k iv c n p. DecryptUpdate ossl t k iv c n = Some p \<longrightarrow> length p = nat n) \<and>
    (\<forall>t k iv c g f. DecryptFinal ossl t k iv c g = Some f \<longrightarrow> f = []) \<and>
    (\<forall>t t' k iv p c p'. EncryptUpdate ossl t k iv p (int (length p)) = Some c \<longrightarrow>
       DecryptUpdate ossl t' k iv c (int (length c)) = Some p' \<longrightarrow> p' = p)"

text \<open>No call fails for want of memory or entropy, and a genuine tag is accepted.\<close>

definition gcm_reliable :: "openssl \<Rightarrow> bool" where
  "gcm_reliable ossl \<longleftrightarrow>
    (\<forall>t n. RAND_bytes ossl t n \<noteq> None) \<and>
    (\<forall>t. CIPHER_CTX_new ossl t \<and> EncryptInit ossl t \<and> DecryptInit ossl t) \<and>
    (\<forall>t k iv. length k = 32 \<longrightarrow> EncryptInitKey ossl t k iv \<and> DecryptInitKey ossl t k iv) \<and>
    (\<forall>t k iv p. EncryptUpdate ossl t k iv p (int (length p)) \<noteq> None
       \<and> DecryptUpdate ossl t k iv p (int (length p)) \<noteq> None \<and> EncryptFinal ossl t k iv p \<noteq> None) \<and>
    (\<forall>t t' k iv p c. EncryptUpdate ossl t k iv p (int (length p)) = Some c \<longrightarrow>
       DecryptFinal ossl t' k iv c (GetTag ossl k iv p) \<noteq> None)"

lemma gcm_lawsD:
  assumes "gcm_laws ossl"
  shows "RAND_bytes ossl t n = Some bs \<Longrightarrow> length bs = n"
    and "length (GetTag ossl k iv p) = 16"
    and "EncryptUpdate ossl t k iv p m = Some c \<Longrightarrow> length c = nat m"
    and "EncryptFinal ossl t k iv p = Some f \<Longrightarrow> f = []"
    and "DecryptUpdate ossl t k iv d m = Some p \<Longrightarrow> length p = nat m"
    and "DecryptFinal ossl t k iv d g = Some f \<Longrightarrow> f = []"
    and "EncryptUpdate ossl t k iv p (int (length p)) = Some c \<Longrightarrow>
       DecryptUpdate ossl t' k iv c (int (length c)) = Some p' \<Longrightarrow> p' = p"
  using assms unfolding gcm_laws_def by (simp; fail | metis)+

lemma gcm_reliableD:
  assumes "gcm_reliable ossl"
  shows "\<exists>bs. RAND_bytes ossl t n = Some bs"
    and "CIPHER_CTX_new ossl t" "EncryptInit ossl t" "DecryptInit ossl t"
    and "length k = 32 \<Longrightarrow> EncryptInitKey ossl t k iv"
    and "length k = 32 \<Longrightarrow> DecryptInitKey ossl t k iv"
    and "\<exists>c. EncryptUpdate ossl t k iv p (int (length p)) = Some c"
    and "\<exists>q. DecryptUpdate ossl t k iv p (int (length p)) = Some q"
    and "\<exists>f. EncryptFinal ossl t k iv p = Some f"
    and "EncryptUpdate ossl t k iv p (int (length p)) = Some c \<Longrightarrow>
       \<exists>f. DecryptFinal ossl t' k iv c (GetTag ossl k iv p) = Some f"
  using assms unfolding gcm_reliable_def by (blast | metis)+

text \<open>
  RSA-2048 with OAEP: \<open>pub\<close> and \<open>priv\<close> are the PEM texts of one key pair, a plaintext of at most
  190 bytes becomes a ciphertext of 256, and only the private key's \<open>EVP_PKEY_decrypt\<close> is
  involved in getting it back.
\<close>

definition rsa_pair :: "openssl \<Rightarrow> bytes \<Rightarrow> bytes \<Rightarrow> bool" where
  "rsa_pair ossl pub priv \<longleftrightarrow> (\<exists>kp ks.
    (\<forall>t. PEM_read_PUBKEY ossl t pub = Some kp \<and> PEM_read_PrivateKey ossl t priv = Some ks
       \<and> PKEY_CTX_new ossl t \<and> PKEY_encrypt_init ossl t \<and> PKEY_decrypt_init ossl t) \<and>
    (\<forall>t p. length p \<le> 190 \<longrightarrow> PKEY_encrypt_size ossl t kp p = Some 256
       \<and> (\<exists>c. PKEY_encrypt ossl t kp p = Some c \<and> length c = 256)) \<and>
    (\<forall>t t' p c. length p \<le> 190 \<longrightarrow> PKEY_encrypt ossl t kp p = Some c \<longrightarrow>
       PKEY_decrypt_size ossl t' ks c = Some 256 \<and> PKEY_decrypt ossl t' ks c = Some p))"

text \<open>A key that was generated, written as PEM, is a pair.\<close>

definition keygen_laws :: "openssl \<Rightarrow> bool" where
  "keygen_laws ossl \<longleftrightarrow> (\<forall>t key. PKEY_keygen ossl t = Some key \<longrightarrow>
    (\<exists>pub priv. bioToString (PEM_write_PUBKEY ossl key) = Inr pub
      \<and> bioToString (PEM_write_PrivateKey ossl key) = Inr priv \<and> rsa_pair ossl pub priv))"

section \<open>Conversion of sizes to \<open>int\<close>\<close>

lemma uint_of_size: "uint (word_of_nat n :: 32 word) = int n mod 2 ^ 32"
  by (simp add: unsigned_of_nat take_bit_eq_mod of_nat_mod)

lemma c_int_small: "n < 2 ^ 31 \<Longrightarrow> c_int n = int n"
  by (simp add: c_int_def sint_uint uint_of_size signed_take_bit_int_eq_self)

lemma c_int_le: "nat (c_int n) \<le> n"
proof -
  have "c_int n \<le> uint (word_of_nat n :: 32 word)"
    unfolding c_int_def sint_uint by (rule signed_take_bit_int_less_eq_self_iff [THEN iffD2])
      (rule order_trans [OF _ unsigned_greater_eq]; simp)
  also have "\<dots> \<le> int n" by (simp add: uint_of_size zmod_le_nonneg_dividend)
  finally show ?thesis by simp
qed

section \<open>Running the wrappers\<close>

lemmas crypto_run = bindP_def prog_simps call_ok_def call_val_def Let_def

lemma aesEncrypt_result:
  assumes "aesEncrypt ossl p k s = (Inr c, s')"
  obtains t1 t2 t3 iv out fin where "length k = 32" "RAND_bytes ossl t1 12 = Some iv"
    "EncryptUpdate ossl t2 k iv p (c_int (length p)) = Some out"
    "EncryptFinal ossl t3 k iv p = Some fin" "c = iv @ GetTag ossl k iv p @ out @ fin"
    "cipher_ctxs s' = cipher_ctxs s"
  using assms by (auto simp: aesEncrypt_def crypto_run split: if_splits option.splits)

lemma aesDecrypt_result:
  assumes "aesDecrypt ossl c k s = (Inr p, s')"
  obtains t1 t2 out fin where "length k = 32" "28 \<le> length c"
    "DecryptUpdate ossl t1 k (take 12 c) (drop 28 c) (c_int (length c - 28)) = Some out"
    "DecryptFinal ossl t2 k (take 12 c) (drop 28 c) (take 16 (drop 12 c)) = Some fin"
    "p = out @ fin"
  using assms by (auto simp: aesDecrypt_def crypto_run split: if_splits option.splits)

lemma aesEncrypt_runs:
  assumes "gcm_laws ossl" "gcm_reliable ossl" "length k = 32" "length p < 2 ^ 31"
  obtains iv out s' where "aesEncrypt ossl p k s = (Inr (iv @ GetTag ossl k iv p @ out), s')"
    "length iv = 12" "length out = length p" "cipher_ctxs s' = cipher_ctxs s"
    "\<exists>t. EncryptUpdate ossl t k iv p (int (length p)) = Some out"
proof -
  note L = gcm_lawsD [OF assms(1)] and R = gcm_reliableD [OF assms(2)]
  let ?n = "calls s"
  obtain iv where iv: "RAND_bytes ossl ?n 12 = Some iv" using R(1) by blast
  obtain out where out: "EncryptUpdate ossl (?n + 4) k iv p (int (length p)) = Some out"
    using R(7) by blast
  obtain fin where fin: "EncryptFinal ossl (?n + 5) k iv p = Some fin" using R(9) by blast
  have len: "length out = length p" "fin = []" using L(3) [OF out] L(4) [OF fin] by simp_all
  have "aesEncrypt ossl p k s = (Inr (iv @ GetTag ossl k iv p @ out), s\<lparr>calls := ?n + 6\<rparr>)"
    using iv out fin len assms(3) R(2,3) R(5) [OF assms(3)]
    by (simp add: aesEncrypt_def crypto_run c_int_small [OF assms(4)] eval_nat_numeral)
  then show thesis by (rule that) (use L(1) [OF iv] len out in auto)
qed

lemma aesDecrypt_runs:
  assumes "gcm_laws ossl" "gcm_reliable ossl" "length k = 32" "length p < 2 ^ 31"
    and "length iv = 12" "EncryptUpdate ossl t k iv p (int (length p)) = Some out"
  obtains s' where "aesDecrypt ossl (iv @ GetTag ossl k iv p @ out) k s = (Inr p, s')"
    "cipher_ctxs s' = cipher_ctxs s"
proof -
  note L = gcm_lawsD [OF assms(1)] and R = gcm_reliableD [OF assms(2)]
  let ?n = "calls s"
  have out: "length out = length p" using L(3) [OF assms(6)] by simp
  obtain q where q: "DecryptUpdate ossl (?n + 3) k iv out (int (length out)) = Some q"
    using R(8) by blast
  obtain fin where fin: "DecryptFinal ossl (?n + 4) k iv out (GetTag ossl k iv p) = Some fin"
    using R(10) [OF assms(6)] by blast
  have "q = p" "fin = []" using L(7) [OF assms(6) q] L(6) [OF fin] by simp_all
  then have "aesDecrypt ossl (iv @ GetTag ossl k iv p @ out) k s = (Inr p, s\<lparr>calls := ?n + 5\<rparr>)"
    using q fin assms(3,5) R(2,4) R(6) [OF assms(3)] out c_int_small [OF assms(4)] L(2)
    by (simp add: aesDecrypt_def crypto_run eval_nat_numeral)
  then show thesis by (rule that) simp
qed

text \<open>
  With a 32-byte key and less than 2 GiB of plaintext \<open>aesEncrypt\<close> returns a packet of 28 bytes
  more than the plaintext, and \<open>aesDecrypt\<close> under the same key gives the plaintext back; no
  cipher context is left allocated by either.
\<close>

lemma aes_decrypts_encrypted:
  assumes "gcm_laws ossl" "gcm_reliable ossl" "length k = 32" "length p < 2 ^ 31"
  shows "\<exists>c s1. aesEncrypt ossl p k s = (Inr c, s1) \<and> length c = length p + 28
    \<and> cipher_ctxs s1 = cipher_ctxs s
    \<and> (\<forall>s2. \<exists>s3. aesDecrypt ossl c k s2 = (Inr p, s3) \<and> cipher_ctxs s3 = cipher_ctxs s2)"
proof -
  obtain iv out s1 t where e: "aesEncrypt ossl p k s = (Inr (iv @ GetTag ossl k iv p @ out), s1)"
    "length iv = 12" "length out = length p" "cipher_ctxs s1 = cipher_ctxs s"
    "EncryptUpdate ossl t k iv p (int (length p)) = Some out"
    using aesEncrypt_runs [OF assms] by metis
  have "\<exists>s3. aesDecrypt ossl (iv @ GetTag ossl k iv p @ out) k s2 = (Inr p, s3)
      \<and> cipher_ctxs s3 = cipher_ctxs s2" for s2
    using aesDecrypt_runs [OF assms e(2,5), of s2] by metis
  then show ?thesis using e gcm_lawsD(2) [OF assms(1)] by auto
qed

lemma writes_fit:
  assumes "gcm_laws ossl"
  shows "EncryptUpdate ossl t k iv p (c_int n) = Some c \<Longrightarrow> EncryptFinal ossl t' k iv p = Some f
      \<Longrightarrow> length c + length f \<le> n"
    and "DecryptUpdate ossl t k iv d (c_int n) = Some c \<Longrightarrow> DecryptFinal ossl t' k iv d g = Some f
      \<Longrightarrow> length c + length f \<le> n"
  using gcm_lawsD(3-6) [OF assms] c_int_le [of n] by (metis add.right_neutral list.size(3))+

lemma aesEncrypt_fault:
  "gcm_laws ossl \<Longrightarrow> aesEncrypt ossl p k s = (Inl e, s') \<Longrightarrow> \<exists>m. e = Throw (RuntimeError m)"
  using writes_fit(1) [of ossl]
  by (auto simp: aesEncrypt_def crypto_run throwErr_def split: if_splits option.splits)

lemma aesDecrypt_fault:
  "gcm_laws ossl \<Longrightarrow> aesDecrypt ossl p k s = (Inl e, s') \<Longrightarrow> \<exists>m. e = Throw (RuntimeError m)"
  using writes_fit(2) [of ossl]
  by (auto simp: aesDecrypt_def crypto_run throwErr_def split: if_splits option.splits)

text \<open>
  What \<open>rsaEncrypt\<close> makes of at most 190 bytes with the public key of a pair, \<open>rsaDecrypt\<close>
  with the private key gives back; both free the key and the context they allocate.
\<close>

lemma rsa_decrypts_encrypted:
  assumes "rsa_pair ossl pub priv" "length p \<le> 190"
  shows "\<exists>c s1. rsaEncrypt ossl p pub s = (Inr c, s1) \<and> length c = 256
    \<and> pkeys s1 = pkeys s \<and> pkey_ctxs s1 = pkey_ctxs s
    \<and> (\<forall>s2. \<exists>s3. rsaDecrypt ossl c priv s2 = (Inr p, s3)
         \<and> pkeys s3 = pkeys s2 \<and> pkey_ctxs s3 = pkey_ctxs s2)"
proof -
  obtain kp ks where K: "\<And>t. PEM_read_PUBKEY ossl t pub = Some kp"
      "\<And>t. PEM_read_PrivateKey ossl t priv = Some ks" "\<And>t. PKEY_CTX_new ossl t"
      "\<And>t. PKEY_encrypt_init ossl t" "\<And>t. PKEY_decrypt_init ossl t"
    and S: "\<And>t. PKEY_encrypt_size ossl t kp p = Some 256"
    and E: "\<And>t. \<exists>c. PKEY_encrypt ossl t kp p = Some c \<and> length c = 256"
    and D: "\<And>t t' c. PKEY_encrypt ossl t kp p = Some c \<Longrightarrow>
        PKEY_decrypt_size ossl t' ks c = Some 256 \<and> PKEY_decrypt ossl t' ks c = Some p"
    using assms unfolding rsa_pair_def by metis
  obtain c where c: "PKEY_encrypt ossl (calls s + 4) kp p = Some c" "length c = 256"
    using E by blast
  have "rsaEncrypt ossl p pub s = (Inr c, s\<lparr>calls := calls s + 5\<rparr>)"
    using K S c by (simp add: rsaEncrypt_def loadPublicKey_def crypto_run eval_nat_numeral)
  moreover have "rsaDecrypt ossl c priv s2 = (Inr p, s2\<lparr>calls := calls s2 + 5\<rparr>)" for s2
    using K D [OF c(1)] assms(2)
    by (simp add: rsaDecrypt_def loadPrivateKey_def crypto_run eval_nat_numeral)
  ultimately show ?thesis using c(2) by auto
qed

section \<open>Properties\<close>

text \<open>
  Whatever the library reports, a failing \<open>aesEncrypt\<close> or \<open>aesDecrypt\<close> throws a
  \<open>std::runtime_error\<close> (never an \<open>FMXPException\<close>) and never writes outside its buffer.
\<close>

lemma aes_faults_are_runtime_errors:
  assumes "gcm_laws ossl"
  shows "(aesEncrypt ossl p k s = (Inl e, s') \<longrightarrow> (\<exists>m. e = Throw (RuntimeError m)))
    \<and> (aesDecrypt ossl p k s = (Inl e, s') \<longrightarrow> (\<exists>m. e = Throw (RuntimeError m)))"
  using aesEncrypt_fault [OF assms] aesDecrypt_fault [OF assms] by blast

text \<open>
  The keys \<open>generateRSAKeyPair\<close> returns belong together: what is encrypted with the public one, the
  private one decrypts. It frees all it has allocated, except when it fails.
\<close>

lemma generated_keys_match:
  assumes "keygen_laws ossl" "generateRSAKeyPair ossl s = (r, s')"
  shows "(\<forall>pair. r = Inr pair \<longrightarrow> rsa_pair ossl (public_key pair) (private_key pair)
      \<and> pkeys s' = pkeys s \<and> pkey_ctxs s' = pkey_ctxs s)
    \<and> (\<forall>e. r = Inl e \<longrightarrow> (\<exists>m. e = Throw (RuntimeError m)))"
proof (cases "\<exists>key. PKEY_keygen ossl (calls s + 3) = Some key")
  case False
  then show ?thesis using assms(2)
    by (auto simp: generateRSAKeyPair_def crypto_run throwErr_def eval_nat_numeral split: if_splits option.splits)
next
  case True
  then obtain key pub priv where "PKEY_keygen ossl (calls s + 3) = Some key"
    "bioToString (PEM_write_PUBKEY ossl key) = Inr pub" "bioToString (PEM_write_PrivateKey ossl key) = Inr priv"
    "rsa_pair ossl pub priv"
    using assms(1) unfolding keygen_laws_def by blast
  then show ?thesis using assms(2)
    by (auto simp: generateRSAKeyPair_def crypto_run throwErr_def eval_nat_numeral split: if_splits)
qed

text \<open>
  Every ciphertext that OpenSSL refuses to decrypt leaves one \<open>EVP_PKEY\<close> and one
  \<open>EVP_PKEY_CTX\<close> allocated: \<open>rsaDecrypt\<close> throws before its two calls of \<open>free\<close>.
\<close>

lemma rsaDecrypt_leaks:
  assumes "\<And>t. PEM_read_PrivateKey ossl t priv = Some key" "\<And>t. PKEY_CTX_new ossl t"
    and "\<And>t. PKEY_decrypt ossl t key c = None"
  shows "\<exists>e s'. rsaDecrypt ossl c priv s = (Inl (Throw (RuntimeError e)), s')
    \<and> pkeys s' = pkeys s + 1 \<and> pkey_ctxs s' = pkey_ctxs s + 1"
  using assms
  by (auto simp: rsaDecrypt_def loadPrivateKey_def crypto_run throwErr_def split: option.splits)

section \<open>A library that keeps the laws\<close>

text \<open>
  A concrete instance, to show that the hypotheses can hold together: the cipher leaves the
  bytes as they are and every tag is 16 zero bytes, RSA pads to 256 bytes with the length in
  the last. It models nothing of OpenSSL beyond the laws.
\<close>

definition sample_openssl :: openssl where
  "sample_openssl =
    \<lparr>RAND_bytes = (\<lambda>t n. Some (replicate n 7)), CIPHER_CTX_new = (\<lambda>t. True),
     EncryptInit = (\<lambda>t. True), EncryptInitKey = (\<lambda>t k iv. True),
     EncryptUpdate = (\<lambda>t k iv p n. if n = int (length p) then Some p else None),
     EncryptFinal = (\<lambda>t k iv p. Some []), GetTag = (\<lambda>k iv p. replicate 16 0),
     DecryptInit = (\<lambda>t. True), DecryptInitKey = (\<lambda>t k iv. True),
     DecryptUpdate = (\<lambda>t k iv c n. if n = int (length c) then Some c else None),
     DecryptFinal = (\<lambda>t k iv c g. if g = replicate 16 0 then Some [] else None),
     PEM_read_PUBKEY = (\<lambda>t pem. if pem = lit ''PUB'' then Some 1 else None),
     PEM_read_PrivateKey = (\<lambda>t pem. if pem = lit ''PRIV'' then Some 2 else None),
     PKEY_CTX_new = (\<lambda>t. True), PKEY_encrypt_init = (\<lambda>t. True),
     PKEY_encrypt_size = (\<lambda>t k p. Some 256),
     PKEY_encrypt = (\<lambda>t k p. if length p \<le> 190
        then Some (p @ replicate (255 - length p) 0 @ [word_of_nat (length p)]) else None),
     PKEY_decrypt_init = (\<lambda>t. True), PKEY_decrypt_size = (\<lambda>t k c. Some 256),
     PKEY_decrypt = (\<lambda>t k c. if length c = 256 then Some (take (unat (last c)) c) else None),
     PKEY_keygen_init = (\<lambda>t. True), PKEY_set_bits = (\<lambda>t n. True), PKEY_keygen = (\<lambda>t. Some 1),
     PEM_write_PUBKEY = (\<lambda>k. \<lparr>mem_data = lit ''PUB'', mem_length = 3\<rparr>),
     PEM_write_PrivateKey = (\<lambda>k. \<lparr>mem_data = lit ''PRIV'', mem_length = 4\<rparr>)\<rparr>"

lemma sample_gcm [simp]: "gcm_laws sample_openssl" "gcm_reliable sample_openssl"
  by (auto simp: gcm_laws_def gcm_reliable_def sample_openssl_def split: if_splits)

lemma sample_rsa_pair: "rsa_pair sample_openssl (lit ''PUB'') (lit ''PRIV'')"
  by (auto simp: rsa_pair_def sample_openssl_def lit_def unat_of_nat_small)

lemma sample_keygen: "keygen_laws sample_openssl"
  using sample_rsa_pair
  by (simp add: keygen_laws_def bioToString_def sample_openssl_def lit_def)

definition no_crypto :: crypto_state where
  "no_crypto = \<lparr>calls = 0, cipher_ctxs = 0, pkeys = 0, pkey_ctxs = 0\<rparr>"

end
