(* ===== verification/Frame.thy ===== *)
theory Frame
  imports Crypto_Laws
begin

text \<open>
  \<open>core/frame.hpp\<close> and \<open>core/frame.cpp\<close>: the frame, its accessors, \<open>encodeFrame\<close> and
  \<open>decodeFrame\<close>. A \<open>ByteBuffer\<close> is its bytes here: that the class behaves as the list of its
  bytes is what the theorems of \<open>Byte_Buffer_Contract\<close> show. A pointer into a buffer is the bytes
  from it to the end, so a read past the end is \<open>Undefined\<close>.
\<close>

section \<open>Constants and data\<close>

definition FMXP_VERSION :: u8 where "FMXP_VERSION = 1"

definition STATUS_REQ :: u8 where "STATUS_REQ = 0"
definition STATUS_OK :: u8 where "STATUS_OK = 1"
definition STATUS_BAD_REQ :: u8 where "STATUS_BAD_REQ = 2"
definition STATUS_SERVER_ERROR :: u8 where "STATUS_SERVER_ERROR = 3"
definition STATUS_NOT_FOUND :: u8 where "STATUS_NOT_FOUND = 4"
definition STATUS_UNAUTHORIZED :: u8 where "STATUS_UNAUTHORIZED = 5"
definition STATUS_FORBIDDEN :: u8 where "STATUS_FORBIDDEN = 6"

definition HEADER_SIZE :: nat where "HEADER_SIZE = 9"
definition BODY_HEADER_SIZE :: nat where "BODY_HEADER_SIZE = 20"
definition MIN_FRAME_SIZE :: nat where "MIN_FRAME_SIZE = BODY_HEADER_SIZE + HEADER_SIZE"

lemmas frame_sizes = HEADER_SIZE_def BODY_HEADER_SIZE_def MIN_FRAME_SIZE_def

record Header =
  header_length :: u32
  header_version :: u8

definition Header_default :: Header where
  "Header_default = \<lparr>header_length = 0, header_version = FMXP_VERSION\<rparr>"

record Frame =
  fid :: u32
  rid :: u32
  ssid :: u64
  status :: u8
  flags :: u8
  path :: bytes
  data :: bytes

section \<open>Accessors\<close>

text \<open>\<open>p + n\<close> for a pointer, \<open>*p\<close>, and the constructor \<open>ByteBuffer(p, n)\<close>.\<close>

definition ptr_add :: "bytes \<Rightarrow> nat \<Rightarrow> fault + bytes" where
  "ptr_add p n = (if n \<le> length p then Inr (drop n p) else Inl Undefined)"

definition deref :: "bytes \<Rightarrow> fault + u8" where
  "deref p = (case p of [] \<Rightarrow> Inl Undefined | b # _ \<Rightarrow> Inr b)"

definition buffer_at :: "bytes \<Rightarrow> nat \<Rightarrow> fault + bytes" where
  "buffer_at p n = (if n \<le> length p then Inr (take n p) else Inl Undefined)"

definition getFrameBodySize :: "bytes \<Rightarrow> fault + u32" where
  "getFrameBodySize encoded = bindE (ptr_add encoded 5) ptrToU32"

definition getFrameVersion :: "bytes \<Rightarrow> fault + u8" where
  "getFrameVersion encoded = bindE (ptr_add encoded 4) deref"

definition validateProtocol :: "bytes \<Rightarrow> bool" where
  "validateProtocol encoded \<longleftrightarrow> length encoded \<ge> 4 \<and> take 4 encoded = lit ''fmxp''"

definition getFrameBodyPtr :: "bytes \<Rightarrow> fault + bytes" where
  "getFrameBodyPtr encoded = ptr_add encoded HEADER_SIZE"

definition getBodyRid :: "bytes \<Rightarrow> fault + u32" where
  "getBodyRid body = ptrToU32 body"

definition getBodyFid :: "bytes \<Rightarrow> fault + u32" where
  "getBodyFid body = bindE (ptr_add body 4) ptrToU32"

definition getBodySsid :: "bytes \<Rightarrow> fault + u64" where
  "getBodySsid body = bindE (ptr_add body 8) ptrToU64"

definition getBodyFlags :: "bytes \<Rightarrow> fault + u8" where
  "getBodyFlags body = bindE (ptr_add body 16) deref"

definition getBodyStatus :: "bytes \<Rightarrow> fault + u8" where
  "getBodyStatus body = bindE (ptr_add body 17) deref"

definition getBodyPathLen :: "bytes \<Rightarrow> fault + u16" where
  "getBodyPathLen body = bindE (ptr_add body 18) ptrToU16"

definition getBodyPathPtr :: "bytes \<Rightarrow> fault + bytes" where
  "getBodyPathPtr body = ptr_add body BODY_HEADER_SIZE"

definition getBodyDataPtr :: "bytes \<Rightarrow> fault + bytes" where
  "getBodyDataPtr body =
    bindE (getBodyPathLen body) (\<lambda>n. ptr_add body (BODY_HEADER_SIZE + unat n))"

definition makeFlags :: "bool \<Rightarrow> u8" where
  "makeFlags compress = (if compress then 1 else 0)"

definition makeFrame :: "u32 \<Rightarrow> u8 \<Rightarrow> u8 \<Rightarrow> bytes \<Rightarrow> bytes \<Rightarrow> u32 \<Rightarrow> u64 \<Rightarrow> Frame" where
  "makeFrame fi st fl pa da ri ss =
    \<lparr>fid = fi, rid = ri, ssid = ss, status = st, flags = fl, path = pa, data = da\<rparr>"

section \<open>Encoding\<close>

text \<open>
  The body, then the whole frame. Both lengths are cut to the width of their field:
  \<open>path.size()\<close> to 16 bits, \<open>body.size()\<close> to 32.
\<close>

definition encodeBody :: "Frame \<Rightarrow> u32 \<Rightarrow> bytes" where
  "encodeBody frame fidReplacement =
    (let body = [];
         body = body @ u32ToStr (rid frame);
         body = body @ u32ToStr (if fidReplacement = 0 then fid frame else fidReplacement);
         body = body @ u64ToStr (ssid frame);
         body = body @ u8ToStr (flags frame);
         body = body @ u8ToStr (status frame);
         body = body @ u16ToStr (word_of_nat (length (path frame)));
         body = body @ path frame;
         body = body @ data frame
     in body)"

definition encodeFrame :: "openssl \<Rightarrow> Frame \<Rightarrow> bool \<Rightarrow> bytes \<Rightarrow> u32 \<Rightarrow> bytes crypto" where
  "encodeFrame ossl frame encrypt key fidReplacement =
    (let encoded = lit ''fmxp'';
         encoded = encoded @ u8ToStr FMXP_VERSION;
         body = encodeBody frame fidReplacement
     in bindP (if encrypt then aesEncrypt ossl body key else retP body) (\<lambda>body.
        let encoded = encoded @ u32ToStr (word_of_nat (length body));
            encoded = encoded @ body
        in retP encoded))"

section \<open>Decoding\<close>

definition bad_frame :: "string \<Rightarrow> fault" where
  "bad_frame msg = Throw (FMXPException ERR_INVALID_FRAME msg)"

definition decodeBody :: "bytes \<Rightarrow> fault + Frame" where
  "decodeBody body =
    bindE (checkE (\<not> length body < BODY_HEADER_SIZE) (bad_frame ''Body too small'')) (\<lambda>_.
    bindE (getBodyRid body) (\<lambda>ri.
    bindE (getBodyFid body) (\<lambda>fi.
    bindE (getBodySsid body) (\<lambda>ss.
    bindE (getBodyFlags body) (\<lambda>fl.
    bindE (getBodyStatus body) (\<lambda>st.
    bindE (getBodyPathLen body) (\<lambda>pathLen.
    bindE (checkE (\<not> BODY_HEADER_SIZE + unat pathLen > length body)
            (bad_frame ''Invalid path length'')) (\<lambda>_.
    bindE (bindE (getBodyPathPtr body) (\<lambda>p. buffer_at p (unat pathLen))) (\<lambda>pa.
    let dataLen = length body - BODY_HEADER_SIZE - unat pathLen in
    bindE (bindE (getBodyDataPtr body) (\<lambda>p. buffer_at p dataLen)) (\<lambda>bodyData.
    Inr \<lparr>fid = fi, rid = ri, ssid = ss, status = st, flags = fl, path = pa,
         data = bodyData\<rparr>))))))))))"

definition decodeFrame :: "openssl \<Rightarrow> bytes \<Rightarrow> bool \<Rightarrow> bytes \<Rightarrow> Frame crypto" where
  "decodeFrame ossl encoded encrypted key =
    seqP (checkP (\<not> length encoded < HEADER_SIZE) (bad_frame ''Invalid frame size''))
    (seqP (checkP (validateProtocol encoded) (bad_frame ''Invalid protocol''))
    (bindP (liftP (\<lambda>_. getFrameVersion encoded)) (\<lambda>version.
     seqP (checkP (version = FMXP_VERSION) (bad_frame ''Protocol version mismatch''))
    (bindP (liftP (\<lambda>_. getFrameBodySize encoded)) (\<lambda>bodySize.
     seqP (checkP (unat bodySize = length encoded - HEADER_SIZE)
            (bad_frame ''Frame body size mismatch''))
    (bindP (liftP (\<lambda>_. bindE (getFrameBodyPtr encoded) (\<lambda>p. buffer_at p (unat bodySize)))) (\<lambda>raw.
     bindP (if encrypted then aesDecrypt ossl raw key else retP raw) (\<lambda>body.
     liftP (\<lambda>_. decodeBody body)))))))))"

end
