(* ===== verification/Frame_Laws.thy ===== *)
theory Frame_Laws
  imports Frame
begin

text \<open>
  What \<open>encodeFrame\<close> and \<open>decodeFrame\<close> guarantee: the layout of an encoded frame, the round
  trip in both directions, the errors, and what happens to a path too long for its length field.
\<close>

section \<open>Layout\<close>

lemma encodeBody_layout:
  "encodeBody f r = u32ToStr (rid f) @ u32ToStr (if r = 0 then fid f else r) @ u64ToStr (ssid f)
    @ [flags f] @ [status f] @ u16ToStr (word_of_nat (length (path f))) @ path f @ data f"
  by (simp add: encodeBody_def u8ToStr_form Let_def)

lemma length_encodeBody [simp]: "length (encodeBody f r) = 20 + length (path f) + length (data f)"
  by (simp add: encodeBody_layout u16.enc_length u32.enc_length u64.enc_length)

definition header_of :: "nat \<Rightarrow> bytes" where
  "header_of n = lit ''fmxp'' @ [FMXP_VERSION] @ u32ToStr (word_of_nat n)"

lemma length_header_of [simp]: "length (header_of n) = 9"
  by (simp add: header_of_def u32.enc_length)

lemma encodeFrame_plain:
  "encodeFrame ossl f False key r s =
    (Inr (header_of (length (encodeBody f r)) @ encodeBody f r), s)"
  by (simp add: encodeFrame_def header_of_def prog_simps bindP_def Let_def u8ToStr_form)

lemma encodeFrame_encrypted:
  "encodeFrame ossl f True key r s =
    (case aesEncrypt ossl (encodeBody f r) key s of
       (Inl e, s') \<Rightarrow> (Inl e, s')
     | (Inr c, s') \<Rightarrow> (Inr (header_of (length c) @ c), s'))"
  by (simp add: encodeFrame_def header_of_def prog_simps bindP_def Let_def u8ToStr_form
      split: prod.split sum.split)

section \<open>Decoding a body\<close>

lemma ptr_add_append [simp]: "length xs = n \<Longrightarrow> ptr_add (xs @ ys) n = Inr ys"
  by (auto simp: ptr_add_def)

lemma ptr_add_prefix: "length xs = m \<Longrightarrow> ptr_add (xs @ ys) (m + n) = ptr_add ys n"
  by (auto simp: ptr_add_def)

lemmas body_accessors = getBodyRid_def getBodyFid_def getBodySsid_def getBodyFlags_def
  getBodyStatus_def getBodyPathLen_def getBodyPathPtr_def getBodyDataPtr_def

lemma body_fields:
  fixes ri fi :: u32 and ss :: u64 and pl :: u16
  assumes "b = u32ToStr ri @ u32ToStr fi @ u64ToStr ss @ [fl] @ [st] @ u16ToStr pl @ rest"
  shows "getBodyRid b = Inr ri" "getBodyFid b = Inr fi" "getBodySsid b = Inr ss"
    "getBodyFlags b = Inr fl" "getBodyStatus b = Inr st" "getBodyPathLen b = Inr pl"
    "getBodyPathPtr b = Inr rest" "length b = 20 + length rest"
    "getBodyDataPtr b = ptr_add rest (unat pl)"
proof -
  note len = u16.enc_length u32.enc_length u64.enc_length
  show "getBodyRid b = Inr ri" by (simp add: assms getBodyRid_def u32.dec_enc_append)
  show "getBodyFid b = Inr fi"
    by (simp add: assms getBodyFid_def u32.dec_enc_append ptr_add_append len)
  have "b = (u32ToStr ri @ u32ToStr fi) @ u64ToStr ss @ [fl] @ [st] @ u16ToStr pl @ rest"
    by (simp add: assms)
  then show "getBodySsid b = Inr ss"
    by (simp only: getBodySsid_def) (simp add: ptr_add_def u64.dec_enc_append len)
  show "length b = 20 + length rest" by (simp add: assms len)
  show "getBodyFlags b = Inr fl" "getBodyStatus b = Inr st"
    by (simp_all add: assms getBodyFlags_def getBodyStatus_def ptr_add_def deref_def len)
  show pl: "getBodyPathLen b = Inr pl"
    by (simp add: assms getBodyPathLen_def ptr_add_def u16.dec_enc_append len)
  show "getBodyPathPtr b = Inr rest"
    by (simp add: assms getBodyPathPtr_def ptr_add_def len BODY_HEADER_SIZE_def)
  show "getBodyDataPtr b = ptr_add rest (unat pl)"
    using ptr_add_prefix
      [of "u32ToStr ri @ u32ToStr fi @ u64ToStr ss @ [fl] @ [st] @ u16ToStr pl" 20 rest "unat pl"]
    by (simp add: getBodyDataPtr_def pl) (simp add: assms len BODY_HEADER_SIZE_def)
qed

text \<open>A body whose length field says \<open>n\<close>: the path is the first \<open>n\<close> bytes after the header.\<close>

lemma decodeBody_fields:
  fixes ri fi :: u32 and ss :: u64 and pl :: u16
  assumes "b = u32ToStr ri @ u32ToStr fi @ u64ToStr ss @ [fl] @ [st] @ u16ToStr pl @ rest"
  shows "decodeBody b =
    (if unat pl \<le> length rest
     then Inr \<lparr>fid = fi, rid = ri, ssid = ss, status = st, flags = fl,
               path = take (unat pl) rest, data = drop (unat pl) rest\<rparr>
     else Inl (bad_frame ''Invalid path length''))"
  using body_fields [OF assms]
  by (auto simp: decodeBody_def checkE_def BODY_HEADER_SIZE_def ptr_add_def buffer_at_def Let_def)

text \<open>Every 20 bytes are some values of the fixed fields.\<close>

lemma body_split:
  assumes "20 \<le> length b"
  obtains ri fi :: u32 and ss :: u64 and fl st and pl :: u16 and rest where
    "b = u32ToStr ri @ u32ToStr fi @ u64ToStr ss @ [fl] @ [st] @ u16ToStr pl @ rest"
proof -
  have L: "4 \<le> length b" "4 \<le> length (drop 4 b)" "8 \<le> length (drop 8 b)" "2 \<le> length (drop 18 b)"
    using assms by (simp_all add: le_diff_conv2)
  obtain ri where 1: "b = u32ToStr ri @ drop 4 b" using u32.dec_split [OF L(1)] by auto
  obtain fi where 2: "drop 4 b = u32ToStr fi @ drop 8 b" using u32.dec_split [OF L(2)] by auto
  obtain ss where 3: "drop 8 b = u64ToStr ss @ drop 16 b" using u64.dec_split [OF L(3)] by auto
  have 4: "drop 16 b = [b ! 16] @ drop 17 b" and 5: "drop 17 b = [b ! 17] @ drop 18 b"
    using drop_one [of 16 b] drop_one [of 17 b] assms by simp_all
  obtain pl where 6: "drop 18 b = u16ToStr pl @ drop 20 b"
    using u16.dec_split [OF L(4)] by auto
  have "b = u32ToStr ri @ u32ToStr fi @ u64ToStr ss @ [b ! 16] @ [b ! 17] @ u16ToStr pl @ drop 20 b"
    using 1 2 3 4 5 6 by metis
  then show thesis by (rule that)
qed

lemma decodeBody_small: "length b < 20 \<Longrightarrow> decodeBody b = Inl (bad_frame ''Body too small'')"
  by (simp add: decodeBody_def BODY_HEADER_SIZE_def)

lemma decodeBody_fault:
  assumes "decodeBody b = Inl e"
  obtains m where "e = bad_frame m"
proof (cases "length b < 20")
  case True
  with assms that show thesis by (auto simp: decodeBody_small)
next
  case False
  then have "20 \<le> length b" by simp
  then show thesis
    by (rule body_split) (use assms that in \<open>auto simp: decodeBody_fields split: if_splits\<close>)
qed

lemma decodeBody_encodes:
  assumes "decodeBody b = Inr f"
  shows "encodeBody f 0 = b"
proof -
  have len: "20 \<le> length b"
    using assms decodeBody_small [of b] by (cases "length b < 20") auto
  obtain ri fi :: u32 and ss :: u64 and fl st and pl :: u16 and rest where
    b: "b = u32ToStr ri @ u32ToStr fi @ u64ToStr ss @ [fl] @ [st] @ u16ToStr pl @ rest"
    using body_split [OF len] by metis
  show ?thesis
    using assms unfolding decodeBody_fields [OF b]
    by (auto simp: encodeBody_layout b min_def split: if_splits)
qed

lemma decodeBody_path:
  assumes "decodeBody b = Inr f"
  shows "length (path f) < 2 ^ 16"
proof -
  have len: "20 \<le> length b"
    using assms decodeBody_small [of b] by (cases "length b < 20") auto
  obtain ri fi :: u32 and ss :: u64 and fl st and pl :: u16 and rest where
    b: "b = u32ToStr ri @ u32ToStr fi @ u64ToStr ss @ [fl] @ [st] @ u16ToStr pl @ rest"
    using body_split [OF len] by metis
  have "length (path f) \<le> unat pl"
    using assms unfolding decodeBody_fields [OF b] by (auto split: if_splits)
  also have "unat pl < 2 ^ 16" using unsigned_less [of pl, where ?'a = nat] by simp
  finally show ?thesis .
qed

lemma decodeBody_encodeBody:
  "decodeBody (encodeBody f r) =
    (let n = length (path f) mod 2 ^ 16 in
     Inr (f\<lparr>fid := if r = 0 then fid f else r, path := take n (path f),
            data := drop n (path f) @ data f\<rparr>))"
proof -
  have n: "unat (word_of_nat (length (path f)) :: u16) = length (path f) mod 2 ^ 16"
    by (simp add: unat_of_nat take_bit_eq_mod)
  have le: "length (path f) mod 2 ^ 16 \<le> length (path f)" by (rule mod_less_eq_dividend)
  show ?thesis
    unfolding decodeBody_fields [OF encodeBody_layout] n Let_def
    using le by (cases f) simp
qed

section \<open>Decoding a frame\<close>

lemma header_of_fields:
  "validateProtocol (header_of n @ rest)" "getFrameVersion (header_of n @ rest) = Inr FMXP_VERSION"
  "getFrameBodySize (header_of n @ rest) = Inr (word_of_nat n)"
  "getFrameBodyPtr (header_of n @ rest) = Inr rest"
proof -
  have lit: "lit ''fmxp'' = [102, 109, 120, 112]" by (simp add: lit_def of_char_def)
  show "validateProtocol (header_of n @ rest)"
    by (simp add: validateProtocol_def header_of_def u32.enc_length)
  show "getFrameVersion (header_of n @ rest) = Inr FMXP_VERSION"
    by (simp add: getFrameVersion_def header_of_def ptr_add_def deref_def)
  have "header_of n @ rest = (lit ''fmxp'' @ [FMXP_VERSION]) @ u32ToStr (word_of_nat n) @ rest"
    by (simp add: header_of_def)
  then show "getFrameBodySize (header_of n @ rest) = Inr (word_of_nat n)"
    by (simp only: getFrameBodySize_def) (simp add: ptr_add_def u32.dec_enc_append)
  show "getFrameBodyPtr (header_of n @ rest) = Inr rest"
    by (simp add: getFrameBodyPtr_def HEADER_SIZE_def)
qed

lemma decodeFrame_header:
  assumes "length body < 2 ^ 32"
  shows "decodeFrame ossl (header_of (length body) @ body) enc key s =
    (case (if enc then aesDecrypt ossl body key else retP body) s of
       (Inl e, s') \<Rightarrow> (Inl e, s') | (Inr b, s') \<Rightarrow> (decodeBody b, s'))"
  using assms
  by (simp add: decodeFrame_def header_of_fields prog_simps bindP_def HEADER_SIZE_def
      buffer_at_def unat_of_nat_small split: prod.split sum.split)

lemma decodeFrame_plain:
  "length b < 2 ^ 32 \<Longrightarrow> decodeFrame ossl (header_of (length b) @ b) False k s = (decodeBody b, s)"
  by (simp add: decodeFrame_header retP_def)

lemma header_of_split:
  assumes "9 \<le> length d" "validateProtocol d" "getFrameVersion d = Inr FMXP_VERSION"
    "getFrameBodySize d = Inr n" "unat n = length d - 9"
  shows "d = header_of (length (drop 9 d)) @ drop 9 d"
proof -
  have 1: "d = lit ''fmxp'' @ drop 4 d"
    using assms(2) append_take_drop_id [of 4 d] by (simp add: validateProtocol_def)
  have 2: "drop 4 d = [FMXP_VERSION] @ drop 5 d"
    using assms(1,3) drop_one [of 4 d]
    by (simp add: getFrameVersion_def ptr_add_def deref_def)
  have 3: "drop 5 d = u32ToStr n @ drop 9 d"
  proof -
    have "ptrToU32 (drop 5 d) = Inr n"
      using assms(1,4) by (simp add: getFrameBodySize_def ptr_add_def)
    then show ?thesis
      using u32.dec_eq_Inr [of "drop 5 d" n] append_take_drop_id [of 4 "drop 5 d"] by simp
  qed
  have "word_of_nat (length (drop 9 d)) = n"
    by (simp add: assms(5) [symmetric])
  then show ?thesis using 1 2 3 by (simp add: header_of_def)
qed

text \<open>Either the header is rejected, or the input is a header of this version and its body.\<close>

lemma decodeFrame_cases:
  obtains "\<exists>m. decodeFrame ossl d enc key s = (Inl (bad_frame m), s)"
  | body where "d = header_of (length body) @ body" "length body < 2 ^ 32"
proof (cases "9 \<le> length d \<and> validateProtocol d")
  case False
  then show thesis by (intro that(1)) (auto simp: decodeFrame_def prog_simps bindP_def HEADER_SIZE_def)
next
  case True
  then have "4 \<le> length (drop 5 d)" by (simp add: le_diff_conv2)
  with True obtain v n where v: "getFrameVersion d = Inr v" and n: "getFrameBodySize d = Inr n"
    using u32.dec_total [of "drop 5 d"]
    by (cases "drop 4 d") (auto simp: getFrameVersion_def getFrameBodySize_def ptr_add_def deref_def)
  show thesis
  proof (cases "v = FMXP_VERSION \<and> unat n = length d - 9")
    case False
    then show thesis
      using True v n by (intro that(1)) (auto simp: decodeFrame_def prog_simps bindP_def HEADER_SIZE_def)
  next
    case ok: True
    have "d = header_of (length (drop 9 d)) @ drop 9 d"
      by (rule header_of_split) (use True v n ok in auto)
    moreover have "length (drop 9 d) < 2 ^ 32" using ok unsigned_less [of n, where ?'a = nat] by simp
    ultimately show thesis by (rule that(2))
  qed
qed

lemma decodeFrame_accepts:
  assumes "decodeFrame ossl d enc key s = (Inr f, s')"
  obtains body b where "d = header_of (length body) @ body" "length body < 2 ^ 32"
    "decodeBody b = Inr f" "if enc then aesDecrypt ossl body key s = (Inr b, s') else b = body \<and> s' = s"
proof (cases rule: decodeFrame_cases [of ossl d enc key s])
  case 1
  with assms show thesis by auto
next
  case (2 body)
  show thesis
    using assms that [OF 2] unfolding decodeFrame_header [OF 2(2), folded 2(1)]
    by (auto simp: retP_def split: prod.splits sum.splits if_splits)
qed

lemma aesDecrypt_length:
  assumes "gcm_laws ossl" "aesDecrypt ossl c k s = (Inr p, s')"
  shows "28 + length p \<le> length c" "length c < 2 ^ 31 \<Longrightarrow> 28 + length p = length c"
proof -
  obtain t1 t2 out fin where r: "28 \<le> length c" "p = out @ fin"
    "DecryptUpdate ossl t1 k (take 12 c) (drop 28 c) (c_int (length c - 28)) = Some out"
    "DecryptFinal ossl t2 k (take 12 c) (drop 28 c) (take 16 (drop 12 c)) = Some fin"
    by (rule aesDecrypt_result [OF assms(2)])
  have "length p = nat (c_int (length c - 28))"
    using gcm_lawsD(5) [OF assms(1) r(3)] gcm_lawsD(6) [OF assms(1) r(4)] r(2) by simp
  then show "28 + length p \<le> length c" "length c < 2 ^ 31 \<Longrightarrow> 28 + length p = length c"
    using r(1) c_int_le [of "length c - 28"] by (simp_all add: c_int_small)
qed

text \<open>What one end encrypts, the other opens: the body arrives as it was written.\<close>

lemma encrypted_body_arrives:
  assumes "gcm_laws ossl" "gcm_reliable ossl" "length k = 32"
    and "length (path f) + length (data f) + 20 < 2 ^ 31"
  shows "\<exists>e s1. encodeFrame ossl f True k r s = (Inr e, s1)
    \<and> length e = 57 + length (path f) + length (data f)
    \<and> (\<forall>s2. \<exists>s3. decodeFrame ossl e True k s2 = (decodeBody (encodeBody f r), s3))"
proof -
  have len: "length (encodeBody f r) < 2 ^ 31" using assms(4) by simp
  obtain c s1 where c: "aesEncrypt ossl (encodeBody f r) k s = (Inr c, s1)"
      "length c = length (encodeBody f r) + 28"
    and d: "\<And>s2. \<exists>s3. aesDecrypt ossl c k s2 = (Inr (encodeBody f r), s3)"
    using aes_decrypts_encrypted [OF assms(1-3) len, of s] by blast
  have e: "encodeFrame ossl f True k r s = (Inr (header_of (length c) @ c), s1)"
    by (simp add: encodeFrame_encrypted c(1))
  have lc: "length c < 2 ^ 32" using c(2) assms(4) by simp
  have "\<exists>s3. decodeFrame ossl (header_of (length c) @ c) True k s2
      = (decodeBody (encodeBody f r), s3)" for s2
    using d [of s2] unfolding decodeFrame_header [OF lc] by auto
  then show ?thesis using e c(2) by auto
qed

lemma encrypted_decodes:
  assumes "gcm_laws ossl" "gcm_reliable ossl" "length k = 32"
    and "length (path f) < 2 ^ 16" "length (path f) + length (data f) + 20 < 2 ^ 31"
  shows "\<exists>e s1. encodeFrame ossl f True k r s = (Inr e, s1)
    \<and> length e = 57 + length (path f) + length (data f)
    \<and> (\<forall>s2. \<exists>s3. decodeFrame ossl e True k s2
          = (Inr (f\<lparr>fid := if r = 0 then fid f else r\<rparr>), s3))"
proof -
  have "decodeBody (encodeBody f r) = Inr (f\<lparr>fid := if r = 0 then fid f else r\<rparr>)"
    using assms(4) by (simp add: decodeBody_encodeBody Let_def)
  then show ?thesis using encrypted_body_arrives [OF assms(1-3,5), of r s] by simp
qed

text \<open>
  On any input, \<open>decodeFrame\<close> reads inside its buffers, and it fails only with an
  \<open>FMXPException\<close> of code \<open>ERR_INVALID_FRAME\<close> or with a \<open>std::runtime_error\<close> of the decryption.
\<close>

lemma decodeFrame_fault_kinds:
  assumes "gcm_laws ossl" "decodeFrame ossl d enc k s = (Inl e, s')"
  shows "(\<exists>m. e = Throw (FMXPException ERR_INVALID_FRAME m)) \<or> (\<exists>m. e = Throw (RuntimeError m))"
proof (cases rule: decodeFrame_cases [of ossl d enc k s])
  case 1
  with assms(2) show ?thesis by (auto simp: bad_frame_def)
next
  case (2 body)
  show ?thesis
    using assms(2) aesDecrypt_fault [OF assms(1)]
    unfolding decodeFrame_header [OF 2(2), folded 2(1)]
    by (auto simp: retP_def bad_frame_def split: prod.splits sum.splits if_splits
        elim!: decodeBody_fault)
qed

section \<open>The header at the front of a buffer\<close>

text \<open>The size of the body the first nine bytes announce.\<close>

definition body_len :: "bytes \<Rightarrow> nat" where
  "body_len buf = (case getFrameBodySize buf of Inr n \<Rightarrow> unat n | Inl e \<Rightarrow> 0)"

lemma getFrameBodySize_defined: "9 \<le> length buf \<Longrightarrow> \<exists>n. getFrameBodySize buf = Inr n"
  using u32.dec_total [of "drop 5 buf"] by (auto simp: getFrameBodySize_def ptr_add_def le_diff_conv2)

lemma ptrToU32_append: "4 \<le> length p \<Longrightarrow> ptrToU32 (p @ q) = ptrToU32 p"
  using u32.dec_prefix [of p] u32.dec_prefix [of "p @ q"] by simp

lemma header_append:
  "9 \<le> length buf \<Longrightarrow> validateProtocol (buf @ rest) = validateProtocol buf"
  "9 \<le> length buf \<Longrightarrow> body_len (buf @ rest) = body_len buf"
  by (simp_all add: validateProtocol_def body_len_def getFrameBodySize_def ptr_add_def
      ptrToU32_append le_diff_conv2)

section \<open>Properties\<close>

text \<open>
  C26: a frame whose path fits its 16-bit length field and whose body fits its 32-bit field,
  encoded in the clear, decodes to itself, with the replacement frame id in place of its own
  when one is given.
\<close>

theorem decode_encode_plain:
  assumes "length (path f) < 2 ^ 16" "length (path f) + length (data f) + 20 < 2 ^ 32"
  shows "\<exists>e. encodeFrame ossl f False k r s = (Inr e, s)
    \<and> length e = 29 + length (path f) + length (data f)
    \<and> decodeFrame ossl e False k s = (Inr (f\<lparr>fid := if r = 0 then fid f else r\<rparr>), s)"
proof -
  have "decodeBody (encodeBody f r) = Inr (f\<lparr>fid := if r = 0 then fid f else r\<rparr>)"
    using assms(1) by (simp add: decodeBody_encodeBody Let_def)
  moreover have "length (encodeBody f r) < 2 ^ 32" using assms(2) by simp
  ultimately show ?thesis
    by (intro exI conjI, unfold encodeFrame_plain) (rule refl, simp, simp only: decodeFrame_plain)
qed

text \<open>
  C14: the same under encryption: with a 32-byte key and an OpenSSL that behaves as documented,
  the peer that decodes what \<open>encodeFrame\<close> produced reads the frame back, and the encoding has
  57 bytes more than path and data.
\<close>

theorem decode_encode_encrypted:
  assumes "gcm_laws ossl" "gcm_reliable ossl" "length k = 32"
    and "length (path f) < 2 ^ 16" "length (path f) + length (data f) + 20 < 2 ^ 31"
  shows "\<exists>e s1. encodeFrame ossl f True k r s = (Inr e, s1)
    \<and> length e = 57 + length (path f) + length (data f)
    \<and> (\<forall>s2. \<exists>s3. decodeFrame ossl e True k s2
          = (Inr (f\<lparr>fid := if r = 0 then fid f else r\<rparr>), s3))"
  by (rule encrypted_decodes [OF assms])

text \<open>
  C25: \<open>decodeFrame\<close> accepts only what \<open>encodeFrame\<close> writes. In the clear, the input is exactly the
  encoding of the frame returned, so no two inputs are read as the same frame. Encrypted, the input
  is a header and a packet that opens, under the key, to the very body that \<open>encodeFrame\<close> encrypts
  for this frame; the packet itself is not determined by the frame, because each encryption draws a
  nonce.
\<close>

theorem encode_decode:
  assumes "decodeFrame ossl d enc k s = (Inr f, s')"
  shows "if enc
    then \<exists>c. d = header_of (length c) @ c \<and> aesDecrypt ossl c k s = (Inr (encodeBody f 0), s')
      \<and> (\<forall>t e t'. encodeFrame ossl f True k 0 t = (Inr e, t') \<longleftrightarrow>
            (\<exists>p. aesEncrypt ossl (encodeBody f 0) k t = (Inr p, t') \<and> e = header_of (length p) @ p))
    else encodeFrame ossl f False k 0 s' = (Inr d, s')"
proof -
  obtain body b where d: "d = header_of (length body) @ body" "decodeBody b = Inr f"
    "if enc then aesDecrypt ossl body k s = (Inr b, s') else b = body \<and> s' = s"
    by (rule decodeFrame_accepts [OF assms])
  moreover have "encodeBody f 0 = b" by (rule decodeBody_encodes [OF d(2)])
  ultimately show ?thesis
    by (auto simp: encodeFrame_plain encodeFrame_encrypted split: prod.split sum.split
        intro!: exI [of _ body])
qed

text \<open>
  C40: a path of 65536 bytes or more does not survive, encrypted or not: its length is cut to 16
  bits, so the decoder takes only the first \<open>length mod 65536\<close> bytes as the path and the rest as data.
\<close>

theorem long_path_spills_into_data:
  assumes "2 ^ 16 \<le> length (path f)" "length (path f) + length (data f) + 20 < 2 ^ 31"
    and "enc \<longrightarrow> gcm_laws ossl \<and> gcm_reliable ossl \<and> length k = 32"
  shows "\<exists>e g s1. encodeFrame ossl f enc k r s = (Inr e, s1)
    \<and> (\<forall>s2. \<exists>s3. decodeFrame ossl e enc k s2 = (Inr g, s3))
    \<and> g = f\<lparr>fid := if r = 0 then fid f else r, path := take (length (path f) mod 65536) (path f),
            data := drop (length (path f) mod 65536) (path f) @ data f\<rparr>
    \<and> path g \<noteq> path f"
proof -
  let ?g = "f\<lparr>fid := if r = 0 then fid f else r, path := take (length (path f) mod 65536) (path f),
            data := drop (length (path f) mod 65536) (path f) @ data f\<rparr>"
  have "length (path f) mod 65536 < length (path f)"
    using assms(1) by (intro less_le_trans [OF mod_less_divisor]) simp_all
  then have differs: "path ?g \<noteq> path f" by (simp add: take_eq_all_iff_length)
  have body: "decodeBody (encodeBody f r) = Inr ?g" by (simp add: decodeBody_encodeBody Let_def)
  have "\<exists>e s1. encodeFrame ossl f enc k r s = (Inr e, s1)
    \<and> (\<forall>s2. \<exists>s3. decodeFrame ossl e enc k s2 = (Inr ?g, s3))"
  proof (cases enc)
    case True
    then show ?thesis using encrypted_body_arrives [OF _ _ _ assms(2), of ossl k r s] assms(3) body by auto
  next
    case False
    have "length (encodeBody f r) < 2 ^ 32" using assms(2) by simp
    note dec = decodeFrame_plain [OF this, of ossl k] body
    show ?thesis using False
      by (intro exI [of _ "header_of (length (encodeBody f r)) @ encodeBody f r"] exI [of _ s])
        (simp only: encodeFrame_plain dec, simp)
  qed
  then show ?thesis using differs by blast
qed

text \<open>
  C27: what \<open>decodeFrame\<close> returns is well formed, whatever it was given: the path fits its 16-bit
  length field, and path and data fit into the input and fill it up to the 29 bytes of the headers
  and, under encryption, the 28 bytes of nonce and tag (as long as an \<open>int\<close> holds the length).
\<close>

theorem decoded_frame_sizes:
  assumes "gcm_laws ossl" "decodeFrame ossl d enc key s = (Inr f, s')"
  shows "length (path f) < 2 ^ 16
    \<and> (if enc then 57 else 29) + length (path f) + length (data f) \<le> length d
    \<and> (length d < 2 ^ 31 \<longrightarrow> (if enc then 57 else 29) + length (path f) + length (data f) = length d)"
proof -
  obtain body b where d: "d = header_of (length body) @ body" and b: "decodeBody b = Inr f"
    and dec: "if enc then aesDecrypt ossl body key s = (Inr b, s') else b = body \<and> s' = s"
    by (rule decodeFrame_accepts [OF assms(2)])
  have len: "length b = 20 + length (path f) + length (data f)"
    using length_encodeBody [of f 0] decodeBody_encodes [OF b] by simp
  have "if enc then 28 + length b \<le> length body \<and> (length body < 2 ^ 31 \<longrightarrow> 28 + length b = length body)
      else length b = length body"
    using dec aesDecrypt_length [OF assms(1), of body key s b s'] by auto
  then show ?thesis using d len decodeBody_path [OF b] by auto
qed

section \<open>Concrete frames\<close>

definition sample_frame :: Frame where
  "sample_frame = makeFrame 7 STATUS_REQ 0 (lit ''/echo'') [1, 2, 3] 9 77"

lemma sample_frame_fields [simp]:
  "path sample_frame = lit ''/echo''" "data sample_frame = [1, 2, 3]" "fid sample_frame = 7"
  by (simp_all add: sample_frame_def makeFrame_def)

lemma sample_frame_id: "sample_frame\<lparr>fid := 7\<rparr> = sample_frame"
  by (simp add: sample_frame_def makeFrame_def)

theorem decode_encode_plain_witness:
  "\<exists>e. encodeFrame sample_openssl sample_frame False [] 5 no_crypto = (Inr e, no_crypto)
    \<and> length e = 37
    \<and> decodeFrame sample_openssl e False [] no_crypto = (Inr (sample_frame\<lparr>fid := 5\<rparr>), no_crypto)"
  using decode_encode_plain [of sample_frame sample_openssl "[]" 5 no_crypto] by simp

theorem decode_encode_encrypted_witness:
  "\<exists>e s1. encodeFrame sample_openssl sample_frame True (replicate 32 1) 5 no_crypto = (Inr e, s1)
    \<and> length e = 65
    \<and> (\<forall>s2. \<exists>s3. decodeFrame sample_openssl e True (replicate 32 1) s2
          = (Inr (sample_frame\<lparr>fid := 5\<rparr>), s3))"
  using decode_encode_encrypted [of sample_openssl "replicate 32 1" sample_frame 5 no_crypto]
  by simp

definition empty_request :: bytes where
  "empty_request = [102, 109, 120, 112, 1, 0, 0, 0, 20,
     0, 0, 0, 1, 0, 0, 0, 2, 0, 0, 0, 0, 0, 0, 0, 3, 0, 0, 0, 0]"

lemma empty_request_decodes:
  "decodeFrame ossl empty_request False k s
    = (Inr \<lparr>fid = 2, rid = 1, ssid = 3, status = 0, flags = 0, path = [], data = []\<rparr>, s)"
  by (simp add: empty_request_def decodeFrame_def crypto_run HEADER_SIZE_def BODY_HEADER_SIZE_def
      FMXP_VERSION_def validateProtocol_def lit_def getFrameVersion_def getFrameBodySize_def
      getFrameBodyPtr_def ptr_add_def deref_def buffer_at_def decodeBody_def body_accessors
      ptrToU32_def ptrToU64_def ptrToU16_def be32_def be64_def be16_def)

theorem decoded_frame_sizes_witness:
  "decodeFrame sample_openssl empty_request False [] no_crypto
      = (Inr \<lparr>fid = 2, rid = 1, ssid = 3, status = 0, flags = 0, path = [], data = []\<rparr>, no_crypto)
    \<and> (29::nat) + 0 + 0 = length empty_request"
  using decoded_frame_sizes [OF sample_gcm(1) empty_request_decodes [of sample_openssl "[]" no_crypto]]
    empty_request_decodes [of sample_openssl "[]" no_crypto]
  by (simp add: empty_request_def)

theorem encode_decode_witness:
  "encodeFrame sample_openssl \<lparr>fid = 2, rid = 1, ssid = 3, status = 0, flags = 0, path = [], data = []\<rparr>
     False [] 0 no_crypto = (Inr empty_request, no_crypto)
   \<and> (\<exists>d c s s'. decodeFrame sample_openssl d True (replicate 32 1) s = (Inr sample_frame, s')
     \<and> d = header_of (length c) @ c
     \<and> aesDecrypt sample_openssl c (replicate 32 1) s = (Inr (encodeBody sample_frame 0), s'))"
proof -
  have plain: "encodeFrame sample_openssl \<lparr>fid = 2, rid = 1, ssid = 3, status = 0, flags = 0, path = [], data = []\<rparr>
     False [] 0 no_crypto = (Inr empty_request, no_crypto)"
    using encode_decode [OF empty_request_decodes [of sample_openssl "[]" no_crypto]] by simp
  obtain d s' where "decodeFrame sample_openssl d True (replicate 32 1) no_crypto = (Inr sample_frame, s')"
    using encrypted_decodes [of sample_openssl "replicate 32 1" sample_frame 0 no_crypto]
    by (simp add: sample_frame_id) blast
  from encode_decode [OF this] this plain show ?thesis by auto
qed

theorem long_path_spills_into_data_witness:
  "\<exists>e g s1. encodeFrame sample_openssl (makeFrame 1 0 0 (replicate 65537 47) [] 1 0) True (replicate 32 1) 0 no_crypto
      = (Inr e, s1)
    \<and> (\<forall>s2. \<exists>s3. decodeFrame sample_openssl e True (replicate 32 1) s2 = (Inr g, s3))
    \<and> path g = [47] \<and> length (data g) = 65536"
proof -
  let ?f = "makeFrame 1 0 0 (replicate 65537 47) [] 1 0"
  have f: "path ?f = replicate 65537 47" "data ?f = []" by (simp_all add: makeFrame_def)
  have "length (path ?f) mod 65536 = 1" unfolding f by simp
  then show ?thesis
    using long_path_spills_into_data [of ?f True sample_openssl "replicate 32 1" 0 no_crypto] f
    by fastforce
qed

end
