(* ===== verification/Host.thy ===== *)
theory Host
  imports Frame_Laws
begin

text \<open>
  What the two ends of the protocol share of the machine they run on. The operating system and
  OpenSSL are not part of the repository: they are the parameter \<open>host\<close>, a record of functions
  of the number of the call, so that every call may have another result. The \<open>world\<close> is what a
  thread changes there: calls made, bytes handed to sockets, descriptors closed.
  \<open>core/tools.cpp\<close> is here too.
\<close>

section \<open>Host and world\<close>

text \<open>
  \<open>h_send n fd len\<close> is the result of the \<open>n\<close>-th call of \<open>send\<close> with \<open>len\<close> bytes: the number of
  bytes taken, or a value \<open>\<le> 0\<close>. \<open>h_time n\<close> is the result of the \<open>n\<close>-th call of \<open>time\<close>. The
  process is taken to ignore \<open>SIGPIPE\<close>.
\<close>

record host =
  h_ssl :: openssl
  h_send :: "nat \<Rightarrow> int \<Rightarrow> nat \<Rightarrow> int"
  h_time :: "nat \<Rightarrow> u64"

record world =
  w_crypto :: crypto_state
  w_sends :: nat
  w_times :: nat
  w_out :: "(int \<times> bytes) list"
  w_closed :: "int list"

type_synonym 'a io = "(world, fault, 'a) prog"

definition crypto_io :: "'a crypto \<Rightarrow> 'a io" where
  "crypto_io m w = (case m (w_crypto w) of (r, c) \<Rightarrow> (r, w\<lparr>w_crypto := c\<rparr>))"

lemma crypto_io_world:
  "crypto_io m w = (r, w') \<Longrightarrow> w_sends w' = w_sends w \<and> w_out w' = w_out w
    \<and> w_closed w' = w_closed w \<and> w_times w' = w_times w"
  by (auto simp: crypto_io_def split: prod.splits)

lemma crypto_io_eq:
  "crypto_io m w = (r, w1) \<longleftrightarrow> (\<exists>k. m (w_crypto w) = (r, k) \<and> w1 = w\<lparr>w_crypto := k\<rparr>)"
  by (auto simp: crypto_io_def split: prod.splits)

text \<open>The bytes the kernel has accepted on a descriptor, in order.\<close>

definition wire :: "int \<Rightarrow> world \<Rightarrow> bytes" where
  "wire fd w = concat (map snd (filter (\<lambda>(f, _). f = fd) (w_out w)))"

text \<open>\<open>send(fd, p, n, 0)\<close>: at most the bytes passed are taken.\<close>

definition sys_send :: "host \<Rightarrow> int \<Rightarrow> bytes \<Rightarrow> world \<Rightarrow> int \<times> world" where
  "sys_send h fd bs w =
    (let sent = h_send h (w_sends w) fd (length bs);
         w = w\<lparr>w_sends := Suc (w_sends w)\<rparr>
     in (sent, if sent > 0 then w\<lparr>w_out := w_out w @ [(fd, take (nat sent) bs)]\<rparr> else w))"

definition sys_close :: "int \<Rightarrow> world \<Rightarrow> world" where
  "sys_close fd w = w\<lparr>w_closed := w_closed w @ [fd]\<rparr>"

text \<open>
  What the calls of \<open>recv\<close> return after one event: some chunks, then the end of the stream, no
  more data for now, or an error. (A peer that never pauses keeps the loop of \<open>recv\<close> going.)
\<close>

datatype recv_end = Disconnect | WouldBlock | SockError

text \<open>\<open>getTimestamp\<close>: \<open>time\<close> cut to 32 bits.\<close>

definition getTimestamp :: "host \<Rightarrow> world \<Rightarrow> u32 \<times> world" where
  "getTimestamp h w = (ucast (h_time h (w_times w)), w\<lparr>w_times := Suc (w_times w)\<rparr>)"

text \<open>\<open>slice(start, end)\<close> on the bytes of a buffer.\<close>

definition slice :: "bytes \<Rightarrow> nat \<Rightarrow> nat \<Rightarrow> fault + bytes" where
  "slice b start stop =
    (if start > stop \<or> stop > length b then Inl (Throw (OutOfRange ''Invalid slice range''))
     else Inr (take (stop - start) (drop start b)))"

lemma slice_simps [simp]:
  "n \<le> length b \<Longrightarrow> slice b 0 n = Inr (take n b)"
  "n \<le> length b \<Longrightarrow> slice b n (length b) = Inr (drop n b)"
  by (simp_all add: slice_def)

section \<open>Sending a whole message\<close>

text \<open>
  The loop \<open>while (total < encoded.size())\<close> of \<open>ClientConnection::sendFrame\<close>: false when a call
  of \<open>send\<close> fails.
\<close>

function send_all :: "host \<Rightarrow> int \<Rightarrow> bytes \<Rightarrow> world \<Rightarrow> bool \<times> world" where
  "send_all h fd bs w =
    (if bs = [] then (True, w)
     else case sys_send h fd bs w of (sent, w') \<Rightarrow>
       if sent \<le> 0 then (False, w') else send_all h fd (drop (nat sent) bs) w')"
  by pat_completeness auto
termination
  by (relation "measure (\<lambda>(h, fd, bs, w). length bs)") (auto simp: sys_send_def Let_def)

declare send_all.simps [simp del]

text \<open>All bytes, in order, reach the socket when the loop succeeds; a prefix when it fails.\<close>

lemma wire_sys_send:
  "sys_send h fd bs w = (sent, w') \<Longrightarrow>
    wire fd w' = wire fd w @ take (nat sent) bs \<and> w_crypto w' = w_crypto w \<and> w_closed w' = w_closed w
    \<and> w_times w' = w_times w"
  by (auto simp: sys_send_def wire_def Let_def)

lemma send_all_step:
  assumes "sys_send h fd bs w = (sent, v)"
  shows "send_all h fd bs w =
    (if bs = [] then (True, w) else if sent \<le> 0 then (False, v) else send_all h fd (drop (nat sent) bs) v)"
  using assms by (simp add: send_all.simps [of h fd bs w])

lemma send_all_wire:
  "send_all h fd bs w = (ok, w') \<Longrightarrow>
    (\<exists>rest. wire fd w' @ rest = wire fd w @ bs \<and> (ok \<longrightarrow> rest = []))
    \<and> w_crypto w' = w_crypto w \<and> w_closed w' = w_closed w \<and> w_times w' = w_times w"
proof (induction "length bs" arbitrary: bs w ok w' rule: less_induct)
  case less
  obtain sent v where v: "sys_send h fd bs w = (sent, v)" by (cases "sys_send h fd bs w")
  note step = wire_sys_send [OF v]
  show ?case
  proof (cases "bs = [] \<or> sent \<le> 0")
    case True
    then show ?thesis using less.prems step by (auto simp: send_all_step [OF v] split: if_splits)
  next
    case False
    then have go: "send_all h fd (drop (nat sent) bs) v = (ok, w')"
      and "length (drop (nat sent) bs) < length bs"
      using less.prems by (simp_all add: send_all_step [OF v])
    then obtain rest where "wire fd w' @ rest = wire fd v @ drop (nat sent) bs"
      "ok \<longrightarrow> rest = []" "w_crypto w' = w_crypto v" "w_closed w' = w_closed v" "w_times w' = w_times v"
      using less.hyps [OF _ go] by blast
    moreover have "wire fd v @ drop (nat sent) bs = wire fd w @ bs" using step by simp
    ultimately show ?thesis using step by auto
  qed
qed

text \<open>A kernel that always takes something.\<close>

definition sends_succeed :: "host \<Rightarrow> bool" where
  "sends_succeed h \<longleftrightarrow> (\<forall>n fd len. 0 < len \<longrightarrow> 0 < h_send h n fd len)"

lemma send_all_ok: "sends_succeed h \<Longrightarrow> fst (send_all h fd bs w)"
proof (induction "length bs" arbitrary: bs w rule: less_induct)
  case less
  obtain sent v where v: "sys_send h fd bs w = (sent, v)" by (cases "sys_send h fd bs w")
  have "bs \<noteq> [] \<Longrightarrow> 0 < sent"
    using v less.prems by (auto simp: sys_send_def Let_def sends_succeed_def)
  then show ?case using less.hyps [of "drop (nat sent) bs" v] less.prems
    by (cases "bs = []") (auto simp: send_all_step [OF v] send_all.simps [of h fd "[]"])
qed

text \<open>A socket on which every further call fails.\<close>

definition sends_fail_from :: "host \<Rightarrow> nat \<Rightarrow> bool" where
  "sends_fail_from h n \<longleftrightarrow> (\<forall>m \<ge> n. \<forall>fd len. h_send h m fd len \<le> 0)"

lemma send_all_fails:
  "sends_fail_from h (w_sends w) \<Longrightarrow> bs \<noteq> [] \<Longrightarrow>
    send_all h fd bs w = (False, w\<lparr>w_sends := Suc (w_sends w)\<rparr>)"
  by (auto simp: send_all.simps [of h fd bs w] sys_send_def Let_def sends_fail_from_def not_less)

end
