(* ===== verification/Framing.thy ===== *)
theory Framing
  imports Host
begin

text \<open>
  Frames as they travel between the two ends: \<open>sealed\<close> relates a frame to its encrypted encoding,
  within the receiver's size limit, and its lemmas say what a receiver sees at the front of its
  buffer. Both ends' parsers rest on them.
\<close>

lemma body_len_header: "n < 2 ^ 32 \<Longrightarrow> body_len (header_of n @ rest) = n"
  by (simp add: body_len_def header_of_fields unat_of_nat_small)

text \<open>The parameter \<open>fidReplacement\<close> of \<open>encodeFrame\<close> amounts to another frame.\<close>

definition renumber :: "u32 \<Rightarrow> Frame \<Rightarrow> Frame" where
  "renumber r f = f\<lparr>fid := if r = 0 then fid f else r\<rparr>"

lemma renumber_fields [simp]: "path (renumber r f) = path f" "data (renumber r f) = data f"
  "ssid (renumber r f) = ssid f" "rid (renumber r f) = rid f" "status (renumber r f) = status f"
  by (simp_all add: renumber_def)

lemma encodeFrame_renumber: "encodeFrame ossl f enc k r = encodeFrame ossl (renumber r f) enc k 0"
  by (simp add: encodeFrame_def encodeBody_def renumber_def)

definition sealed :: "openssl \<Rightarrow> bytes \<Rightarrow> u32 \<Rightarrow> Frame \<Rightarrow> bytes \<Rightarrow> bool" where
  "sealed ossl key maxSize f e \<longleftrightarrow> length (path f) < 2 ^ 16
    \<and> 57 + length (path f) + length (data f) \<le> unat maxSize
    \<and> 57 + length (path f) + length (data f) < 2 ^ 31
    \<and> (\<exists>s s'. encodeFrame ossl f True key 0 s = (Inr e, s'))"

lemma sealed_facts:
  assumes "gcm_laws ossl" "gcm_reliable ossl" "length key = 32" "sealed ossl key maxSize f e"
  shows "57 \<le> length e" "length e \<le> unat maxSize" "validateProtocol (e @ x)"
    "body_len (e @ x) + 9 = length e" "\<exists>s3. decodeFrame ossl e True key s2 = (Inr f, s3)"
proof -
  obtain s s' where enc: "encodeFrame ossl f True key 0 s = (Inr e, s')"
    using assms(4) by (auto simp: sealed_def)
  have len: "length (path f) < 2 ^ 16" "length (path f) + length (data f) + 20 < 2 ^ 31"
    using assms(4) by (auto simp: sealed_def)
  obtain e' where "encodeFrame ossl f True key 0 s = (Inr e', s')"
    "length e' = 57 + length (path f) + length (data f)"
    "\<forall>s2. \<exists>s3. decodeFrame ossl e' True key s2 = (Inr f, s3)"
    using encrypted_decodes [of ossl key f 0 s] assms(1-3) len enc by fastforce
  with enc have e: "length e = 57 + length (path f) + length (data f)"
    and dec: "\<And>s2. \<exists>s3. decodeFrame ossl e True key s2 = (Inr f, s3)" by auto
  show "57 \<le> length e" "length e \<le> unat maxSize" using e assms(4) by (auto simp: sealed_def)
  show "\<exists>s3. decodeFrame ossl e True key s2 = (Inr f, s3)" by (rule dec)
  obtain ct where ct: "e = header_of (length ct) @ ct"
    using enc by (auto simp: encodeFrame_encrypted split: prod.splits sum.splits)
  have "length e < 2 ^ 32" using e assms(4) by (auto simp: sealed_def)
  then have "body_len (header_of (length ct) @ ct @ x) = length ct" using ct by (intro body_len_header) simp
  then show "body_len (e @ x) + 9 = length e" using ct by simp
  show "validateProtocol (e @ x)" using header_of_fields(1) [of "length ct" "ct @ x"] ct by simp
qed

text \<open>No encoding begins another one.\<close>

lemma sealed_prefix:
  assumes "gcm_laws ossl" "gcm_reliable ossl" "length key = 32"
    and "sealed ossl key maxSize f e" "sealed ossl key maxSize g (e @ x)"
  shows "x = []"
  using sealed_facts(4) [OF assms(1-4), of x] sealed_facts(4) [OF assms(1-3,5), of "[]"] by simp

text \<open>With a usable key and library, every frame of legal size has an encoding.\<close>

lemma seal_exists:
  assumes "gcm_laws ossl" "gcm_reliable ossl" "length key = 32" "length (path f) < 2 ^ 16"
    and "57 + length (path f) + length (data f) \<le> unat maxSize"
    and "57 + length (path f) + length (data f) < 2 ^ 31"
  obtains e s' where "encodeFrame ossl f True key 0 s = (Inr e, s')" "sealed ossl key maxSize f e"
  using encrypted_decodes [of ossl key f 0 s] assms by (fastforce simp: sealed_def)

section \<open>A host for examples\<close>

text \<open>The library of \<open>Crypto_Laws\<close>, a socket that takes everything, a clock that stands.\<close>

definition sample_host :: host where
  "sample_host = \<lparr>h_ssl = sample_openssl, h_send = (\<lambda>n fd len. int len), h_time = (\<lambda>n. 1000)\<rparr>"

definition sample_world :: world where
  "sample_world = \<lparr>w_crypto = no_crypto, w_sends = 0, w_times = 0, w_out = [], w_closed = []\<rparr>"

lemma sample_host_laws [simp]:
  "gcm_laws (h_ssl sample_host)" "gcm_reliable (h_ssl sample_host)" "sends_succeed sample_host"
  by (simp_all add: sample_host_def sends_succeed_def)

end
