(* ===== verification/Server_Connection.thy ===== *)
theory Server_Connection
  imports Framing
begin

text \<open>
  \<open>server/structures.hpp\<close> and \<open>server/structures.cpp\<close>: requests, responses, and
  \<open>ClientConnection\<close>, the server's end of one connection: handshake, framing of the byte
  stream, replay check, sending and closing. A connection lives on the epoll thread; its state
  is threaded through together with the \<open>world\<close>.
\<close>

section \<open>Data\<close>

datatype CloseReason =
  NATURAL | ENCRYPTION_ERROR | INVALID_REQUEST | REQUEST_TOO_LONG | SOCKET_ERROR

datatype ConnectionState = HANDSHAKE | ACTIVE | CLOSED

record IOFrame =
  io_frame :: Frame
  io_connectionID :: u64

record Request =
  rq_connID :: u64
  rq_path :: bytes
  rq_data :: bytes
  rq_rid :: u32

record Response =
  rs_connID :: u64
  rs_path :: bytes
  rs_data :: bytes
  rs_status :: u8
  rs_rid :: u32

definition Request_of :: "IOFrame \<Rightarrow> Request" where
  "Request_of io = \<lparr>rq_connID = io_connectionID io, rq_path = path (io_frame io),
     rq_data = data (io_frame io), rq_rid = rid (io_frame io)\<rparr>"

definition Response_to :: "Request \<Rightarrow> bytes \<Rightarrow> u8 \<Rightarrow> Response" where
  "Response_to request d st = \<lparr>rs_connID = rq_connID request, rs_path = rq_path request,
     rs_data = d, rs_status = st, rs_rid = rq_rid request\<rparr>"

definition Response_push :: "u64 \<Rightarrow> bytes \<Rightarrow> bytes \<Rightarrow> u32 \<Rightarrow> u8 \<Rightarrow> Response" where
  "Response_push connectionID pa d ri st = \<lparr>rs_connID = connectionID, rs_path = pa,
     rs_data = d, rs_status = st, rs_rid = ri\<rparr>"

text \<open>
  The members of \<open>ClientConnection\<close>. The two callbacks are user code: \<open>_onNewRequest\<close> and
  \<open>_onClose\<close> are the logs of what they were called with, \<open>c_hasOnClose\<close> says whether
  \<open>_onClose\<close> is set. \<open>_onClose\<close> takes the identifier as an \<open>int\<close>.
\<close>

record ClientConnection =
  c_fd :: int
  c_connId :: u64
  c_maxFrameSize :: u32
  c_state :: ConnectionState
  c_aesKey :: bytes
  c_ssid :: u64
  c_fid :: u32
  c_lastCliFid :: u32
  c_inFrameBuffer :: bytes
  c_rsaPrivKey :: bytes
  c_hasOnClose :: bool
  c_requests :: "Request list"
  c_closeCalls :: "(int \<times> CloseReason) list"

type_synonym conn_state = "ClientConnection \<times> world"
type_synonym 'a conn = "(conn_state, fault, 'a) prog"

text \<open>The constructor; \<open>connCount\<close> is the static counter \<open>_connCount\<close>, returned incremented.\<close>

definition ClientConnection_new ::
    "u64 \<Rightarrow> int \<Rightarrow> u32 \<Rightarrow> bytes \<Rightarrow> ClientConnection \<times> u64" where
  "ClientConnection_new connCount fd maxFrameSize rsaPrivKey =
    (let connCount = connCount + 1 in
     (\<lparr>c_fd = fd, c_connId = connCount, c_maxFrameSize = maxFrameSize, c_state = HANDSHAKE,
       c_aesKey = [], c_ssid = 0, c_fid = 0, c_lastCliFid = 0, c_inFrameBuffer = [],
       c_rsaPrivKey = rsaPrivKey, c_hasOnClose = False, c_requests = [], c_closeCalls = []\<rparr>,
      connCount))"

definition setOnClose :: "ClientConnection \<Rightarrow> ClientConnection" where
  "setOnClose c = c\<lparr>c_hasOnClose := True\<rparr>"

text \<open>Running a crypto function, and changing the connection or the world.\<close>

definition conn_crypto :: "'a crypto \<Rightarrow> 'a conn" where
  "conn_crypto m = (\<lambda>(c, w). case crypto_io m w of (r, w') \<Rightarrow> (r, (c, w')))"

definition upd :: "(ClientConnection \<Rightarrow> ClientConnection) \<Rightarrow> unit conn" where
  "upd f = modP (\<lambda>(c, w). (f c, w))"

text \<open>
  \<open>try m catch (const std::runtime_error&) handler\<close>: undefined behaviour and an exhausted stack
  are not exceptions, and an exception of another type passes.
\<close>

definition catch_runtime :: "'a conn \<Rightarrow> 'a conn \<Rightarrow> 'a conn" where
  "catch_runtime m handler s =
    (case m s of
       (Inl (Throw e), s') \<Rightarrow> if catches_runtime_error e then handler s' else (Inl (Throw e), s')
     | r \<Rightarrow> r)"

section \<open>Sending and closing\<close>

definition makeRespFrame :: "ClientConnection \<Rightarrow> bytes \<Rightarrow> bytes \<Rightarrow> u8 \<Rightarrow> u8 \<Rightarrow> u32 \<Rightarrow> Frame" where
  "makeRespFrame c pa d st fl ri = makeFrame (c_fid c) st fl pa d ri (c_ssid c)"

definition send_on_fd :: "host \<Rightarrow> bytes \<Rightarrow> bool conn" where
  "send_on_fd h bs = (\<lambda>(c, w). case send_all h (c_fd c) bs w of (ok, w') \<Rightarrow> (Inr ok, (c, w')))"

text \<open>
  \<open>closeConnection\<close> sends a last frame and \<open>sendFrame\<close> closes when it fails: they call each
  other. The first argument after the host is the number of further calls the stack has room
  for; at 0 the call overflows it.
\<close>

fun closeConnection :: "host \<Rightarrow> nat \<Rightarrow> CloseReason \<Rightarrow> bool \<Rightarrow> unit conn"
and sendFrame :: "host \<Rightarrow> nat \<Rightarrow> Frame \<Rightarrow> unit conn" where
  "closeConnection h 0 reason invokeOnClose (c, w) = (Inl StackOverflow, (c, w))"
| "closeConnection h (Suc depth) reason invokeOnClose (c, w) =
    (if c_state c = CLOSED then (Inr (), (c, w))
     else
       seqP
         (if c_fd c \<noteq> -1 then
            seqP (if reason \<noteq> NATURAL
                  then sendFrame h depth (makeRespFrame c [] [] STATUS_OK 0 0) else retP ())
              (modP (\<lambda>(c, w). (c\<lparr>c_fd := -1\<rparr>, sys_close (c_fd c) w)))
          else retP ())
         (upd (\<lambda>c.
            let c = c\<lparr>c_state := CLOSED\<rparr> in
            if invokeOnClose \<and> c_hasOnClose c
            then c\<lparr>c_closeCalls := c_closeCalls c @ [(sint (ucast (c_connId c) :: 32 word), reason)]\<rparr>
            else c))
         (c, w))"
| "sendFrame h 0 frame (c, w) = (Inl StackOverflow, (c, w))"
| "sendFrame h (Suc depth) frame (c, w) =
    catch_runtime
      (bindP (conn_crypto (encodeFrame (h_ssl h) frame True (c_aesKey c) (c_fid c + 1))) (\<lambda>encoded.
       bindP (send_on_fd h encoded) (\<lambda>sent_all.
       if sent_all then retP () else closeConnection h depth SOCKET_ERROR True)))
      (closeConnection h depth ENCRYPTION_ERROR True)
      (c\<lparr>c_fid := c_fid c + 1\<rparr>, w)"

definition setAesKey :: "host \<Rightarrow> nat \<Rightarrow> bytes \<Rightarrow> unit conn" where
  "setAesKey h depth aesKey =
    seqP (upd (\<lambda>c. c\<lparr>c_aesKey := aesKey\<rparr>))
    (bindP (conn_crypto (rand64 (h_ssl h))) (\<lambda>r.
     seqP (upd (\<lambda>c. c\<lparr>c_ssid := r\<rparr>))
    (seqP (\<lambda>(c, w). sendFrame h depth
             (makeRespFrame c [] (lit ''Connection secured'') STATUS_OK 0 0) (c, w))
      (upd (\<lambda>c. c\<lparr>c_state := ACTIVE\<rparr>)))))"

section \<open>Receiving\<close>

text \<open>
  \<open>_parseFrames\<close>: the loop body once around. \<open>Inl\<close> of the inner sum is \<open>return frames\<close>,
  \<open>Inr\<close> the next iteration; a caught exception closes the connection and returns.
\<close>

definition return_closing :: "host \<Rightarrow> nat \<Rightarrow> CloseReason \<Rightarrow> Frame list \<Rightarrow> (Frame list + Frame list) conn" where
  "return_closing h depth reason frames =
    seqP (closeConnection h depth reason True) (retP (Inl frames))"

definition catch_both :: "'a conn \<Rightarrow> 'a conn \<Rightarrow> 'a conn" where
  "catch_both m handler s =
    (case m s of
       (Inl (Throw e), s') \<Rightarrow>
         if catches_FMXPException e \<or> catches_runtime_error e then handler s'
         else (Inl (Throw e), s')
     | r \<Rightarrow> r)"

definition consume :: "nat \<Rightarrow> unit conn" where
  "consume n = bindP (liftP (\<lambda>(c, w). slice (c_inFrameBuffer c) n (length (c_inFrameBuffer c))))
     (\<lambda>b. upd (\<lambda>c. c\<lparr>c_inFrameBuffer := b\<rparr>))"

definition parse_step :: "host \<Rightarrow> nat \<Rightarrow> Frame list \<Rightarrow> (Frame list + Frame list) conn" where
  "parse_step h depth frames = (\<lambda>(c, w).
    (let buf = c_inFrameBuffer c in
     if length buf < MIN_FRAME_SIZE then retP (Inl frames)
     else if \<not> validateProtocol buf then return_closing h depth INVALID_REQUEST frames
     else
       bindP (liftP (\<lambda>_. getFrameBodySize buf)) (\<lambda>bodyLen.
       if bodyLen > c_maxFrameSize c \<or> unat bodyLen + HEADER_SIZE > unat (c_maxFrameSize c)
       then return_closing h depth REQUEST_TOO_LONG frames
       else if length buf < unat bodyLen + HEADER_SIZE then retP (Inl frames)
       else
         bindP (liftP (\<lambda>_. slice buf 0 (unat bodyLen + HEADER_SIZE))) (\<lambda>frameBuf.
         catch_both
           (if c_state c = HANDSHAKE then
              bindP (conn_crypto (decodeFrame (h_ssl h) frameBuf False [])) (\<lambda>frame.
              seqP (consume (unat bodyLen + HEADER_SIZE)) (retP (Inl (frames @ [frame]))))
            else
              bindP (conn_crypto (decodeFrame (h_ssl h) frameBuf True (c_aesKey c))) (\<lambda>frame.
              seqP (consume (unat bodyLen + HEADER_SIZE)) (retP (Inr (frames @ [frame])))))
           (return_closing h depth INVALID_REQUEST frames)))) (c, w))"

text \<open>The buffer as \<open>closeConnection\<close> and \<open>sendFrame\<close> leave it: untouched.\<close>

lemma close_send_buffer:
  "closeConnection h d r oc s = (res, s') \<Longrightarrow> c_inFrameBuffer (fst s') = c_inFrameBuffer (fst s)"
  "sendFrame h d f s = (res, s') \<Longrightarrow> c_inFrameBuffer (fst s') = c_inFrameBuffer (fst s)"
proof (induction h d r oc s and h d f s arbitrary: res s' and res s'
    rule: closeConnection_sendFrame.induct)
  case (2 h depth reason oc c w)
  then show ?case
    by (auto simp: bindP_def prog_simps upd_def Let_def split: if_splits prod.splits sum.splits)
next
  case (4 h depth frame c w)
  then show ?case
    by (auto simp: bindP_def prog_simps catch_runtime_def conn_crypto_def send_on_fd_def
        split: if_splits prod.splits sum.splits fault.splits)
qed auto

lemma parse_step_consumes:
  assumes "parse_step h d frames s = (Inr (Inr frames'), s')"
  shows "length (c_inFrameBuffer (fst s')) < length (c_inFrameBuffer (fst s))"
  using assms
  by (cases s)
    (auto simp: parse_step_def bindP_def prog_simps return_closing_def catch_both_def consume_def
      conn_crypto_def upd_def Let_def frame_sizes
      split: if_splits prod.splits sum.splits fault.splits)

text \<open>The loop itself; every iteration that does not return takes a frame off the buffer.\<close>

function parseFrames :: "host \<Rightarrow> nat \<Rightarrow> Frame list \<Rightarrow> Frame list conn" where
  "parseFrames h depth frames s =
    (case parse_step h depth frames s of
       (Inl e, s') \<Rightarrow> (Inl e, s')
     | (Inr (Inl fs), s') \<Rightarrow> (Inr fs, s')
     | (Inr (Inr fs), s') \<Rightarrow> parseFrames h depth fs s')"
  by pat_completeness auto
termination
  by (relation "measure (\<lambda>(h, d, fs, s). length (c_inFrameBuffer (fst s)))")
    (auto dest!: parse_step_consumes [OF sym])

declare parseFrames.simps [simp del]

definition validateFrame :: "host \<Rightarrow> nat \<Rightarrow> Frame \<Rightarrow> bool conn" where
  "validateFrame h depth frame = (\<lambda>(c, w).
    (if ssid frame \<noteq> c_ssid c \<or> fid frame \<le> c_lastCliFid c
     then seqP (closeConnection h depth INVALID_REQUEST True) (retP False)
     else retP True) (c, w))"

fun append_chunks :: "bytes list \<Rightarrow> unit conn" where
  "append_chunks [] = retP ()"
| "append_chunks (b # bs) =
    seqP (upd (\<lambda>c. c\<lparr>c_inFrameBuffer := c_inFrameBuffer c @ b\<rparr>)) (append_chunks bs)"

text \<open>The requests of the frames, until one is refused.\<close>

fun deliver :: "host \<Rightarrow> nat \<Rightarrow> Frame list \<Rightarrow> bool conn" where
  "deliver h depth [] = retP True"
| "deliver h depth (frame # frames) =
    bindP (validateFrame h depth frame) (\<lambda>ok.
    if \<not> ok then retP False
    else
      seqP (upd (\<lambda>c. c\<lparr>c_lastCliFid := fid frame\<rparr>))
      (seqP (upd (\<lambda>c. c\<lparr>c_requests := c_requests c @
                [Request_of \<lparr>io_frame = frame, io_connectionID = c_connId c\<rparr>]\<rparr>))
        (deliver h depth frames)))"

text \<open>The handshake: the payload of the first frame, decrypted, checked and taken as the key.\<close>

definition time_of_day :: "host \<Rightarrow> u32 conn" where
  "time_of_day h = (\<lambda>(c, w). case getTimestamp h w of (t, w') \<Rightarrow> (Inr t, (c, w')))"

definition close_return :: "host \<Rightarrow> nat \<Rightarrow> CloseReason \<Rightarrow> bool conn" where
  "close_return h depth reason = seqP (closeConnection h depth reason True) (retP False)"

definition accept_handshake :: "host \<Rightarrow> nat \<Rightarrow> bytes \<Rightarrow> bool conn" where
  "accept_handshake h depth encAesKey = (\<lambda>(c, w).
    catch_runtime
      (bindP (conn_crypto (rsaDecrypt (h_ssl h) encAesKey (c_rsaPrivKey c))) (\<lambda>decrypted.
       if length decrypted \<noteq> AES_KEY_SIZE + 4 then close_return h depth ENCRYPTION_ERROR
       else
         bindP (liftP (\<lambda>_. bindE (ptr_add decrypted AES_KEY_SIZE) ptrToU32)) (\<lambda>timestamp.
         bindP (time_of_day h) (\<lambda>now.
         if timestamp - now > 60 then close_return h depth ENCRYPTION_ERROR
         else
           bindP (liftP (\<lambda>_. slice decrypted 0 AES_KEY_SIZE)) (\<lambda>key.
           seqP (setAesKey h depth key) (retP True))))))
      (close_return h depth ENCRYPTION_ERROR) (c, w))"

text \<open>The second half of \<open>readFd\<close>: what is done with the frames.\<close>

definition handle_frames :: "host \<Rightarrow> nat \<Rightarrow> Frame list \<Rightarrow> bool conn" where
  "handle_frames h depth frames = (\<lambda>(c, w).
    (if c_state c = HANDSHAKE \<and> length frames > 0 then accept_handshake h depth (data (frames ! 0))
     else if c_state c = ACTIVE then deliver h depth frames
     else retP True) (c, w))"

definition readFd :: "host \<Rightarrow> nat \<Rightarrow> bytes list \<Rightarrow> recv_end \<Rightarrow> bool conn" where
  "readFd h depth chunks ending =
    seqP (append_chunks chunks)
    (case ending of
       Disconnect \<Rightarrow> close_return h depth NATURAL
     | SockError \<Rightarrow> close_return h depth SOCKET_ERROR
     | WouldBlock \<Rightarrow> bindP (parseFrames h depth []) (handle_frames h depth))"

text \<open>The destructor.\<close>

definition ClientConnection_delete :: "host \<Rightarrow> nat \<Rightarrow> unit conn" where
  "ClientConnection_delete h depth = closeConnection h depth NATURAL True"

end
