(* ===== verification/Server_Connection_Laws.thy ===== *)
theory Server_Connection_Laws
  imports Server_Connection
begin

text \<open>
  Running the operations of \<open>ClientConnection\<close>: what closing and sending leave, the recursion
  between them, one round of \<open>_parseFrames\<close> in explicit form, and which faults can leave
  \<open>readFd\<close>. The properties of the server's end are in \<open>Server_Session\<close>.
\<close>

section \<open>Closing and sending\<close>

named_theorems conn_run "running the programs of a connection"

lemmas [conn_run] = bindP_def prog_simps upd_def conn_crypto_def send_on_fd_def Let_def

text \<open>The two functions once around, with the state spelt out.\<close>

definition close_mark :: "bool \<Rightarrow> CloseReason \<Rightarrow> ClientConnection \<Rightarrow> ClientConnection" where
  "close_mark oc reason c =
    (let c = c\<lparr>c_state := CLOSED\<rparr> in
     if oc \<and> c_hasOnClose c
     then c\<lparr>c_closeCalls := c_closeCalls c @ [(sint (ucast (c_connId c) :: 32 word), reason)]\<rparr>
     else c)"

lemma closeConnection_Suc:
  "closeConnection h (Suc d) reason oc (c, w) =
    (if c_state c = CLOSED then (Inr (), (c, w))
     else if c_fd c = -1 then (Inr (), (close_mark oc reason c, w))
     else if reason = NATURAL
       then (Inr (), (close_mark oc reason (c\<lparr>c_fd := -1\<rparr>), sys_close (c_fd c) w))
     else case sendFrame h d (makeRespFrame c [] [] STATUS_OK 0 0) (c, w) of
         (Inl e, s') \<Rightarrow> (Inl e, s')
       | (Inr u, (c1, w1)) \<Rightarrow>
           (Inr (), (close_mark oc reason (c1\<lparr>c_fd := -1\<rparr>), sys_close (c_fd c1) w1)))"
  by (auto simp: bindP_def prog_simps upd_def close_mark_def Let_def split: prod.split sum.split)

lemma sendFrame_Suc:
  "sendFrame h (Suc d) f (c, w) =
    (let c' = c\<lparr>c_fid := c_fid c + 1\<rparr> in
     case crypto_io (encodeFrame (h_ssl h) f True (c_aesKey c) (c_fid c + 1)) w of
       (Inl e, w1) \<Rightarrow> if \<exists>x. e = Throw x \<and> catches_runtime_error x
           then closeConnection h d ENCRYPTION_ERROR True (c', w1) else (Inl e, (c', w1))
     | (Inr encoded, w1) \<Rightarrow>
         (case send_all h (c_fd c) encoded w1 of
            (True, w2) \<Rightarrow> (Inr (), (c', w2))
          | (False, w2) \<Rightarrow>
              catch_runtime (closeConnection h d SOCKET_ERROR True)
                (closeConnection h d ENCRYPTION_ERROR True) (c', w2)))"
  by (auto simp: bindP_def prog_simps conn_crypto_def send_on_fd_def catch_runtime_def Let_def
      split: prod.split sum.split fault.split)

declare closeConnection.simps(2) [simp del] sendFrame.simps(2) [simp del]

text \<open>What neither closing nor sending touches.\<close>

definition conn_kept :: "ClientConnection \<Rightarrow> ClientConnection \<Rightarrow> bool" where
  "conn_kept c c' \<longleftrightarrow> c_connId c' = c_connId c \<and> c_maxFrameSize c' = c_maxFrameSize c
    \<and> c_aesKey c' = c_aesKey c \<and> c_ssid c' = c_ssid c \<and> c_lastCliFid c' = c_lastCliFid c
    \<and> c_inFrameBuffer c' = c_inFrameBuffer c \<and> c_rsaPrivKey c' = c_rsaPrivKey c
    \<and> c_hasOnClose c' = c_hasOnClose c \<and> c_requests c' = c_requests c"

definition real_closes :: "world \<Rightarrow> int list" where
  "real_closes w = filter (\<lambda>fd. fd \<noteq> -1) (w_closed w)"

text \<open>
  \<open>shut\<close>: the connection is closed afterwards, its descriptor was closed once if it was open.
  \<open>open_still\<close>: state, descriptor and closed descriptors are as before.
\<close>

definition shut :: "conn_state \<Rightarrow> conn_state \<Rightarrow> bool" where
  "shut s s' \<longleftrightarrow> conn_kept (fst s) (fst s') \<and> c_state (fst s') = CLOSED
    \<and> (c_state (fst s) \<noteq> CLOSED \<longrightarrow> c_fd (fst s') = -1)
    \<and> (c_state (fst s) = CLOSED \<longrightarrow> c_fd (fst s') = c_fd (fst s))
    \<and> real_closes (snd s') = real_closes (snd s) @
        (if c_state (fst s) = CLOSED \<or> c_fd (fst s) = -1 then [] else [c_fd (fst s)])"

definition open_still :: "conn_state \<Rightarrow> conn_state \<Rightarrow> bool" where
  "open_still s s' \<longleftrightarrow> conn_kept (fst s) (fst s') \<and> c_state (fst s') = c_state (fst s)
    \<and> c_fd (fst s') = c_fd (fst s) \<and> real_closes (snd s') = real_closes (snd s)"

lemmas closing_defs = shut_def open_still_def conn_kept_def real_closes_def

lemma open_still_refl [simp]: "open_still s s"
  by (simp add: open_still_def conn_kept_def)

lemma open_then_shut: "open_still s s' \<Longrightarrow> shut s' s'' \<Longrightarrow> shut s s''"
  by (auto simp: closing_defs)

lemma world_step_open:
  "w_closed w' = w_closed w \<Longrightarrow> open_still (c, w) (c, w')"
  "w_closed w' = w_closed w \<Longrightarrow> open_still (c, w) (c\<lparr>c_fid := n\<rparr>, w')"
  by (auto simp: closing_defs)

text \<open>\<open>closeConnection\<close> itself never throws what \<open>sendFrame\<close> catches.\<close>

lemma close_send_faults:
  "closeConnection h d reason oc s = (Inl e, s') \<Longrightarrow> \<forall>x. e = Throw x \<longrightarrow> \<not> catches_runtime_error x"
  "sendFrame h d f s = (Inl e, s') \<Longrightarrow> \<forall>x. e = Throw x \<longrightarrow> \<not> catches_runtime_error x"
proof (induction h d reason oc s and h d f s arbitrary: e s' and e s'
    rule: closeConnection_sendFrame.induct)
  case (2 h depth reason oc c w)
  then show ?case
    by (auto simp: closeConnection_Suc split: if_splits prod.splits sum.splits)
next
  case (4 h depth frame c w)
  then show ?case
    by (auto simp: sendFrame_Suc catch_runtime_def Let_def
        split: if_splits prod.splits sum.splits fault.splits bool.splits)
qed auto

lemma catch_close:
  "catch_runtime (closeConnection h d r oc) k s = closeConnection h d r oc s"
  using close_send_faults(1) [of h d r oc s]
  by (auto simp: catch_runtime_def split: prod.split sum.split fault.split)

lemma encode_world:
  "crypto_io m w = (r, w1) \<Longrightarrow> send_all h fd bs w1 = (ok, w2) \<Longrightarrow> w_closed w2 = w_closed w"
  using crypto_io_world [of m w r w1] send_all_wire [of h fd bs w1 ok w2] by simp

text \<open>One call of \<open>sendFrame\<close>: it sends and returns, or what it does is close the connection.\<close>

lemma sendFrame_cases:
  assumes "sendFrame h (Suc d) f (c, w) = (r, s')"
  obtains (sent) encoded w1 w2 where
      "crypto_io (encodeFrame (h_ssl h) f True (c_aesKey c) (c_fid c + 1)) w = (Inr encoded, w1)"
      "send_all h (c_fd c) encoded w1 = (True, w2)" "r = Inr ()"
      "s' = (c\<lparr>c_fid := c_fid c + 1\<rparr>, w2)" "w_closed w2 = w_closed w"
  | (failed) reason w2 where "reason \<noteq> NATURAL" "w_closed w2 = w_closed w"
      "closeConnection h d reason True (c\<lparr>c_fid := c_fid c + 1\<rparr>, w2) = (r, s')"
  | (fault) e w1 where
      "crypto_io (encodeFrame (h_ssl h) f True (c_aesKey c) (c_fid c + 1)) w = (Inl e, w1)"
      "r = Inl e" "\<forall>x. e = Throw x \<longrightarrow> \<not> catches_runtime_error x"
proof -
  obtain r1 w1 where enc:
    "crypto_io (encodeFrame (h_ssl h) f True (c_aesKey c) (c_fid c + 1)) w = (r1, w1)"
    by (cases "crypto_io (encodeFrame (h_ssl h) f True (c_aesKey c) (c_fid c + 1)) w")
  note closed1 = crypto_io_world [OF enc]
  show thesis
  proof (cases r1)
    case (Inl e)
    show thesis
    proof (cases "\<exists>x. e = Throw x \<and> catches_runtime_error x")
      case True
      then show thesis
        using assms enc Inl closed1 failed [of ENCRYPTION_ERROR w1] by (simp add: sendFrame_Suc Let_def)
    next
      case False
      then have "r = Inl e" using assms enc Inl by (cases e) (simp_all add: sendFrame_Suc Let_def)
      then show thesis using enc Inl False by (intro fault [of e w1]) auto
    qed
  next
    case (Inr encoded)
    obtain ok w2 where snd: "send_all h (c_fd c) encoded w1 = (ok, w2)"
      by (cases "send_all h (c_fd c) encoded w1")
    note closed2 = encode_world [OF enc snd]
    show thesis
    proof (cases ok)
      case True
      then show thesis
        using assms enc Inr snd closed2 sent [of encoded w1 w2] by (simp add: sendFrame_Suc Let_def)
    next
      case False
      then show thesis
        using assms enc Inr snd closed2 failed [of SOCKET_ERROR w2]
        by (simp add: sendFrame_Suc Let_def catch_close)
    qed
  qed
qed

text \<open>Closing leaves the connection closed; sending leaves it as it was, or closed.\<close>

lemma close_mark_fields [simp]:
  "c_connId (close_mark oc r c) = c_connId c" "c_maxFrameSize (close_mark oc r c) = c_maxFrameSize c"
  "c_aesKey (close_mark oc r c) = c_aesKey c" "c_ssid (close_mark oc r c) = c_ssid c"
  "c_lastCliFid (close_mark oc r c) = c_lastCliFid c" "c_fd (close_mark oc r c) = c_fd c"
  "c_inFrameBuffer (close_mark oc r c) = c_inFrameBuffer c" "c_state (close_mark oc r c) = CLOSED"
  "c_rsaPrivKey (close_mark oc r c) = c_rsaPrivKey c" "c_requests (close_mark oc r c) = c_requests c"
  "c_hasOnClose (close_mark oc r c) = c_hasOnClose c" "c_fid (close_mark oc r c) = c_fid c"
  by (simp_all add: close_mark_def Let_def)

lemma closing_end:
  assumes "shut (c, w) (c1, w1) \<or> open_still (c, w) (c1, w1)" "c_state c \<noteq> CLOSED" "c_fd c \<noteq> -1"
  shows "shut (c, w) (close_mark oc r (c1\<lparr>c_fd := -1\<rparr>), sys_close (c_fd c1) w1)"
  using assms unfolding shut_def by (auto simp: open_still_def conn_kept_def real_closes_def sys_close_def)

lemma close_send_effect:
  "(\<forall>reason oc s u s'. closeConnection h d reason oc s = (Inr u, s') \<longrightarrow> shut s s')
    \<and> (\<forall>f s u s'. sendFrame h d f s = (Inr u, s') \<longrightarrow> shut s s' \<or> open_still s s')"
proof (induction d)
  case 0
  show ?case by simp
next
  case (Suc d)
  have "shut (c, w) s'" if run: "closeConnection h (Suc d) reason oc (c, w) = (Inr u, s')"
    for reason oc c w u s'
  proof (cases "c_state c = CLOSED \<or> c_fd c = -1")
    case True
    with run show ?thesis by (auto simp: closeConnection_Suc closing_defs split: if_splits)
  next
    case open_: False
    show ?thesis
    proof (cases "reason = NATURAL")
      case True
      then show ?thesis using run open_ closing_end [of c w c w oc reason]
        by (auto simp: closeConnection_Suc)
    next
      case False
      then obtain u1 c1 w1 where
        "sendFrame h d (makeRespFrame c [] [] STATUS_OK 0 0) (c, w) = (Inr u1, (c1, w1))"
        and s': "s' = (close_mark oc reason (c1\<lparr>c_fd := -1\<rparr>), sys_close (c_fd c1) w1)"
        using run open_ by (auto simp: closeConnection_Suc split: prod.splits sum.splits)
      then have "shut (c, w) (c1, w1) \<or> open_still (c, w) (c1, w1)" using Suc.IH by blast
      then show ?thesis using open_ s' closing_end by blast
    qed
  qed
  moreover have "shut (c, w) s' \<or> open_still (c, w) s'"
    if run: "sendFrame h (Suc d) f (c, w) = (Inr u, s')" for f c w u s'
    using run
  proof (cases rule: sendFrame_cases)
    case (sent encoded w1 w2)
    then show ?thesis by (simp add: world_step_open)
  next
    case (failed reason w2)
    then have "shut (c\<lparr>c_fid := c_fid c + 1\<rparr>, w2) s'" using Suc.IH by blast
    then show ?thesis using open_then_shut world_step_open(2) [OF failed(2)] by blast
  qed simp
  ultimately show ?case by auto
qed

lemmas closeConnection_effect = close_send_effect [THEN conjunct1, rule_format]
  and sendFrame_effect = close_send_effect [THEN conjunct2, rule_format]

section \<open>The recursion that does not end\<close>

text \<open>
  A connection that cannot send: it has no usable key, or its socket refuses everything from
  now on.
\<close>

definition cannot_send :: "host \<Rightarrow> ClientConnection \<Rightarrow> world \<Rightarrow> bool" where
  "cannot_send h c w \<longleftrightarrow> c_state c \<noteq> CLOSED \<and> c_fd c \<noteq> -1 \<and>
    (length (c_aesKey c) \<noteq> 32 \<or> gcm_laws (h_ssl h) \<and> sends_fail_from h (w_sends w))"

lemma encode_without_key:
  "length k \<noteq> 32 \<Longrightarrow> encodeFrame ossl f True k r s = (Inl (Throw (RuntimeError ''Invalid AES-256 key'')), s)"
  by (simp add: encodeFrame_encrypted aesEncrypt_def bindP_def prog_simps)

lemma encodeFrame_fault:
  "gcm_laws ossl \<Longrightarrow> encodeFrame ossl f True k r s = (Inl e, s') \<Longrightarrow> \<exists>m. e = Throw (RuntimeError m)"
  using aesEncrypt_fault [of ossl]
  by (auto simp: encodeFrame_encrypted split: prod.splits sum.splits)

lemma encodeFrame_nonempty: "encodeFrame ossl f True k r s = (Inr e, s') \<Longrightarrow> e \<noteq> []"
  by (auto simp: encodeFrame_encrypted header_of_def split: prod.splits sum.splits)

text \<open>In such a state \<open>sendFrame\<close> comes back to \<open>closeConnection\<close>, in such a state again.\<close>

lemma cannot_send_step:
  assumes "cannot_send h c w"
  obtains reason w2 where "reason \<noteq> NATURAL" "cannot_send h (c\<lparr>c_fid := c_fid c + 1\<rparr>) w2"
    "sendFrame h (Suc d) f (c, w) = closeConnection h d reason True (c\<lparr>c_fid := c_fid c + 1\<rparr>, w2)"
proof (cases "length (c_aesKey c) = 32")
  case False
  then have "sendFrame h (Suc d) f (c, w)
      = closeConnection h d ENCRYPTION_ERROR True (c\<lparr>c_fid := c_fid c + 1\<rparr>, w)"
    by (simp add: sendFrame_Suc crypto_io_def encode_without_key Let_def)
  then show thesis using assms by (intro that [of ENCRYPTION_ERROR w]) (auto simp: cannot_send_def)
next
  case True
  with assms have laws: "gcm_laws (h_ssl h)" and fails: "sends_fail_from h (w_sends w)"
    by (auto simp: cannot_send_def)
  obtain r w1 where enc:
    "crypto_io (encodeFrame (h_ssl h) f True (c_aesKey c) (c_fid c + 1)) w = (r, w1)"
    by (cases "crypto_io (encodeFrame (h_ssl h) f True (c_aesKey c) (c_fid c + 1)) w")
  then have w1: "w_sends w1 = w_sends w" by (auto simp: crypto_io_eq)
  show thesis
  proof (cases r)
    case (Inl e)
    then obtain m where "e = Throw (RuntimeError m)"
      using enc encodeFrame_fault [OF laws] unfolding crypto_io_eq by blast
    then have "sendFrame h (Suc d) f (c, w)
        = closeConnection h d ENCRYPTION_ERROR True (c\<lparr>c_fid := c_fid c + 1\<rparr>, w1)"
      using enc Inl by (simp add: sendFrame_Suc Let_def)
    then show thesis using assms w1
      by (intro that [of ENCRYPTION_ERROR w1]) (auto simp: cannot_send_def)
  next
    case (Inr e)
    let ?w2 = "w1\<lparr>w_sends := Suc (w_sends w1)\<rparr>"
    have "e \<noteq> []" using enc Inr encodeFrame_nonempty unfolding crypto_io_eq by blast
    then have "send_all h (c_fd c) e w1 = (False, ?w2)"
      using send_all_fails fails w1 by simp
    then have "sendFrame h (Suc d) f (c, w)
        = closeConnection h d SOCKET_ERROR True (c\<lparr>c_fid := c_fid c + 1\<rparr>, ?w2)"
      using enc Inr by (simp add: sendFrame_Suc Let_def catch_close)
    moreover have "sends_fail_from h (w_sends ?w2)"
      using fails w1 by (simp add: sends_fail_from_def)
    ultimately show thesis using assms laws
      by (intro that [of SOCKET_ERROR ?w2]) (auto simp: cannot_send_def)
  qed
qed

lemma cannot_send_overflows:
  "cannot_send h c w \<Longrightarrow>
    (reason \<noteq> NATURAL \<longrightarrow> fst (closeConnection h d reason oc (c, w)) = Inl StackOverflow)
    \<and> fst (sendFrame h d f (c, w)) = Inl StackOverflow"
proof (induction d arbitrary: c w reason oc f)
  case 0
  show ?case by simp
next
  case (Suc d)
  have "fst (closeConnection h (Suc d) reason oc (c, w)) = Inl StackOverflow" if "reason \<noteq> NATURAL"
  proof -
    obtain s' where "sendFrame h d (makeRespFrame c [] [] STATUS_OK 0 0) (c, w) = (Inl StackOverflow, s')"
      using Suc.IH [OF Suc.prems] by (metis prod.collapse)
    then show ?thesis using Suc.prems that by (simp add: closeConnection_Suc cannot_send_def)
  qed
  moreover have "fst (sendFrame h (Suc d) f (c, w)) = Inl StackOverflow"
    using cannot_send_step [OF Suc.prems, of d f] Suc.IH by metis
  ultimately show ?case by blast
qed

text \<open>Otherwise only the stack can run out, and with a usable key and socket it does not.\<close>

lemma close_send_only_overflow:
  assumes "gcm_laws (h_ssl h)"
  shows "(\<forall>reason oc s e s'. closeConnection h d reason oc s = (Inl e, s') \<longrightarrow> e = StackOverflow)
    \<and> (\<forall>f s e s'. sendFrame h d f s = (Inl e, s') \<longrightarrow> e = StackOverflow)"
proof (induction d)
  case (Suc d)
  have "e = StackOverflow" if "closeConnection h (Suc d) reason oc (c, w) = (Inl e, s')"
    for reason oc c w e s'
  proof -
    have "sendFrame h d f s = (Inl e, s') \<Longrightarrow> e = StackOverflow" for f s e s'
      using Suc.IH by blast
    with that show ?thesis
      by (auto simp: closeConnection_Suc split: if_splits prod.splits sum.splits)
  qed
  moreover have "e = StackOverflow" if "sendFrame h (Suc d) f (c, w) = (Inl e, s')" for f c w e s'
    using that
  proof (cases rule: sendFrame_cases)
    case (failed reason w2)
    then show ?thesis using Suc.IH by blast
  next
    case (fault e' w1)
    then obtain m where "e' = Throw (RuntimeError m)"
      using encodeFrame_fault [OF assms] unfolding crypto_io_eq by blast
    with fault(3) show ?thesis by simp
  qed simp
  ultimately show ?case by auto
qed simp

lemmas close_fault = close_send_only_overflow [THEN conjunct1, rule_format]
  and send_fault = close_send_only_overflow [THEN conjunct2, rule_format]

definition can_send :: "host \<Rightarrow> ClientConnection \<Rightarrow> bool" where
  "can_send h c \<longleftrightarrow> gcm_laws (h_ssl h) \<and> gcm_reliable (h_ssl h) \<and> sends_succeed h
    \<and> length (c_aesKey c) = 32"

lemma sendFrame_sends:
  assumes "can_send h c" "length (path f) < 2 ^ 16" "length (path f) + length (data f) + 20 < 2 ^ 31"
  obtains e k w' where
    "encodeFrame (h_ssl h) f True (c_aesKey c) (c_fid c + 1) (w_crypto w) = (Inr e, k)"
    "sendFrame h (Suc d) f (c, w) = (Inr (), (c\<lparr>c_fid := c_fid c + 1\<rparr>, w'))"
    "wire (c_fd c) w' = wire (c_fd c) w @ e" "w_closed w' = w_closed w" "w_times w' = w_times w"
proof -
  note can = assms(1) [unfolded can_send_def]
  obtain e k where enc:
    "encodeFrame (h_ssl h) f True (c_aesKey c) (c_fid c + 1) (w_crypto w) = (Inr e, k)"
    using encrypted_decodes [of "h_ssl h" "c_aesKey c" f "c_fid c + 1" "w_crypto w"] can assms
    by blast
  let ?w1 = "w\<lparr>w_crypto := k\<rparr>"
  obtain ok w' where snd: "send_all h (c_fd c) e ?w1 = (ok, w')"
    by (cases "send_all h (c_fd c) e ?w1")
  then have ok using can send_all_ok [of h "c_fd c" e ?w1] by simp
  then have "wire (c_fd c) w' = wire (c_fd c) ?w1 @ e" "w_closed w' = w_closed w" "w_times w' = w_times w"
    using send_all_wire [OF snd] by auto
  moreover have "wire (c_fd c) ?w1 = wire (c_fd c) w" by (simp add: wire_def)
  moreover have "sendFrame h (Suc d) f (c, w) = (Inr (), (c\<lparr>c_fid := c_fid c + 1\<rparr>, w'))"
    using enc snd \<open>ok\<close> by (simp add: sendFrame_Suc crypto_io_def Let_def)
  ultimately show thesis using that enc by metis
qed

section \<open>One round of \<open>_parseFrames\<close>\<close>

definition decode_args :: "ClientConnection \<Rightarrow> bool \<times> bytes" where
  "decode_args c = (if c_state c = HANDSHAKE then (False, []) else (True, c_aesKey c))"

definition caught :: "fault \<Rightarrow> bool" where
  "caught e \<longleftrightarrow> (\<exists>x. e = Throw x \<and> (catches_FMXPException x \<or> catches_runtime_error x))"

lemma decode_and_consume:
  assumes "n \<le> length (c_inFrameBuffer c)"
  shows "catch_both (bindP (conn_crypto m) (\<lambda>f. seqP (consume n) (retP (g f)))) handler (c, w)
    = (case crypto_io m w of
         (Inr f, w1) \<Rightarrow> (Inr (g f), (c\<lparr>c_inFrameBuffer := drop n (c_inFrameBuffer c)\<rparr>, w1))
       | (Inl e, w1) \<Rightarrow> if caught e then handler (c, w1) else (Inl e, (c, w1)))"
proof (cases "crypto_io m w")
  case (Pair r w1)
  then show ?thesis
  proof (cases r)
    case (Inl e)
    with Pair show ?thesis
      by (cases e) (simp_all add: catch_both_def bindP_def conn_crypto_def caught_def)
  next
    case (Inr f)
    with Pair assms show ?thesis
      by (simp add: catch_both_def bindP_def conn_crypto_def consume_def upd_def prog_simps)
  qed
qed

lemma parse_step_eq:
  "parse_step h d frames (c, w) =
    (let buf = c_inFrameBuffer c; n = body_len buf + 9 in
     if length buf < 29 then (Inr (Inl frames), (c, w))
     else if \<not> validateProtocol buf then return_closing h d INVALID_REQUEST frames (c, w)
     else if n > unat (c_maxFrameSize c) then return_closing h d REQUEST_TOO_LONG frames (c, w)
     else if length buf < n then (Inr (Inl frames), (c, w))
     else case crypto_io (decodeFrame (h_ssl h) (take n buf) (fst (decode_args c)) (snd (decode_args c))) w of
         (Inr f, w1) \<Rightarrow> (Inr ((if c_state c = HANDSHAKE then Inl else Inr) (frames @ [f])),
                        (c\<lparr>c_inFrameBuffer := drop n buf\<rparr>, w1))
       | (Inl e, w1) \<Rightarrow> if caught e then return_closing h d INVALID_REQUEST frames (c, w1)
                       else (Inl e, (c, w1)))"
proof (cases "length (c_inFrameBuffer c) < 29 \<or> \<not> validateProtocol (c_inFrameBuffer c)")
  case True
  then show ?thesis by (auto simp: parse_step_def frame_sizes retP_def Let_def)
next
  case False
  then obtain n where n: "getFrameBodySize (c_inFrameBuffer c) = Inr n"
    using getFrameBodySize_defined [of "c_inFrameBuffer c"] by auto
  then have len: "body_len (c_inFrameBuffer c) = unat n" by (simp add: body_len_def)
  have max: "c_maxFrameSize c < n \<Longrightarrow> unat (c_maxFrameSize c) < unat n + 9"
    by (simp add: word_less_nat_alt)
  show ?thesis
  proof (cases "unat (c_maxFrameSize c) < unat n + 9 \<or> length (c_inFrameBuffer c) < unat n + 9")
    case True
    then show ?thesis using False max
      by (auto simp: parse_step_def frame_sizes Let_def len n bindP_liftP_Inr retP_def)
  next
    case fits: False
    then have "\<not> c_maxFrameSize c < n" using max by blast
    then show ?thesis using False fits
      by (cases "c_state c = HANDSHAKE")
        (simp_all add: parse_step_def frame_sizes Let_def len n bindP_liftP_Inr decode_args_def
          decode_and_consume split: prod.split sum.split)
  qed
qed

end
