(* ===== verification/Server_Session.thy ===== *)
theory Server_Session
  imports Server_Connection_Laws
begin

text \<open>
  What the server's end of a connection does over its life: which failures end the process,
  which messages come out of the byte stream and in what order, that nothing is accepted twice,
  and what a handshake takes. The replay window is a locale, interpreted here for the server
  and again for the client in \<open>Client_Session\<close>.
\<close>

section \<open>Reading\<close>

lemma append_chunks_run:
  "append_chunks bs (c, w) = (Inr (), (c\<lparr>c_inFrameBuffer := c_inFrameBuffer c @ concat bs\<rparr>, w))"
  by (induction bs arbitrary: c) (auto simp: bindP_def prog_simps upd_def)

lemma return_closing_run:
  "return_closing h d reason frames s =
    (case closeConnection h d reason True s of (Inl e, s') \<Rightarrow> (Inl e, s') | (Inr u, s') \<Rightarrow> (Inr (Inl frames), s'))"
  by (simp add: return_closing_def bindP_def prog_simps split: prod.split sum.split)

lemma close_return_run:
  "close_return h d reason s =
    (case closeConnection h d reason True s of (Inl e, s') \<Rightarrow> (Inl e, s') | (Inr u, s') \<Rightarrow> (Inr False, s'))"
  by (simp add: close_return_def bindP_def prog_simps split: prod.split sum.split)

lemma readFd_run:
  "readFd h d chunks ending (c, w) =
    (let s = (c\<lparr>c_inFrameBuffer := c_inFrameBuffer c @ concat chunks\<rparr>, w) in
     case ending of
       Disconnect \<Rightarrow> close_return h d NATURAL s
     | SockError \<Rightarrow> close_return h d SOCKET_ERROR s
     | WouldBlock \<Rightarrow>
         (case parseFrames h d [] s of
            (Inl e, s') \<Rightarrow> (Inl e, s')
          | (Inr frames, (c', w')) \<Rightarrow>
              if c_state c' = HANDSHAKE \<and> frames \<noteq> [] then accept_handshake h d (data (frames ! 0)) (c', w')
              else if c_state c' = ACTIVE then deliver h d frames (c', w')
              else (Inr True, (c', w'))))"
  by (simp add: readFd_def handle_frames_def bindP_def seqP_def append_chunks_run retP_def Let_def
      split: recv_end.split prod.split sum.split)

text \<open>The parser is run to its end by induction over its rounds.\<close>

lemma parseFrames_round:
  "parseFrames h d frames s =
    (case parse_step h d frames s of
       (Inl e, s') \<Rightarrow> (Inl e, s')
     | (Inr (Inl fs), s') \<Rightarrow> (Inr fs, s')
     | (Inr (Inr fs), s') \<Rightarrow> parseFrames h d fs s')"
  by (rule parseFrames.simps)

lemma decode_caught:
  assumes "gcm_laws ossl" "crypto_io (decodeFrame ossl b enc k) w = (Inl e, w')"
  shows "caught e"
proof -
  obtain s s' where "decodeFrame ossl b enc k s = (Inl e, s')"
    using assms(2) by (auto simp: crypto_io_eq)
  from decodeFrame_fault_kinds [OF assms(1) this] show ?thesis by (auto simp: caught_def)
qed

section \<open>Faults\<close>

lemma parse_step_fault:
  assumes "gcm_laws (h_ssl h)" "parse_step h d frames s = (Inl e, s')"
  shows "e = StackOverflow"
proof (cases s)
  case (Pair c w)
  with assms(2) show ?thesis
    using close_fault [OF assms(1)] decode_caught [OF assms(1)]
    by (auto simp: parse_step_eq return_closing_run Let_def split: if_splits prod.splits sum.splits)
qed

lemma parseFrames_fault:
  assumes "gcm_laws (h_ssl h)"
  shows "parseFrames h d frames s = (Inl e, s') \<Longrightarrow> e = StackOverflow"
proof (induction "length (c_inFrameBuffer (fst s))" arbitrary: frames s rule: less_induct)
  case less
  obtain r s1 where step: "parse_step h d frames s = (r, s1)" by (cases "parse_step h d frames s")
  show ?case
  proof (cases r)
    case (Inl e1)
    then show ?thesis
      using less.prems step parse_step_fault [OF assms] by (auto simp: parseFrames_round)
  next
    case (Inr x)
    then show ?thesis
      using less.prems less.hyps [of s1] step parse_step_consumes
      by (cases x) (auto simp: parseFrames_round [of h d frames s])
  qed
qed

text \<open>What the documentation of \<open>EVP_PKEY_decrypt\<close> promises: no more bytes than announced.\<close>

definition rsa_sizes :: "openssl \<Rightarrow> bool" where
  "rsa_sizes ossl \<longleftrightarrow> (\<forall>t t' k c n p.
     PKEY_decrypt_size ossl t k c = Some n \<longrightarrow> PKEY_decrypt ossl t' k c = Some p \<longrightarrow> length p \<le> n)"

lemma rsaDecrypt_fault:
  "rsa_sizes ossl \<Longrightarrow> rsaDecrypt ossl c k s = (Inl e, s') \<Longrightarrow> \<exists>m. e = Throw (RuntimeError m)"
  by (auto simp: rsaDecrypt_def loadPrivateKey_def crypto_run throwErr_def rsa_sizes_def
      split: if_splits option.splits)

lemma rand64_fault:
  assumes "gcm_laws ossl" "rand64 ossl s = (Inl e, s')"
  shows "\<exists>m. e = Throw (RuntimeError m)"
proof (cases "RAND_bytes ossl (calls s) 8")
  case None
  with assms(2) show ?thesis by (auto simp: rand64_def crypto_run throwErr_def)
next
  case (Some bs)
  then obtain v where "ptrToU64 bs = Inr v"
    using gcm_lawsD(1) [OF assms(1) Some] u64.dec_total [of bs] by auto
  with Some assms(2) show ?thesis by (simp add: rand64_def crypto_run)
qed

lemma setAesKey_run:
  "setAesKey h d key (c, w) =
    (case crypto_io (rand64 (h_ssl h)) w of
       (Inl e, w1) \<Rightarrow> (Inl e, (c\<lparr>c_aesKey := key\<rparr>, w1))
     | (Inr r, w1) \<Rightarrow>
         (let c1 = c\<lparr>c_aesKey := key, c_ssid := r\<rparr> in
          case sendFrame h d (makeRespFrame c1 [] (lit ''Connection secured'') STATUS_OK 0 0) (c1, w1) of
            (Inl e, s') \<Rightarrow> (Inl e, s')
          | (Inr u, (c2, w2)) \<Rightarrow> (Inr (), (c2\<lparr>c_state := ACTIVE\<rparr>, w2))))"
  by (simp add: setAesKey_def bindP_def prog_simps upd_def conn_crypto_def Let_def
      split: prod.split sum.split)

text \<open>
  The handshake payload taken apart: not 36 bytes, a timestamp outside the window, or a key.
\<close>

definition hs_payload :: "bytes \<Rightarrow> u32 \<Rightarrow> bytes option" where
  "hs_payload p now =
    (if length p \<noteq> 36 then None
     else case ptrToU32 (drop 32 p) of
         Inl e \<Rightarrow> None
       | Inr ts \<Rightarrow> if ts - now > 60 then None else Some (take 32 p))"

lemma accept_handshake_run:
  "accept_handshake h d enc (c, w) =
    (case crypto_io (rsaDecrypt (h_ssl h) enc (c_rsaPrivKey c)) w of
       (Inl e, w1) \<Rightarrow>
         if \<exists>x. e = Throw x \<and> catches_runtime_error x then close_return h d ENCRYPTION_ERROR (c, w1)
         else (Inl e, (c, w1))
     | (Inr p, w1) \<Rightarrow>
         (if length p \<noteq> 36 then close_return h d ENCRYPTION_ERROR (c, w1)
          else case getTimestamp h w1 of (now, w2) \<Rightarrow>
            (case hs_payload p now of
               None \<Rightarrow> close_return h d ENCRYPTION_ERROR (c, w2)
             | Some key \<Rightarrow>
                 catch_runtime (seqP (setAesKey h d key) (retP True))
                   (close_return h d ENCRYPTION_ERROR) (c, w2))))"
proof -
  have catch_close_return: "catch_runtime (close_return h d r) k s = close_return h d r s" for r k s
    using close_send_faults(1) [of h d r True s]
    by (auto simp: catch_runtime_def close_return_run split: prod.split sum.split fault.split)
  obtain r w1 where dec: "crypto_io (rsaDecrypt (h_ssl h) enc (c_rsaPrivKey c)) w = (r, w1)"
    by (cases "crypto_io (rsaDecrypt (h_ssl h) enc (c_rsaPrivKey c)) w")
  show ?thesis
  proof (cases r)
    case (Inl e)
    with dec show ?thesis
      by (cases e) (simp_all add: accept_handshake_def catch_runtime_def bindP_def conn_crypto_def)
  next
    case (Inr p)
    show ?thesis
    proof (cases "length p = 36")
      case False
      then have "accept_handshake h d enc (c, w)
          = catch_runtime (close_return h d ENCRYPTION_ERROR) (close_return h d ENCRYPTION_ERROR) (c, w1)"
        using dec Inr
        by (simp add: accept_handshake_def catch_runtime_def bindP_def conn_crypto_def AES_KEY_SIZE_def)
      with False dec Inr show ?thesis by (simp add: catch_close_return)
    next
      case True
      then obtain ts where ts: "ptrToU32 (drop 32 p) = Inr ts" using u32.dec_total [of "drop 32 p"] by auto
      obtain now w2 where now: "getTimestamp h w1 = (now, w2)" by (cases "getTimestamp h w1")
      let ?body = "if ts - now > 60 then close_return h d ENCRYPTION_ERROR
        else seqP (setAesKey h d (take 32 p)) (retP True)"
      have "accept_handshake h d enc (c, w)
          = catch_runtime ?body (close_return h d ENCRYPTION_ERROR) (c, w2)"
        using dec Inr True ts now
        by (simp add: accept_handshake_def catch_runtime_def bindP_def conn_crypto_def AES_KEY_SIZE_def
            liftP_def ptr_add_def time_of_day_def)
      with True dec Inr now ts show ?thesis
        by (cases "ts - now > 60") (simp_all add: catch_close_return hs_payload_def)
    qed
  qed
qed

lemma close_return_fault:
  "gcm_laws (h_ssl h) \<Longrightarrow> close_return h d r s = (Inl e, s') \<Longrightarrow> e = StackOverflow"
  using close_fault [of h d r True s] by (auto simp: close_return_run split: prod.splits sum.splits)

lemma setAesKey_fault:
  assumes "gcm_laws (h_ssl h)" "setAesKey h d key s = (Inl e, s')"
  shows "e = StackOverflow \<or> (\<exists>m. e = Throw (RuntimeError m))"
proof (cases s)
  case (Pair c w)
  obtain r w1 where r: "crypto_io (rand64 (h_ssl h)) w = (r, w1)"
    by (cases "crypto_io (rand64 (h_ssl h)) w")
  show ?thesis
  proof (cases r)
    case (Inl f)
    then have "\<exists>m. f = Throw (RuntimeError m)"
      using r rand64_fault [OF assms(1)] unfolding crypto_io_eq by blast
    then show ?thesis using assms(2) Pair r Inl by (simp add: setAesKey_run)
  next
    case (Inr v)
    then show ?thesis
      using assms(2) Pair r send_fault [OF assms(1)]
      by (auto simp: setAesKey_run Let_def split: prod.splits sum.splits)
  qed
qed

lemma accept_handshake_fault:
  assumes "gcm_laws (h_ssl h)" "rsa_sizes (h_ssl h)" "accept_handshake h d enc s = (Inl e, s')"
  shows "e = StackOverflow"
proof (cases s)
  case (Pair c w)
  obtain r w1 where dec: "crypto_io (rsaDecrypt (h_ssl h) enc (c_rsaPrivKey c)) w = (r, w1)"
    by (cases "crypto_io (rsaDecrypt (h_ssl h) enc (c_rsaPrivKey c)) w")
  note cr = close_return_fault [OF assms(1)]
  show ?thesis
  proof (cases r)
    case (Inl f)
    then obtain m where "f = Throw (RuntimeError m)"
      using dec rsaDecrypt_fault [OF assms(2)] unfolding crypto_io_eq by blast
    then show ?thesis using assms(3) Pair dec Inl cr by (simp add: accept_handshake_run)
  next
    case (Inr p)
    obtain now w2 where now: "getTimestamp h w1 = (now, w2)" by (cases "getTimestamp h w1")
    show ?thesis
    proof (cases "length p = 36 \<and> hs_payload p now \<noteq> None")
      case False
      then show ?thesis using assms(3) Pair dec Inr now cr
        by (auto simp: accept_handshake_run split: if_splits)
    next
      case True
      then obtain key where "catch_runtime (seqP (setAesKey h d key) (retP True))
          (close_return h d ENCRYPTION_ERROR) (c, w2) = (Inl e, s')"
        using assms(3) Pair dec Inr now by (auto simp: accept_handshake_run)
      then show ?thesis
        using setAesKey_fault [OF assms(1), of d key "(c, w2)"] cr
        by (cases "setAesKey h d key (c, w2)")
          (fastforce simp: catch_runtime_def bindP_def prog_simps split: sum.splits fault.splits if_splits)
    qed
  qed
qed

lemma deliver_step:
  "deliver h d (f # fs) (c, w) =
    (if ssid f \<noteq> c_ssid c \<or> fid f \<le> c_lastCliFid c then close_return h d INVALID_REQUEST (c, w)
     else deliver h d fs
       (c\<lparr>c_lastCliFid := fid f, c_requests := c_requests c @
          [Request_of \<lparr>io_frame = f, io_connectionID = c_connId c\<rparr>]\<rparr>, w))"
  by (simp add: validateFrame_def close_return_def bindP_def prog_simps upd_def
      split: prod.split sum.split)

declare deliver.simps(2) [simp del]

lemma deliver_fault:
  assumes "gcm_laws (h_ssl h)"
  shows "deliver h d fs (c, w) = (Inl e, s') \<Longrightarrow> e = StackOverflow"
proof (induction fs arbitrary: c)
  case (Cons f fs)
  then show ?case
    using close_return_fault [OF assms] by (auto simp: deliver_step split: if_splits)
qed (simp add: retP_def)

lemma readFd_fault:
  assumes "gcm_laws (h_ssl h)" "rsa_sizes (h_ssl h)"
    and "readFd h d chunks ending (c, w) = (Inl e, s')"
  shows "e = StackOverflow"
  using assms(3) close_return_fault [OF assms(1)] parseFrames_fault [OF assms(1)]
    accept_handshake_fault [OF assms(1,2)] deliver_fault [OF assms(1)]
  by (auto simp: readFd_run Let_def split: recv_end.splits prod.splits sum.splits if_splits)

section \<open>Errors during the handshake\<close>

definition fresh_conn :: "ClientConnection \<Rightarrow> bool" where
  "fresh_conn c \<longleftrightarrow> c_state c = HANDSHAKE \<and> c_fd c \<noteq> -1 \<and> c_aesKey c = []"

lemma fresh_cannot_send: "fresh_conn c \<Longrightarrow> cannot_send h c w"
  by (simp add: fresh_conn_def cannot_send_def)

lemma fresh_close_overflows:
  assumes "fresh_conn c" "r \<noteq> NATURAL"
  shows "fst (closeConnection h d r oc (c, w)) = Inl StackOverflow"
    and "fst (return_closing h d r fs (c, w)) = Inl StackOverflow"
    and "fst (close_return h d r (c, w)) = Inl StackOverflow"
  using cannot_send_overflows [OF fresh_cannot_send [OF assms(1)], of r h d oc w]
    cannot_send_overflows [OF fresh_cannot_send [OF assms(1)], of r h d True w] assms(2)
  by (auto simp: return_closing_run close_return_run split: prod.split sum.split)

text \<open>The first message of a peer that does not speak the protocol, or that resets the socket.\<close>

definition bad_hello :: "u32 \<Rightarrow> bytes \<Rightarrow> bool" where
  "bad_hello maxFrameSize b \<longleftrightarrow> 29 \<le> length b \<and>
    (take 4 b \<noteq> lit ''fmxp'' \<or> unat maxFrameSize < body_len b + 9)"

text \<open>
  C31: a peer that is not authenticated can crash the server: on a connection in the handshake,
  29 bytes that do not begin with \<open>fmxp\<close> or announce a body above the limit, and likewise a
  reset of the socket, make \<open>readFd\<close> exhaust the stack, however much of it there is.
\<close>

theorem bad_hello_crashes_server:
  assumes "fresh_conn c" "c_inFrameBuffer c = []"
  shows "(bad_hello (c_maxFrameSize c) (concat chunks) \<longrightarrow>
      fst (readFd h d chunks WouldBlock (c, w)) = Inl StackOverflow)
    \<and> fst (readFd h d chunks SockError (c, w)) = Inl StackOverflow"
proof
  let ?c = "c\<lparr>c_inFrameBuffer := concat chunks\<rparr>"
  have fresh: "fresh_conn ?c" using assms(1) by (simp add: fresh_conn_def)
  show "fst (readFd h d chunks SockError (c, w)) = Inl StackOverflow"
    using fresh_close_overflows(3) [OF fresh] assms(2) by (simp add: readFd_run)
  show "bad_hello (c_maxFrameSize c) (concat chunks) \<longrightarrow>
      fst (readFd h d chunks WouldBlock (c, w)) = Inl StackOverflow"
  proof
    assume bad: "bad_hello (c_maxFrameSize c) (concat chunks)"
    have "fst (parse_step h d [] (?c, w)) = Inl StackOverflow"
      using bad fresh_close_overflows(2) [OF fresh, of _ h d "[]" w]
      by (auto simp: parse_step_eq bad_hello_def validateProtocol_def Let_def)
    then have "fst (parseFrames h d [] (?c, w)) = Inl StackOverflow"
      by (cases "parse_step h d [] (?c, w)") (simp add: parseFrames_round)
    then show "fst (readFd h d chunks WouldBlock (c, w)) = Inl StackOverflow"
      using assms(2) by (cases "parseFrames h d [] (?c, w)") (simp add: readFd_run)
  qed
qed

section \<open>The handshake\<close>

text \<open>In the handshake, one frame is taken off the buffer, decoded in the clear, and returned.\<close>

lemma parse_handshake_frame:
  assumes "c_state c = HANDSHAKE" "c_inFrameBuffer c = header_of (length b) @ b @ rest"
    and "20 \<le> length b" "length b + 9 \<le> unat (c_maxFrameSize c)" "decodeBody b = Inr f"
  shows "parseFrames h d [] (c, w) = (Inr [f], (c\<lparr>c_inFrameBuffer := rest\<rparr>, w))"
proof -
  have len: "length b < 2 ^ 32"
    using assms(4) unsigned_less [of "c_maxFrameSize c", where ?'a = nat] by simp
  have "crypto_io (decodeFrame (h_ssl h) (header_of (length b) @ b) False []) w = (Inr f, w)"
    by (simp add: crypto_io_def decodeFrame_plain [OF len] assms(5))
  then have "parse_step h d [] (c, w) = (Inr (Inl [f]), (c\<lparr>c_inFrameBuffer := rest\<rparr>, w))"
    using assms(1-4) len
    by (simp add: parse_step_eq Let_def header_of_fields body_len_header decode_args_def)
  then show ?thesis by (simp add: parseFrames_round)
qed

lemma timestamp_window:
  fixes ts now :: u32
  assumes "unat now + 60 < 2 ^ 32"
  shows "ts - now > 60 \<longleftrightarrow> \<not> (unat now \<le> unat ts \<and> unat ts \<le> unat now + 60)"
proof -
  have "unat (ts - now) = (if unat now \<le> unat ts then unat ts - unat now
      else unat ts + 2 ^ 32 - unat now)"
    by (simp add: unat_sub_if_size word_size)
  then show ?thesis using assms unsigned_less [of now, where ?'a = nat]
    by (auto simp: word_less_nat_alt)
qed

text \<open>A peer that announces key \<open>key\<close> at time \<open>ts\<close>: its first frame \<open>f\<close>, encoded in the clear.\<close>

definition hello :: "host \<Rightarrow> ClientConnection \<Rightarrow> Frame \<Rightarrow> bytes \<Rightarrow> u32 \<Rightarrow> bool" where
  "hello h c f key ts \<longleftrightarrow> length key = 32 \<and> length (path f) < 2 ^ 16
    \<and> 29 + length (path f) + length (data f) \<le> unat (c_maxFrameSize c)
    \<and> (\<forall>s. \<exists>s'. rsaDecrypt (h_ssl h) (data f) (c_rsaPrivKey c) s = (Inr (key @ u32ToStr ts), s'))"

lemma hello_parsed:
  assumes "hello h c f key ts" "c_state c = HANDSHAKE" "c_inFrameBuffer c = []"
    and "concat chunks = header_of (length (encodeBody f r)) @ encodeBody f r"
  shows "\<exists>s'. readFd h d chunks WouldBlock (c, w) = accept_handshake h d (data f) (c, w)"
proof -
  have body: "decodeBody (encodeBody f r) = Inr (f\<lparr>fid := if r = 0 then fid f else r\<rparr>)"
    using assms(1) by (simp add: hello_def decodeBody_encodeBody Let_def)
  have "parseFrames h d [] (c\<lparr>c_inFrameBuffer := concat chunks\<rparr>, w)
      = (Inr [f\<lparr>fid := if r = 0 then fid f else r\<rparr>], (c, w))"
    using parse_handshake_frame [where b = "encodeBody f r" and rest = "[]" and h = h and d = d and w = w
        and c = "c\<lparr>c_inFrameBuffer := concat chunks\<rparr>"] assms body
    by (simp add: hello_def)
  then show ?thesis using assms(2,3) by (simp add: readFd_run)
qed

lemma rand64_runs:
  assumes "gcm_laws ossl" "gcm_reliable ossl"
  obtains v s' where "rand64 ossl s = (Inr v, s')"
proof -
  obtain bs where bs: "RAND_bytes ossl (calls s) 8 = Some bs" using gcm_reliableD(1) [OF assms(2)] by blast
  then obtain v where "ptrToU64 bs = Inr v"
    using gcm_lawsD(1) [OF assms(1) bs] u64.dec_total [of bs] by auto
  with bs show thesis using that by (simp add: rand64_def crypto_run)
qed

lemma setAesKey_secures:
  assumes "gcm_laws (h_ssl h)" "gcm_reliable (h_ssl h)" "sends_succeed h" "length key = 32"
  obtains c' w' e where "setAesKey h (Suc d) key (c, w) = (Inr (), (c', w'))"
    "c_state c' = ACTIVE" "c_aesKey c' = key" "c_fd c' = c_fd c" "c_requests c' = c_requests c"
    "c_fid c' = c_fid c + 1" "c_lastCliFid c' = c_lastCliFid c" "c_inFrameBuffer c' = c_inFrameBuffer c"
    "c_maxFrameSize c' = c_maxFrameSize c" "wire (c_fd c) w' = wire (c_fd c) w @ e"
    "\<exists>s s'. encodeFrame (h_ssl h) (makeFrame (c_fid c) STATUS_OK 0 [] (lit ''Connection secured'') 0 (c_ssid c'))
       True key (c_fid c + 1) s = (Inr e, s')"
proof -
  obtain v k where v: "rand64 (h_ssl h) (w_crypto w) = (Inr v, k)"
    using rand64_runs [OF assms(1,2)] by blast
  let ?w1 = "w\<lparr>w_crypto := k\<rparr>"
  let ?c1 = "c\<lparr>c_aesKey := key, c_ssid := v\<rparr>"
  let ?f = "makeRespFrame ?c1 [] (lit ''Connection secured'') STATUS_OK 0 0"
  have "can_send h ?c1" using assms by (simp add: can_send_def)
  moreover have "length (path ?f) < 2 ^ 16" "length (path ?f) + length (data ?f) + 20 < 2 ^ 31"
    by (simp_all add: makeRespFrame_def makeFrame_def)
  ultimately obtain e k' w' where
    e: "encodeFrame (h_ssl h) ?f True (c_aesKey ?c1) (c_fid ?c1 + 1) (w_crypto ?w1) = (Inr e, k')"
    and run: "sendFrame h (Suc d) ?f (?c1, ?w1) = (Inr (), (?c1\<lparr>c_fid := c_fid ?c1 + 1\<rparr>, w'))"
    and wire: "wire (c_fd ?c1) w' = wire (c_fd ?c1) ?w1 @ e"
    by (rule sendFrame_sends)
  have all: "setAesKey h (Suc d) key (c, w)
      = (Inr (), (?c1\<lparr>c_fid := c_fid c + 1, c_state := ACTIVE\<rparr>, w'))"
    using v run by (simp add: setAesKey_run crypto_io_def Let_def)
  have out: "wire (c_fd c) w' = wire (c_fd c) w @ e" using wire by (simp add: wire_def)
  show thesis by (rule that [OF all _ _ _ _ _ _ _ _ out]) (use e in \<open>auto simp: makeRespFrame_def\<close>)
qed

lemma hello_run:
  assumes "fresh_conn c" "c_inFrameBuffer c = []" "hello h c f key ts"
    and "concat chunks = header_of (length (encodeBody f r)) @ encodeBody f r"
  shows "\<exists>w2. wire (c_fd c) w2 = wire (c_fd c) w \<and> w_sends w2 = w_sends w \<and> w_closed w2 = w_closed w
    \<and> readFd h d chunks WouldBlock (c, w) =
    (if ts - fst (getTimestamp h w) > 60 then close_return h d ENCRYPTION_ERROR (c, w2)
     else catch_runtime (seqP (setAesKey h d key) (retP True)) (close_return h d ENCRYPTION_ERROR) (c, w2))"
proof -
  let ?now = "fst (getTimestamp h w)"
  have hs: "readFd h d chunks WouldBlock (c, w) = accept_handshake h d (data f) (c, w)"
    using hello_parsed [OF assms(3) _ assms(2,4)] assms(1) by (auto simp: fresh_conn_def)
  have key: "length key = 32" using assms(3) by (simp add: hello_def)
  obtain k where "rsaDecrypt (h_ssl h) (data f) (c_rsaPrivKey c) (w_crypto w) = (Inr (key @ u32ToStr ts), k)"
    using assms(3) unfolding hello_def by blast
  then have dec: "crypto_io (rsaDecrypt (h_ssl h) (data f) (c_rsaPrivKey c)) w
      = (Inr (key @ u32ToStr ts), w\<lparr>w_crypto := k\<rparr>)"
    by (simp add: crypto_io_def)
  obtain w2 where t: "getTimestamp h (w\<lparr>w_crypto := k\<rparr>) = (?now, w2)"
    and w2: "wire (c_fd c) w2 = wire (c_fd c) w" "w_sends w2 = w_sends w" "w_closed w2 = w_closed w"
    by (auto simp: getTimestamp_def wire_def)
  have payload: "hs_payload (key @ u32ToStr ts) ?now = (if ts - ?now > 60 then None else Some key)"
    using key u32.dec_enc by (simp add: hs_payload_def u32.enc_length)
  show ?thesis using hs dec t payload key w2
    by (intro exI [of _ w2]) (simp add: accept_handshake_run u32.enc_length)
qed

text \<open>A handshake accepted; a handshake refused.\<close>

lemma hello_accepted:
  assumes "fresh_conn c" "c_inFrameBuffer c = []" "hello h c f key ts"
    and "concat chunks = header_of (length (encodeBody f r)) @ encodeBody f r"
    and "gcm_laws (h_ssl h)" "gcm_reliable (h_ssl h)" "sends_succeed h"
    and "\<not> ts - fst (getTimestamp h w) > 60"
  obtains c' w' e s s' where "readFd h (Suc d) chunks WouldBlock (c, w) = (Inr True, (c', w'))"
    "c_state c' = ACTIVE" "c_aesKey c' = key" "c_lastCliFid c' = c_lastCliFid c" "c_fid c' = c_fid c + 1"
    "c_fd c' = c_fd c" "c_requests c' = c_requests c" "c_inFrameBuffer c' = []"
    "c_maxFrameSize c' = c_maxFrameSize c" "wire (c_fd c) w' = wire (c_fd c) w @ e"
    "encodeFrame (h_ssl h) (makeFrame (c_fid c) STATUS_OK 0 [] (lit ''Connection secured'') 0 (c_ssid c'))
       True key (c_fid c + 1) s = (Inr e, s')"
proof -
  obtain w2 where w2: "wire (c_fd c) w2 = wire (c_fd c) w"
    and run: "readFd h (Suc d) chunks WouldBlock (c, w) = catch_runtime (seqP (setAesKey h (Suc d) key) (retP True))
       (close_return h (Suc d) ENCRYPTION_ERROR) (c, w2)"
    using hello_run [OF assms(1-4), of w "Suc d"] assms(8) by auto
  have key: "length key = 32" using assms(3) by (simp add: hello_def)
  obtain c' w' e where aes: "setAesKey h (Suc d) key (c, w2) = (Inr (), (c', w'))"
    and c': "c_state c' = ACTIVE" "c_aesKey c' = key" "c_fd c' = c_fd c" "c_requests c' = c_requests c"
      "c_fid c' = c_fid c + 1" "c_lastCliFid c' = c_lastCliFid c" "c_inFrameBuffer c' = c_inFrameBuffer c"
      "c_maxFrameSize c' = c_maxFrameSize c"
    and e: "wire (c_fd c) w' = wire (c_fd c) w2 @ e"
    and enc: "\<exists>s s'. encodeFrame (h_ssl h) (makeFrame (c_fid c) STATUS_OK 0 [] (lit ''Connection secured'') 0 (c_ssid c'))
       True key (c_fid c + 1) s = (Inr e, s')"
    by (rule setAesKey_secures [OF assms(5-7) key])
  have "readFd h (Suc d) chunks WouldBlock (c, w) = (Inr True, (c', w'))"
    using run aes by (simp add: catch_runtime_def bindP_def prog_simps)
  then show thesis using that c' e enc w2 assms(2) by auto
qed

lemma hello_refused:
  assumes "fresh_conn c" "c_inFrameBuffer c = []" "hello h c f key ts"
    and "concat chunks = header_of (length (encodeBody f r)) @ encodeBody f r"
    and "ts - fst (getTimestamp h w) > 60"
  shows "fst (readFd h d chunks WouldBlock (c, w)) = Inl StackOverflow"
  using hello_run [OF assms(1-4), of w d] assms(5) fresh_close_overflows(3) [OF assms(1)] by auto

text \<open>
  C13: what becomes of a well-formed handshake depends on its timestamp only. When it lies between
  the server's clock and 60 seconds later, the key is installed, a session identifier drawn, and
  the frame "Connection secured" carrying it is sent under the key. Any other timestamp, an age
  of one second included, ends the process.
\<close>

theorem handshake_outcome:
  assumes "fresh_conn c" "c_inFrameBuffer c = []" "hello h c f key ts"
    and "concat chunks = header_of (length (encodeBody f r)) @ encodeBody f r"
    and "gcm_laws (h_ssl h)" "gcm_reliable (h_ssl h)" "sends_succeed h"
    and now: "fst (getTimestamp h w) = now" "unat now + 60 < 2 ^ 32"
  shows "if unat now \<le> unat ts \<and> unat ts \<le> unat now + 60
    then \<exists>c' w' e s s'. readFd h (Suc d) chunks WouldBlock (c, w) = (Inr True, (c', w'))
      \<and> c_state c' = ACTIVE \<and> c_aesKey c' = key \<and> c_lastCliFid c' = c_lastCliFid c
      \<and> wire (c_fd c) w' = wire (c_fd c) w @ e
      \<and> encodeFrame (h_ssl h) (makeFrame (c_fid c) STATUS_OK 0 [] (lit ''Connection secured'') 0 (c_ssid c'))
          True key (c_fid c + 1) s = (Inr e, s')
    else fst (readFd h (Suc d) chunks WouldBlock (c, w)) = Inl StackOverflow"
proof (cases "ts - now > 60")
  case True
  then show ?thesis
    using hello_refused [OF assms(1-4)] now(1) timestamp_window [OF now(2), of ts] by auto
next
  case False
  then have "\<not> ts - fst (getTimestamp h w) > 60" using now(1) by simp
  from hello_accepted [OF assms(1-7) this] False show ?thesis
    using timestamp_window [OF now(2), of ts] by metis
qed

end
