(* ===== verification/Replay_Window.thy ===== *)
theory Replay_Window
  imports Frame
begin

text \<open>
  The replay protection both ends implement with \<open>_validateFrame\<close>: a frame is admitted when it
  carries the session identifier and a frame identifier above every one admitted before. The
  locale states what an end must do; its lemmas are what follows for a stream of frames. It is
  interpreted for the server in \<open>Server_Stream\<close> and for the client in \<open>Client_Session\<close>.
\<close>

text \<open>A history of admitted frames: one session, identifiers strictly increasing up to \<open>n\<close>.\<close>

definition window_ok :: "u64 \<Rightarrow> u32 \<Rightarrow> Frame list \<Rightarrow> bool" where
  "window_ok s n fs \<longleftrightarrow> sorted_wrt (<) (map fid fs) \<and> (\<forall>f \<in> set fs. ssid f = s \<and> fid f \<le> n)"

lemma window_ok_Nil [simp]: "window_ok s n []"
  by (simp add: window_ok_def)

lemma window_ok_snoc:
  "window_ok s n fs \<Longrightarrow> ssid f = s \<Longrightarrow> n < fid f \<Longrightarrow> window_ok s (fid f) (fs @ [f])"
  by (fastforce simp: window_ok_def sorted_wrt_append)

locale replay_window =
  fixes session :: "'c \<Rightarrow> u64" and newest :: "'c \<Rightarrow> u32"
    and admits :: "'c \<Rightarrow> Frame \<Rightarrow> bool" and record_frame :: "Frame \<Rightarrow> 'c \<Rightarrow> 'c"
  assumes admits_iff: "admits c f \<longleftrightarrow> ssid f = session c \<and> newest c < fid f"
    and record_newest: "newest (record_frame f c) = fid f"
    and record_session: "session (record_frame f c) = session c"
begin

text \<open>The frames taken from a stream, until one is refused, and the state then.\<close>

fun accepted :: "'c \<Rightarrow> Frame list \<Rightarrow> Frame list" where
  "accepted c [] = []"
| "accepted c (f # fs) = (if admits c f then f # accepted (record_frame f c) fs else [])"

fun after :: "'c \<Rightarrow> Frame list \<Rightarrow> 'c" where
  "after c [] = c"
| "after c (f # fs) = (if admits c f then after (record_frame f c) fs else c)"

lemma accepted_prefix: "\<exists>rest. fs = accepted c fs @ rest"
  by (induction fs arbitrary: c) auto

lemma accepted_subset: "set (accepted c fs) \<subseteq> set fs"
  by (induction fs arbitrary: c) auto

lemma after_session: "session (after c fs) = session c"
  by (induction fs arbitrary: c) (auto simp: record_session)

lemma history_extends:
  "window_ok (session c) (newest c) hist \<Longrightarrow>
    window_ok (session c) (newest (after c fs)) (hist @ accepted c fs)"
proof (induction fs arbitrary: c hist)
  case (Cons f fs)
  show ?case
  proof (cases "admits c f")
    case True
    then have "window_ok (session (record_frame f c)) (newest (record_frame f c)) (hist @ [f])"
      using Cons.prems by (auto simp: record_newest record_session admits_iff intro: window_ok_snoc)
    from Cons.IH [OF this] True show ?thesis by (simp add: record_session)
  qed (use Cons.prems in simp)
qed simp

lemma no_replay:
  assumes "window_ok (session c) (newest c) hist" "f \<in> set (hist @ accepted c fs)"
  shows "\<not> admits (after c fs) f"
  using history_extends [OF assms(1), of fs] assms(2)
  by (auto simp: admits_iff after_session window_ok_def dest: leD)

lemma accepted_append:
  "accepted c (xs @ ys) = (if accepted c xs = xs then xs @ accepted (after c xs) ys else accepted c xs)"
  "accepted c xs = xs \<Longrightarrow> after c (xs @ ys) = after (after c xs) ys"
  by (induction xs arbitrary: c) auto

lemma accepts_all:
  "sorted_wrt (<) (map fid fs) \<Longrightarrow> \<forall>f \<in> set fs. ssid f = session c \<and> newest c < fid f \<Longrightarrow>
    accepted c fs = fs"
  by (induction fs arbitrary: c) (auto simp: admits_iff record_session record_newest)

end

end
