(* ===== verification/Frame_Stream.thy ===== *)
theory Frame_Stream
  imports Framing Replay_Window
begin

text \<open>
  Frames out of a byte stream: the contract both ends' parsers meet, and what follows from it
  however TCP cuts the stream. The server's connection interprets it in \<open>Server_Stream\<close>, the
  client's in \<open>Client_Service\<close>.
\<close>

text \<open>What may be left in a buffer: nothing, or the beginning of one more frame.\<close>

definition unfinished :: "(Frame \<Rightarrow> bytes \<Rightarrow> bool) \<Rightarrow> bytes \<Rightarrow> bool" where
  "unfinished codes p \<longleftrightarrow> p = [] \<or> (\<exists>f q. q \<noteq> [] \<and> codes f (p @ q))"

lemma unfinished_Nil [simp]: "unfinished codes []"
  by (simp add: unfinished_def)

lemma unfinished_prefix: "unfinished codes (p @ r) \<Longrightarrow> unfinished codes p"
proof -
  assume *: "unfinished codes (p @ r)"
  show ?thesis
  proof (cases "p @ r = []")
    case False
    with * obtain f q where "q \<noteq> []" "codes f (p @ (r @ q))" by (auto simp: unfinished_def)
    moreover from this have "r @ q \<noteq> []" by simp
    ultimately show ?thesis unfolding unfinished_def by blast
  qed simp
qed

lemma stream_split:
  "b @ r = concat es @ p \<Longrightarrow> \<exists>es1 es2 p1. es = es1 @ es2 \<and> b = concat es1 @ p1 \<and> p1 @ r = concat es2 @ p
    \<and> (es2 = [] \<or> (\<exists>q es3. es2 = (p1 @ q) # es3 \<and> q \<noteq> []))"
proof (induction es arbitrary: b)
  case Nil
  then show ?case by simp
next
  case (Cons e es)
  show ?case
  proof (cases "length e \<le> length b")
    case True
    then obtain b' where b': "b = e @ b'"
      using Cons.prems by (metis append_eq_append_conv_if append_take_drop_id append.assoc concat.simps(2))
    with Cons.prems have "b' @ r = concat es @ p" by simp
    with Cons.IH obtain es1 es2 p1 where "es = es1 @ es2" "b' = concat es1 @ p1" "p1 @ r = concat es2 @ p"
      "es2 = [] \<or> (\<exists>q es3. es2 = (p1 @ q) # es3 \<and> q \<noteq> [])" by blast
    with b' show ?thesis by (intro exI [of _ "e # es1"] exI [of _ es2] exI [of _ p1]) simp
  next
    case False
    then obtain q where "e = b @ q" "q \<noteq> []"
      using Cons.prems by (auto simp: append_eq_append_conv2)
    with Cons.prems show ?thesis by (intro exI [of _ "[]"] exI [of _ "e # es"] exI [of _ b]) auto
  qed
qed

text \<open>Successive reads, each of the chunks that had arrived, for as long as they return \<open>ok\<close>.\<close>

fun reads_all :: "(bytes list \<Rightarrow> ('s, fault, 'r) prog) \<Rightarrow> 'r \<Rightarrow> bytes list list \<Rightarrow> ('s, fault, 'r) prog" where
  "reads_all read ok [] s = (Inr ok, s)"
| "reads_all read ok (cs # css) s =
    (case read cs s of
       (Inr r, s') \<Rightarrow> if r = ok then reads_all read ok css s' else (Inr r, s')
     | (Inl e, s') \<Rightarrow> (Inl e, s'))"

locale frame_stream = replay_window +
  fixes usable :: "'a \<Rightarrow> bool" and codes :: "'a \<Rightarrow> Frame \<Rightarrow> bytes \<Rightarrow> bool"
    and buffer :: "'a \<Rightarrow> bytes" and refill :: "bytes \<Rightarrow> 'a \<Rightarrow> 'a"
    and step :: "Frame list \<Rightarrow> ('a \<times> world, fault, Frame list + Frame list) prog"
    and parse :: "Frame list \<Rightarrow> ('a \<times> world, fault, Frame list) prog"
    and read :: "bytes list \<Rightarrow> ('a \<times> world, fault, 'r) prog" and ok :: 'r
  assumes codes_nonempty: "usable c \<Longrightarrow> codes c f e \<Longrightarrow> e \<noteq> []"
    and codes_prefix: "usable c \<Longrightarrow> codes c f e \<Longrightarrow> codes c g (e @ x) \<Longrightarrow> x = []"
    and refill: "buffer (refill b c) = b" "refill b (refill b' c) = refill b c" "refill (buffer c) c = c"
    and refill_keeps: "usable (refill b c) = usable c" "codes (refill b c) = codes c"
      "admits (refill b c) = admits c" "record_frame f (refill b c) = refill b (record_frame f c)"
    and record_keeps: "usable (record_frame f c) = usable c" "codes (record_frame f c) = codes c"
      "buffer (record_frame f c) = buffer c"
    and parse_loop: "parse gs s =
      (case step gs s of
         (Inl e, s') \<Rightarrow> (Inl e, s')
       | (Inr (Inl fs), s') \<Rightarrow> (Inr fs, s')
       | (Inr (Inr fs), s') \<Rightarrow> parse fs s')"
    and step_whole: "usable c \<Longrightarrow> codes c f e \<Longrightarrow> buffer c = e @ rest \<Longrightarrow>
      \<exists>w'. step gs (c, w) = (Inr (Inr (gs @ [f])), (refill rest c, w')) \<and> w_out w' = w_out w"
    and step_unfinished: "usable c \<Longrightarrow> unfinished (codes c) (buffer c) \<Longrightarrow>
      step gs (c, w) = (Inr (Inl gs), (c, w))"
    and read_parsed: "usable c \<Longrightarrow> parse [] (refill (buffer c @ concat cs) c, w) = (Inr fs, (c', w')) \<Longrightarrow>
      usable c' \<Longrightarrow> accepted c' fs = fs \<Longrightarrow> read cs (c, w) = (Inr ok, (after c' fs, w'))"
begin

lemma refill_window: "accepted (refill b c) fs = accepted c fs" "after (refill b c) fs = refill b (after c fs)"
  by (induction fs arbitrary: c) (simp_all add: refill_keeps)

lemma after_keeps: "usable (after c fs) = usable c" "codes (after c fs) = codes c" "buffer (after c fs) = buffer c"
  by (induction fs arbitrary: c) (simp_all add: record_keeps)

lemma parse_stream:
  assumes "usable c" "unfinished (codes c) p" "list_all2 (codes c) fs es"
  shows "\<exists>w'. parse gs (refill (concat es @ p) c, w) = (Inr (gs @ fs), (refill p c, w')) \<and> w_out w' = w_out w"
  using assms(3)
proof (induction arbitrary: gs w rule: list_all2_induct)
  case Nil
  have "step gs (refill p c, w) = (Inr (Inl gs), (refill p c, w))"
    by (rule step_unfinished) (use assms(1,2) in \<open>simp_all add: refill refill_keeps\<close>)
  then show ?case by (simp add: parse_loop)
next
  case (Cons f fs e es)
  let ?c = "refill (e @ concat es @ p) c"
  obtain w1 where step: "step gs (?c, w) = (Inr (Inr (gs @ [f])), (refill (concat es @ p) c, w1))"
    and out: "w_out w1 = w_out w"
    using step_whole [of ?c f e "concat es @ p" gs w] assms(1) Cons.hyps(1) by (auto simp: refill refill_keeps)
  have "parse gs (refill (concat (e # es) @ p) c, w) = parse (gs @ [f]) (refill (concat es @ p) c, w1)"
    using step by (simp add: parse_loop [of gs])
  then show ?case using Cons.IH [of "gs @ [f]" w1] out by simp
qed

lemma read_stream:
  assumes "usable c" "unfinished (codes c) p" "list_all2 (codes c) fs es"
    and "buffer c @ concat cs = concat es @ p" "accepted c fs = fs"
  shows "\<exists>w'. read cs (c, w) = (Inr ok, (refill p (after c fs), w')) \<and> w_out w' = w_out w"
proof -
  obtain w' where "parse [] (refill (buffer c @ concat cs) c, w) = (Inr fs, (refill p c, w'))" "w_out w' = w_out w"
    using parse_stream [OF assms(1-3), of "[]" w] assms(4) by auto
  moreover have "accepted (refill p c) fs = fs" "usable (refill p c)"
    using assms(1,5) by (simp_all add: refill_window refill_keeps)
  ultimately show ?thesis using read_parsed [OF assms(1)] by (auto simp: refill_window)
qed

lemma finished:
  assumes "usable c" "unfinished (codes c) (buffer c)" "list_all2 (codes c) fs es" "buffer c = concat es @ p"
  shows "fs = []" "es = []" "p = buffer c"
proof -
  show "es = []"
  proof (cases es)
    case (Cons e es')
    then obtain g where e: "codes c g e" using assms(3) by (auto simp: list_all2_Cons2)
    have "buffer c \<noteq> []" using codes_nonempty [OF assms(1) e] assms(4) Cons by simp
    then obtain f q where q: "q \<noteq> []" "codes c f (buffer c @ q)" using assms(2) by (auto simp: unfinished_def)
    have "codes c f (e @ (concat es' @ p @ q))" using q(2) assms(4) Cons by simp
    from codes_prefix [OF assms(1) e this] q(1) show ?thesis by simp
  qed simp
  with assms(3,4) show "fs = []" "p = buffer c" by simp_all
qed

text \<open>However the bytes are spread over reads and chunks, the frames in them are taken in order.\<close>

lemma reads_stream:
  assumes "usable c" "unfinished (codes c) (buffer c)" "unfinished (codes c) p" "list_all2 (codes c) fs es"
    and "buffer c @ concat (concat css) = concat es @ p" "accepted c fs = fs"
  shows "\<exists>w'. reads_all read ok css (c, w) = (Inr ok, (refill p (after c fs), w'))"
  using assms
proof (induction css arbitrary: c fs es w)
  case Nil
  then show ?case using finished [of c fs es p] refill(3) [of c] by simp
next
  case (Cons cs css)
  obtain es1 es2 p1 where es: "es = es1 @ es2" "buffer c @ concat cs = concat es1 @ p1"
    "p1 @ concat (concat css) = concat es2 @ p" "es2 = [] \<or> (\<exists>q es3. es2 = (p1 @ q) # es3 \<and> q \<noteq> [])"
    using stream_split [of "buffer c @ concat cs" "concat (concat css)" es p] Cons.prems(5) by auto
  obtain fs1 fs2 where fs: "fs = fs1 @ fs2" "list_all2 (codes c) fs1 es1" "list_all2 (codes c) fs2 es2"
    using Cons.prems(4) es(1) by (auto simp: list_all2_append2)
  have part: "unfinished (codes c) p1"
  proof (cases "es2 = []")
    case True
    then show ?thesis using es(3) Cons.prems(3) unfinished_prefix by (metis append_Nil concat.simps(1))
  next
    case False
    then show ?thesis using es(4) fs(3) by (fastforce simp: unfinished_def list_all2_Cons2)
  qed
  have acc: "accepted c fs1 = fs1" "accepted (after c fs1) fs2 = fs2"
    using Cons.prems(6) fs(1) accepted_prefix [of fs1 c] by (auto simp: accepted_append split: if_splits)
  let ?c1 = "refill p1 (after c fs1)"
  obtain w1 where "read cs (c, w) = (Inr ok, (?c1, w1))"
    using read_stream [OF Cons.prems(1) part fs(2) es(2) acc(1)] by blast
  moreover obtain w2 where "reads_all read ok css (?c1, w1) = (Inr ok, (refill p (after ?c1 fs2), w2))"
    using Cons.IH [of ?c1 fs2 es2 w1] Cons.prems(1,3) part fs(3) es(3) acc(2)
    by (auto simp: refill refill_keeps refill_window after_keeps)
  moreover have "refill p (after ?c1 fs2) = refill p (after c fs)"
    using fs(1) acc(1) by (simp add: refill refill_window accepted_append)
  ultimately show ?case by simp
qed

end

end
