(* ===== verification/Server_Stream.thy ===== *)
theory Server_Stream
  imports Server_Session Frame_Stream
begin

text \<open>
  The server's end of an established connection as a stream of messages: frames come out of the
  byte stream whatever way it was cut into chunks, requests are delivered once and in order, and
  everything delivered was authenticated under the session key.
\<close>

section \<open>The server's replay window\<close>

definition request_of :: "ClientConnection \<Rightarrow> Frame \<Rightarrow> Request" where
  "request_of c f = Request_of \<lparr>io_frame = f, io_connectionID = c_connId c\<rparr>"

definition server_admits :: "ClientConnection \<Rightarrow> Frame \<Rightarrow> bool" where
  "server_admits c f \<longleftrightarrow> \<not> (ssid f \<noteq> c_ssid c \<or> fid f \<le> c_lastCliFid c)"

definition server_record :: "Frame \<Rightarrow> ClientConnection \<Rightarrow> ClientConnection" where
  "server_record f c = c\<lparr>c_lastCliFid := fid f, c_requests := c_requests c @ [request_of c f]\<rparr>"

interpretation sw: replay_window c_ssid c_lastCliFid server_admits server_record
  by unfold_locales (auto simp: server_admits_def server_record_def not_le)

lemma deliver_one:
  "deliver h d (f # fs) (c, w) =
    (if server_admits c f then deliver h d fs (server_record f c, w)
     else close_return h d INVALID_REQUEST (c, w))"
  by (auto simp: deliver_step server_admits_def server_record_def request_of_def)

lemma deliver_run:
  "deliver h d fs (c, w) =
    (if sw.accepted c fs = fs then (Inr True, (sw.after c fs, w))
     else close_return h d INVALID_REQUEST (sw.after c fs, w))"
  by (induction fs arbitrary: c) (simp_all add: deliver_one retP_def)

lemma after_fields:
  "c_requests (sw.after c fs) = c_requests c @ map (request_of c) (sw.accepted c fs)"
  "c_state (sw.after c fs) = c_state c" "c_connId (sw.after c fs) = c_connId c"
  "c_aesKey (sw.after c fs) = c_aesKey c" "c_ssid (sw.after c fs) = c_ssid c"
  "c_maxFrameSize (sw.after c fs) = c_maxFrameSize c"
  "c_fd (sw.after c fs) = c_fd c" "c_inFrameBuffer (sw.after c fs) = c_inFrameBuffer c"
  by (induction fs arbitrary: c) (auto simp: server_record_def request_of_def)

section \<open>What a run of the parser keeps\<close>

text \<open>Everything but the state, the descriptor, the sent frames' counter and the buffer.\<close>

definition same_session :: "ClientConnection \<Rightarrow> ClientConnection \<Rightarrow> bool" where
  "same_session c c' \<longleftrightarrow> c_connId c' = c_connId c \<and> c_aesKey c' = c_aesKey c \<and> c_ssid c' = c_ssid c
    \<and> c_lastCliFid c' = c_lastCliFid c \<and> c_requests c' = c_requests c
    \<and> c_maxFrameSize c' = c_maxFrameSize c \<and> c_rsaPrivKey c' = c_rsaPrivKey c"

lemma same_session_trans: "same_session c c' \<Longrightarrow> same_session c' c'' \<Longrightarrow> same_session c c''"
  by (simp add: same_session_def)

lemma same_session_buffer [simp]: "same_session c (c\<lparr>c_inFrameBuffer := b\<rparr>)" "same_session c c"
  by (simp_all add: same_session_def)

lemma closes_same:
  "closeConnection h d r oc (c, w) = (Inr u, (c', w')) \<Longrightarrow> same_session c c' \<and> c_state c' = CLOSED"
  using closeConnection_effect [of h d r oc "(c, w)" u "(c', w')"]
  by (auto simp: shut_def conn_kept_def same_session_def)

lemma sends_same:
  "sendFrame h d f (c, w) = (Inr u, (c', w')) \<Longrightarrow>
    same_session c c' \<and> (c_state c' = c_state c \<or> c_state c' = CLOSED)"
  using sendFrame_effect [of h d f "(c, w)" u "(c', w')"]
  by (auto simp: shut_def open_still_def conn_kept_def same_session_def)

text \<open>A frame that \<open>decodeFrame\<close> accepted under the session key.\<close>

definition authentic :: "host \<Rightarrow> ClientConnection \<Rightarrow> Frame \<Rightarrow> bool" where
  "authentic h c f \<longleftrightarrow> (\<exists>e s s'. decodeFrame (h_ssl h) e True (c_aesKey c) s = (Inr f, s'))"

lemma authentic_same: "same_session c c' \<Longrightarrow> authentic h c' f \<longleftrightarrow> authentic h c f"
  by (simp add: authentic_def same_session_def)

lemma parse_step_cases:
  assumes "parse_step h d frames (c, w) = (Inr x, (c', w'))"
  obtains (stop) "x = Inl frames" "c' = c" "w' = w"
      "length (c_inFrameBuffer c) < 29 \<or> length (c_inFrameBuffer c) < body_len (c_inFrameBuffer c) + 9"
  | (closed) reason u w1 where "closeConnection h d reason True (c, w1) = (Inr u, (c', w'))"
      "x = Inl frames"
  | (frame) n f where "n = body_len (c_inFrameBuffer c) + 9" "n \<le> length (c_inFrameBuffer c)"
      "29 \<le> length (c_inFrameBuffer c)" "validateProtocol (c_inFrameBuffer c)"
      "n \<le> unat (c_maxFrameSize c)"
      "crypto_io (decodeFrame (h_ssl h) (take n (c_inFrameBuffer c)) (fst (decode_args c))
         (snd (decode_args c))) w = (Inr f, w')"
      "x = (if c_state c = HANDSHAKE then Inl else Inr) (frames @ [f])"
      "c' = c\<lparr>c_inFrameBuffer := drop n (c_inFrameBuffer c)\<rparr>"
proof -
  let ?buf = "c_inFrameBuffer c"
  let ?n = "body_len ?buf + 9"
  have closing: thesis if "return_closing h d r frames (c, w1) = (Inr x, (c', w'))" for r w1
    using that closed by (auto simp: return_closing_run split: prod.splits sum.splits)
  show thesis
  proof (cases "29 \<le> length ?buf \<and> validateProtocol ?buf \<and> ?n \<le> unat (c_maxFrameSize c) \<and> ?n \<le> length ?buf")
    case False
    then have "x = Inl frames \<and> c' = c \<and> w' = w \<and> (length ?buf < 29 \<or> length ?buf < ?n)
        \<or> (\<exists>r. return_closing h d r frames (c, w) = (Inr x, (c', w')))"
      using assms by (auto simp: parse_step_eq Let_def split: if_splits)
    then show thesis using stop closing by blast
  next
    case True
    obtain r w1 where dec: "crypto_io (decodeFrame (h_ssl h) (take ?n ?buf) (fst (decode_args c))
         (snd (decode_args c))) w = (r, w1)"
      by (cases "crypto_io (decodeFrame (h_ssl h) (take ?n ?buf) (fst (decode_args c))
         (snd (decode_args c))) w")
    show thesis
    proof (cases r)
      case (Inl e)
      then have "return_closing h d INVALID_REQUEST frames (c, w1) = (Inr x, (c', w'))"
        using assms True dec by (simp add: parse_step_eq Let_def split: if_splits)
      then show thesis by (rule closing)
    next
      case (Inr f)
      have "x = (if c_state c = HANDSHAKE then Inl else Inr) (frames @ [f])"
        "c' = c\<lparr>c_inFrameBuffer := drop ?n ?buf\<rparr>" "w' = w1"
        using assms True dec Inr by (simp_all add: parse_step_eq Let_def split: if_splits)
      with True dec Inr show thesis by (intro frame [OF refl, of f]) auto
    qed
  qed
qed

lemma parse_step_keeps:
  assumes "parse_step h d frames (c, w) = (Inr x, (c', w'))"
  shows "same_session c c' \<and> (c_state c' = CLOSED \<or> c_state c' = c_state c)
    \<and> (\<exists>fs. (x = Inl (frames @ fs) \<or> x = Inr (frames @ fs)) \<and>
         (c_state c \<noteq> HANDSHAKE \<longrightarrow> (\<forall>f \<in> set fs. authentic h c f)))"
  using assms
proof (cases rule: parse_step_cases)
  case stop
  then show ?thesis by (intro conjI exI [of _ "[]"]) simp_all
next
  case (closed reason u w1)
  with closes_same [OF closed(1)] show ?thesis by (intro conjI exI [of _ "[]"]) simp_all
next
  case (frame n f)
  have "authentic h c f" if "c_state c \<noteq> HANDSHAKE"
    using frame(6) that unfolding authentic_def decode_args_def crypto_io_eq by auto
  then show ?thesis using frame(7,8) by (intro conjI exI [of _ "[f]"]) auto
qed

lemma parseFrames_keeps:
  "parseFrames h d frames (c, w) = (Inr gs, (c', w')) \<Longrightarrow>
    same_session c c' \<and> (c_state c' = CLOSED \<or> c_state c' = c_state c)
    \<and> (\<exists>fs. gs = frames @ fs \<and> (c_state c \<noteq> HANDSHAKE \<longrightarrow> (\<forall>f \<in> set fs. authentic h c f)))"
proof (induction "length (c_inFrameBuffer c)" arbitrary: frames c w rule: less_induct)
  case less
  obtain r c1 w1 where step: "parse_step h d frames (c, w) = (r, (c1, w1))"
    by (cases "parse_step h d frames (c, w)") auto
  show ?case
  proof (cases r)
    case (Inl e)
    with less.prems step show ?thesis by (simp add: parseFrames_round)
  next
    case (Inr x)
    note keep = parse_step_keeps [OF step [unfolded Inr]]
    show ?thesis
    proof (cases x)
      case (Inl fs)
      with less.prems step Inr keep show ?thesis by (auto simp: parseFrames_round)
    next
      case next_: (Inr fs)
      then have run: "parseFrames h d fs (c1, w1) = (Inr gs, (c', w'))"
        and "length (c_inFrameBuffer c1) < length (c_inFrameBuffer c)"
        using less.prems step Inr parse_step_consumes [of h d frames "(c, w)" fs "(c1, w1)"]
        by (simp_all add: parseFrames_round [of h d frames])
      with less.hyps have "same_session c1 c' \<and> (c_state c' = CLOSED \<or> c_state c' = c_state c1)
        \<and> (\<exists>fs'. gs = fs @ fs' \<and> (c_state c1 \<noteq> HANDSHAKE \<longrightarrow> (\<forall>f \<in> set fs'. authentic h c1 f)))"
        by blast
      then obtain more where more: "same_session c1 c'" "c_state c' = CLOSED \<or> c_state c' = c_state c1"
        "gs = fs @ more" "c_state c1 \<noteq> HANDSHAKE \<longrightarrow> (\<forall>f \<in> set more. authentic h c1 f)" by blast
      obtain one where one: "fs = frames @ one" "c_state c \<noteq> HANDSHAKE \<longrightarrow> (\<forall>f \<in> set one. authentic h c f)"
        using keep next_ by auto
      have "c_state c1 \<noteq> CLOSED \<Longrightarrow> c_state c1 = c_state c" "same_session c c1" using keep by auto
      moreover have "c_state c \<noteq> HANDSHAKE \<Longrightarrow> c_state c1 \<noteq> HANDSHAKE" using keep by auto
      ultimately have "c_state c \<noteq> HANDSHAKE \<longrightarrow> (\<forall>f \<in> set (one @ more). authentic h c f)"
        using more(4) one(2) authentic_same [of c c1 h] by auto
      moreover have "same_session c c'" using keep more(1) same_session_trans by blast
      moreover have "c_state c' = CLOSED \<or> c_state c' = c_state c" using more(2) keep by auto
      ultimately show ?thesis using more(3) one(1) by auto
    qed
  qed
qed

section \<open>The life of a connection\<close>

text \<open>
  \<open>history h c fs\<close>: the requests delivered are those of the frames \<open>fs\<close>, all authentic, of this
  session, with increasing identifiers; during the handshake there are none.
\<close>

definition history :: "host \<Rightarrow> ClientConnection \<Rightarrow> Frame list \<Rightarrow> bool" where
  "history h c fs \<longleftrightarrow> c_requests c = map (request_of c) fs \<and> window_ok (c_ssid c) (c_lastCliFid c) fs
    \<and> (\<forall>f \<in> set fs. authentic h c f) \<and> (c_state c = HANDSHAKE \<longrightarrow> fs = [])"

lemma request_of_same: "c_connId c' = c_connId c \<Longrightarrow> request_of c' = request_of c"
  by (rule ext) (simp add: request_of_def)

lemma history_same:
  assumes "history h c fs" "same_session c c'" "c_state c' = HANDSHAKE \<longrightarrow> c_state c = HANDSHAKE"
  shows "history h c' fs"
proof -
  have "request_of c' = request_of c"
    by (rule request_of_same) (use assms(2) in \<open>simp add: same_session_def\<close>)
  then show ?thesis
    using assms authentic_same [OF assms(2)] by (simp add: history_def same_session_def)
qed

lemma history_fresh:
  "c_requests c = [] \<Longrightarrow> history h c []"
  by (simp add: history_def)

lemma close_return_closed:
  assumes "close_return h d r (c, w) = (Inr ok, (c', w'))"
  shows "same_session c c' \<and> c_state c' = CLOSED \<and> \<not> ok"
proof -
  obtain u where "closeConnection h d r True (c, w) = (Inr u, (c', w'))" "\<not> ok"
    using assms by (auto simp: close_return_run split: prod.splits sum.splits)
  then show ?thesis using closes_same by blast
qed

lemma close_history:
  "history h c fs \<Longrightarrow> close_return h d r (c, w) = (Inr ok, (c', w')) \<Longrightarrow> history h c' fs"
  using close_return_closed [of h d r c w ok c' w'] history_same [of h c fs c'] by simp

text \<open>A handshake, finished or refused, leaves a connection without requests.\<close>

lemma setAesKey_requests:
  assumes "setAesKey h d key (c, w) = (r, (c', w'))" "r \<noteq> Inl StackOverflow" "gcm_laws (h_ssl h)"
  shows "c_requests c' = c_requests c"
proof -
  obtain q w1 where q: "crypto_io (rand64 (h_ssl h)) w = (q, w1)"
    by (cases "crypto_io (rand64 (h_ssl h)) w")
  show ?thesis
  proof (cases q)
    case (Inl e)
    with assms(1) q show ?thesis by (auto simp: setAesKey_run)
  next
    case (Inr v)
    let ?c1 = "c\<lparr>c_aesKey := key, c_ssid := v\<rparr>"
    let ?f = "makeRespFrame ?c1 [] (lit ''Connection secured'') STATUS_OK 0 0"
    obtain x c2 w2 where snd: "sendFrame h d ?f (?c1, w1) = (x, (c2, w2))"
      by (cases "sendFrame h d ?f (?c1, w1)") auto
    show ?thesis
    proof (cases x)
      case (Inl e)
      then have "e = StackOverflow" using snd send_fault [OF assms(3)] by blast
      with assms q Inr snd Inl show ?thesis by (auto simp: setAesKey_run Let_def)
    next
      case (Inr u)
      then have "c_requests c2 = c_requests c"
        using sends_same [of h d ?f ?c1 w1 u c2 w2] snd by (simp add: same_session_def)
      with assms(1) q \<open>q = Inr v\<close> snd Inr show ?thesis by (auto simp: setAesKey_run Let_def)
    qed
  qed
qed

lemma close_requests:
  "close_return h d r (c, w) = (Inr ok, (c', w')) \<Longrightarrow> c_requests c' = c_requests c"
  using close_return_closed by (simp add: same_session_def)

lemma catch_runtime_cases:
  assumes "catch_runtime m k s = (Inr x, s')"
  shows "m s = (Inr x, s') \<or> (\<exists>e s1. m s = (Inl (Throw e), s1) \<and> k s1 = (Inr x, s'))"
  using assms by (auto simp: catch_runtime_def split: prod.splits sum.splits fault.splits if_splits)

lemma accept_handshake_requests:
  assumes "accept_handshake h d enc (c, w) = (Inr ok, (c', w'))" "gcm_laws (h_ssl h)"
  shows "c_requests c' = c_requests c"
proof -
  note cr = close_requests
  obtain r w1 where dec: "crypto_io (rsaDecrypt (h_ssl h) enc (c_rsaPrivKey c)) w = (r, w1)"
    by (cases "crypto_io (rsaDecrypt (h_ssl h) enc (c_rsaPrivKey c)) w")
  obtain now w2 where now: "getTimestamp h w1 = (now, w2)" by (cases "getTimestamp h w1")
  have "(\<exists>w3. close_return h d ENCRYPTION_ERROR (c, w3) = (Inr ok, (c', w'))) \<or>
      (\<exists>key. catch_runtime (seqP (setAesKey h d key) (retP True))
          (close_return h d ENCRYPTION_ERROR) (c, w2) = (Inr ok, (c', w')))"
    using assms(1) dec now by (auto simp: accept_handshake_run split: sum.splits if_splits option.splits)
  then show ?thesis
  proof (elim disjE exE)
    fix w3 assume "close_return h d ENCRYPTION_ERROR (c, w3) = (Inr ok, (c', w'))"
    then show ?thesis by (rule cr)
  next
    fix key assume "catch_runtime (seqP (setAesKey h d key) (retP True))
        (close_return h d ENCRYPTION_ERROR) (c, w2) = (Inr ok, (c', w'))"
    from catch_runtime_cases [OF this] show ?thesis
    proof (elim disjE exE conjE)
      assume "seqP (setAesKey h d key) (retP True) (c, w2) = (Inr ok, (c', w'))"
      then obtain u where "setAesKey h d key (c, w2) = (Inr u, (c', w'))"
        by (auto simp: bindP_def prog_simps split: prod.splits sum.splits)
      then show ?thesis using setAesKey_requests assms(2) by blast
    next
      fix e s1 assume 1: "seqP (setAesKey h d key) (retP True) (c, w2) = (Inl (Throw e), s1)"
        and 2: "close_return h d ENCRYPTION_ERROR s1 = (Inr ok, (c', w'))"
      obtain c1 w3 where s1: "s1 = (c1, w3)" by (cases s1)
      have "setAesKey h d key (c, w2) = (Inl (Throw e), (c1, w3))"
        using 1 s1 by (auto simp: bindP_def prog_simps split: prod.splits sum.splits)
      then have "c_requests c1 = c_requests c" using setAesKey_requests assms(2) by blast
      with 2 s1 cr show ?thesis by metis
    qed
  qed
qed

lemma readFd_history:
  assumes "gcm_laws (h_ssl h)" "history h c fs" "readFd h d chunks ending (c, w) = (Inr ok, (c', w'))"
  shows "\<exists>gs. history h c' gs"
proof -
  let ?c = "c\<lparr>c_inFrameBuffer := c_inFrameBuffer c @ concat chunks\<rparr>"
  have hist: "history h ?c fs" using assms(2) by (rule history_same) auto
  show ?thesis
  proof (cases "ending = WouldBlock")
    case False
    then obtain r where "close_return h d r (?c, w) = (Inr ok, (c', w'))"
      using assms(3) by (cases ending) (auto simp: readFd_run)
    then show ?thesis using close_history [OF hist] by blast
  next
    case True
    then obtain frames c1 w1 where parse: "parseFrames h d [] (?c, w) = (Inr frames, (c1, w1))"
      using assms(3) by (cases "parseFrames h d [] (?c, w)") (auto simp: readFd_run split: sum.splits)
    note keep = parseFrames_keeps [OF parse]
    have hist1: "history h c1 fs" using keep by (intro history_same [OF hist]) auto
    note run = assms(3) [unfolded readFd_run Let_def True, simplified, unfolded parse, simplified]
    show ?thesis
    proof (cases "c_state c1 = HANDSHAKE \<and> frames \<noteq> []")
      case hs: True
      then have "c_requests c1 = []" using hist1 by (simp add: history_def)
      moreover have "c_requests c' = c_requests c1"
        using run hs accept_handshake_requests assms(1) by auto
      ultimately show ?thesis using history_fresh by metis
    next
      case no_hs: False
      show ?thesis
      proof (cases "c_state c1 = ACTIVE")
        case False
        then show ?thesis using run no_hs hist1 by (auto split: if_splits)
      next
        case act: True
        let ?c2 = "sw.after c1 frames"
        have auth: "\<forall>f \<in> set frames. authentic h c1 f"
          using keep act authentic_same [of ?c c1 h] by auto
        have "request_of ?c2 = request_of c1" by (rule request_of_same) (simp add: after_fields)
        moreover have "authentic h ?c2 f \<longleftrightarrow> authentic h c1 f" for f
          by (simp add: authentic_def after_fields)
        ultimately have hist2: "history h ?c2 (fs @ sw.accepted c1 frames)"
          using hist1 auth act sw.accepted_subset [of c1 frames] sw.history_extends [of c1 fs frames]
          by (auto simp: history_def after_fields)
        have del: "deliver h d frames (c1, w1) = (Inr ok, (c', w'))" using run no_hs act by simp
        show ?thesis
        proof (cases "sw.accepted c1 frames = frames")
          case True
          with del hist2 show ?thesis by (auto simp: deliver_run)
        next
          case False
          with del have "close_return h d INVALID_REQUEST (?c2, w1) = (Inr ok, (c', w'))"
            by (simp add: deliver_run)
          then show ?thesis using close_history [OF hist2] by blast
        qed
      qed
    qed
  qed
qed

text \<open>
  Everything that can happen to a connection between its constructor and its destructor; the
  world changes also through other connections.
\<close>

inductive conn_reach :: "host \<Rightarrow> ClientConnection \<Rightarrow> world \<Rightarrow> bool" for h where
  construct: "conn_reach h (fst (ClientConnection_new n fd mx key)) w"
| on_close: "conn_reach h c w \<Longrightarrow> conn_reach h (setOnClose c) w"
| elsewhere: "conn_reach h c w \<Longrightarrow> conn_reach h c w'"
| read: "conn_reach h c w \<Longrightarrow> readFd h d chunks ending (c, w) = (Inr ok, (c', w')) \<Longrightarrow> conn_reach h c' w'"
| send: "conn_reach h c w \<Longrightarrow> sendFrame h d f (c, w) = (Inr u, (c', w')) \<Longrightarrow> conn_reach h c' w'"
| close: "conn_reach h c w \<Longrightarrow> closeConnection h d r oc (c, w) = (Inr u, (c', w')) \<Longrightarrow> conn_reach h c' w'"

lemma conn_reach_history:
  assumes "gcm_laws (h_ssl h)"
  shows "conn_reach h c w \<Longrightarrow> \<exists>fs. history h c fs"
proof (induction rule: conn_reach.induct)
  case (construct n fd mx key w)
  show ?case by (rule exI [of _ "[]"], rule history_fresh) (simp add: ClientConnection_new_def Let_def)
next
  case (on_close c w)
  then obtain fs where "history h c fs" by blast
  then have "history h (setOnClose c) fs"
    by (rule history_same) (simp_all add: setOnClose_def same_session_def)
  then show ?case by blast
next
  case (read c w d chunks ending ok c' w')
  then show ?case using readFd_history [OF assms] by blast
next
  case (send c w d f u c' w')
  then show ?case using sends_same [OF send.hyps(2)] history_same by (metis ConnectionState.distinct(4))
next
  case (close c w d r oc u c' w')
  then show ?case using closes_same [OF close.hyps(2)] history_same by (metis ConnectionState.distinct(4))
qed

text \<open>
  C4: session replay protection. Over the whole life of a connection, whatever bytes the peer
  sends: the requests handed to the application are those of a list of frames that all decrypted
  and authenticated under the session key, carry the session's identifier, and have strictly
  increasing frame identifiers, so that no frame is delivered twice.
\<close>

theorem session_replay_free:
  assumes "gcm_laws (h_ssl h)" "conn_reach h c w"
  shows "\<exists>fs. c_requests c = map (request_of c) fs \<and> sorted_wrt (<) (map fid fs)
    \<and> distinct (map fid fs) \<and> (\<forall>f \<in> set fs. ssid f = c_ssid c \<and> authentic h c f)"
proof -
  obtain fs where "history h c fs" using conn_reach_history [OF assms] by blast
  then have "sorted_wrt (<) (map fid fs)" and rest: "c_requests c = map (request_of c) fs"
    "\<forall>f \<in> set fs. ssid f = c_ssid c \<and> authentic h c f"
    by (auto simp: history_def window_ok_def)
  moreover from this have "distinct (map fid fs)" by (simp add: strict_sorted_iff)
  ultimately show ?thesis by blast
qed

section \<open>Frames out of a byte stream\<close>

text \<open>\<open>e\<close> is an encoding of \<open>f\<close> under the session key, within the frame limit.\<close>

definition encodes :: "host \<Rightarrow> ClientConnection \<Rightarrow> Frame \<Rightarrow> bytes \<Rightarrow> bool" where
  "encodes h c f e \<longleftrightarrow> sealed (h_ssl h) (c_aesKey c) (c_maxFrameSize c) f e"

definition can_decode :: "host \<Rightarrow> ClientConnection \<Rightarrow> bool" where
  "can_decode h c \<longleftrightarrow> gcm_laws (h_ssl h) \<and> gcm_reliable (h_ssl h) \<and> length (c_aesKey c) = 32"

lemma encodes_facts:
  assumes "can_decode h c" "encodes h c f e"
  shows "57 \<le> length e" "length e \<le> unat (c_maxFrameSize c)" "validateProtocol (e @ x)"
    "body_len (e @ x) + 9 = length e"
    "\<exists>s3. decodeFrame (h_ssl h) e True (c_aesKey c) s2 = (Inr f, s3)"
  using sealed_facts [of "h_ssl h" "c_aesKey c" "c_maxFrameSize c" f e] assms
  by (auto simp: can_decode_def encodes_def)

lemma parse_step_encoded:
  assumes "can_decode h c" "encodes h c f e" "c_state c = ACTIVE" "c_inFrameBuffer c = e @ rest"
  shows "\<exists>w'. parse_step h d gs (c, w) = (Inr (Inr (gs @ [f])), (c\<lparr>c_inFrameBuffer := rest\<rparr>, w'))
    \<and> w_out w' = w_out w \<and> w_closed w' = w_closed w"
proof -
  obtain k where "decodeFrame (h_ssl h) e True (c_aesKey c) (w_crypto w) = (Inr f, k)"
    using encodes_facts(5) [OF assms(1,2)] by blast
  then show ?thesis
    using assms(3,4) encodes_facts(1-4) [OF assms(1,2)]
    by (simp add: parse_step_eq Let_def decode_args_def crypto_io_def)
qed

lemma parse_step_unfinished:
  assumes "can_decode h c" "unfinished (encodes h c) (c_inFrameBuffer c)"
  shows "parse_step h d gs (c, w) = (Inr (Inl gs), (c, w))"
proof (cases "length (c_inFrameBuffer c) < 29")
  case True
  then show ?thesis by (simp add: parse_step_eq Let_def)
next
  case False
  let ?p = "c_inFrameBuffer c"
  obtain f q where q: "q \<noteq> []" "encodes h c f (?p @ q)"
    using assms(2) False by (auto simp: unfinished_def)
  note F = encodes_facts [OF assms(1) q(2)]
  have "validateProtocol ?p" "body_len ?p + 9 = length (?p @ q)"
    using F(3,4) [of "[]"] header_append [of ?p q] False by simp_all
  then show ?thesis using False q(1) F(2) by (simp add: parse_step_eq Let_def)
qed

interpretation ss: frame_stream c_ssid c_lastCliFid server_admits server_record
  "\<lambda>c. can_decode h c \<and> c_state c = ACTIVE" "encodes h" c_inFrameBuffer
  "\<lambda>b c. c\<lparr>c_inFrameBuffer := b\<rparr>" "parse_step h d" "parseFrames h d" "\<lambda>cs. readFd h d cs WouldBlock" True
  for h d
proof (unfold_locales, goal_cases)
  case (1 c f e)
  then show ?case using encodes_facts(1) by fastforce
next
  case (2 c f e g x)
  then show ?case unfolding encodes_def can_decode_def using sealed_prefix by blast
next
  case (13 gs s)
  show ?case by (rule parseFrames_round)
next
  case (14 c f e rest gs w)
  then show ?case using parse_step_encoded by blast
next
  case (15 c gs w)
  then show ?case using parse_step_unfinished by blast
next
  case (16 c cs w fs c' w')
  then show ?case by (simp add: readFd_run deliver_run)
qed (auto simp: can_decode_def encodes_def server_admits_def server_record_def request_of_def fun_eq_iff)

text \<open>
  C9: framing does not depend on how TCP cuts the stream. When the bytes a peer sends are the
  encodings of frames with the session's identifier and increasing frame identifiers, followed by
  the beginning of one more, then however they are spread over calls of \<open>readFd\<close> and over the
  chunks within a call, exactly the requests of these frames are delivered, in order, and only
  that beginning is left in the buffer.
\<close>

theorem stream_delivered:
  assumes "can_decode h c" "c_state c = ACTIVE" "c_inFrameBuffer c = []"
    and "list_all2 (encodes h c) fs es" "concat (concat css) = concat es @ p" "unfinished (encodes h c) p"
    and "sorted_wrt (<) (map fid fs)" "\<forall>f \<in> set fs. ssid f = c_ssid c \<and> c_lastCliFid c < fid f"
  shows "\<exists>c' w'. reads_all (\<lambda>cs. readFd h d cs WouldBlock) True css (c, w) = (Inr True, (c', w'))
    \<and> c_state c' = ACTIVE \<and> c_requests c' = c_requests c @ map (request_of c) fs \<and> c_inFrameBuffer c' = p"
proof -
  have "sw.accepted c fs = fs" by (rule sw.accepts_all [OF assms(7,8)])
  then obtain w' where "reads_all (\<lambda>cs. readFd h d cs WouldBlock) True css (c, w)
      = (Inr True, ((sw.after c fs)\<lparr>c_inFrameBuffer := p\<rparr>, w'))"
    using ss.reads_stream [of h c p fs es css d w] assms by auto
  with \<open>sw.accepted c fs = fs\<close> assms(2) show ?thesis by (simp add: after_fields)
qed

section \<open>Closing, and a peer that stops reading\<close>

text \<open>
  A \<open>closeConnection\<close> that returns leaves the connection closed for good and has closed its
  descriptor exactly once, whatever happened to the farewell frame; a later call changes nothing.
\<close>

lemma close_once:
  assumes "closeConnection h d r oc (c, w) = (Inr u, (c', w'))" "c_state c \<noteq> CLOSED" "c_fd c \<noteq> -1"
  shows "c_state c' = CLOSED \<and> c_fd c' = -1 \<and> real_closes w' = real_closes w @ [c_fd c]
    \<and> c_requests c' = c_requests c
    \<and> closeConnection h (Suc d') r' oc' (c', w'') = (Inr (), (c', w''))"
  using closeConnection_effect [OF assms(1)] assms(2,3)
  by (simp add: shut_def conn_kept_def closeConnection_Suc)

text \<open>
  C35: once a socket refuses every further byte (a client that has stopped reading is enough, as
  the socket does not block), \<open>sendFrame\<close> ends the process: closing sends a farewell frame, which
  fails, which closes, until the stack is gone.
\<close>

theorem failing_socket_crashes_server:
  assumes "gcm_laws (h_ssl h)" "c_state c \<noteq> CLOSED" "c_fd c \<noteq> -1" "sends_fail_from h (w_sends w)"
  shows "fst (sendFrame h d f (c, w)) = Inl StackOverflow"
proof -
  have "cannot_send h c w" using assms by (simp add: cannot_send_def)
  then show ?thesis using cannot_send_overflows by blast
qed

section \<open>Concrete connections\<close>

definition dead_host :: host where
  "dead_host = sample_host\<lparr>h_send := (\<lambda>n fd len. -1)\<rparr>"

definition sample_conn :: ClientConnection where
  "sample_conn = fst (ClientConnection_new 0 5 65536 (lit ''PRIV''))"

definition sample_active :: ClientConnection where
  "sample_active = sample_conn\<lparr>c_state := ACTIVE, c_aesKey := replicate 32 9, c_ssid := 77\<rparr>"

lemma sample_rsa_sizes: "rsa_sizes (h_ssl sample_host)"
  by (auto simp: rsa_sizes_def sample_host_def sample_openssl_def split: if_splits)

lemma sample_conn_fields [simp]:
  "fresh_conn sample_conn" "c_inFrameBuffer sample_conn = []" "c_maxFrameSize sample_conn = 65536"
  "c_rsaPrivKey sample_conn = lit ''PRIV''" "c_fid sample_conn = 0" "c_fd sample_conn = 5"
  "c_requests sample_conn = []" "c_lastCliFid sample_conn = 0" "c_connId sample_conn = 1"
  by (simp_all add: sample_conn_def ClientConnection_new_def fresh_conn_def Let_def)

lemma zeros_are_no_frame:
  "take 4 (replicate 29 0) \<noteq> lit ''fmxp''" "\<not> validateProtocol (replicate 29 0)"
proof -
  have "hd (take 4 (replicate 29 0)) = (0 :: u8)" by simp
  moreover have "hd (lit ''fmxp'') = 102" by (simp add: lit_def of_char_def)
  moreover have "(0 :: u8) \<noteq> 102" by simp
  ultimately show ne: "take 4 (replicate 29 0) \<noteq> lit ''fmxp''" by metis
  then show "\<not> validateProtocol (replicate 29 0)" by (simp add: validateProtocol_def)
qed

theorem bad_hello_crashes_server_witness:
  "fst (readFd sample_host 1000 [replicate 29 0] WouldBlock (sample_conn, sample_world)) = Inl StackOverflow"
  using bad_hello_crashes_server [of sample_conn "[replicate 29 0]" sample_host 1000 sample_world]
    zeros_are_no_frame(1)
  by (simp add: bad_hello_def)

definition hello_data :: bytes where
  "hello_data = replicate 32 9 @ u32ToStr 1000 @ replicate 219 0 @ [36]"

lemma sample_hello:
  "hello sample_host sample_conn (makeFrame 0 STATUS_REQ 0 [] hello_data 1 0) (replicate 32 9) 1000"
  by (simp add: hello_def makeFrame_def hello_data_def rsaDecrypt_def loadPrivateKey_def crypto_run
      sample_host_def sample_openssl_def u32.enc_length lit_def)

theorem handshake_outcome_witness:
  "\<exists>c' w'. readFd sample_host 1
      [header_of (length (encodeBody (makeFrame 0 STATUS_REQ 0 [] hello_data 1 0) 0))
        @ encodeBody (makeFrame 0 STATUS_REQ 0 [] hello_data 1 0) 0]
      WouldBlock (sample_conn, sample_world) = (Inr True, (c', w'))
    \<and> c_state c' = ACTIVE \<and> c_aesKey c' = replicate 32 9"
proof -
  have now: "fst (getTimestamp sample_host sample_world) = 1000"
    by (simp add: getTimestamp_def sample_host_def)
  let ?e = "header_of (length (encodeBody (makeFrame 0 STATUS_REQ 0 [] hello_data 1 0) 0))
        @ encodeBody (makeFrame 0 STATUS_REQ 0 [] hello_data 1 0) 0"
  have one: "concat [?e] = ?e" by (simp del: length_encodeBody)
  have lim: "unat (1000 :: u32) + 60 < 2 ^ 32" by simp
  show ?thesis
    using handshake_outcome [OF sample_conn_fields(1,2) sample_hello one sample_host_laws now lim, of 0]
    by (simp del: length_encodeBody split: if_splits) blast
qed

lemma sample_can_decode: "can_decode sample_host sample_active"
  by (simp add: can_decode_def sample_active_def)

theorem stream_delivered_witness:
  "\<exists>e c' w'. encodes sample_host sample_active sample_frame e
    \<and> reads_all (\<lambda>cs. readFd sample_host 1 cs WouldBlock) True
          [[take 10 e], [], [drop 10 (take 40 e), drop 40 e, take 30 e]] (sample_active, sample_world)
        = (Inr True, (c', w'))
    \<and> c_requests c' = [request_of sample_active sample_frame] \<and> c_inFrameBuffer c' = take 30 e"
proof -
  obtain e s' where "encodeFrame (h_ssl sample_host) sample_frame True (replicate 32 9) 0 no_crypto
      = (Inr e, s')"
    using encrypted_decodes [of "h_ssl sample_host" "replicate 32 9" sample_frame 0 no_crypto] by auto
  then have e: "encodes sample_host sample_active sample_frame e"
    by (auto simp: encodes_def sealed_def sample_active_def)
  have cut: "concat (concat [[take 10 e], [], [drop 10 (take 40 e), drop 40 e, take 30 e]]) = concat [e] @ take 30 e"
    using append_take_drop_id [of 10 "take 40 e"] append_take_drop_id [of 40 e]
    by (simp add: min_def) (metis append.assoc append_take_drop_id)
  have "57 \<le> length e" by (rule encodes_facts(1) [OF sample_can_decode e])
  then have "drop 30 e \<noteq> []" "encodes sample_host sample_active sample_frame (take 30 e @ drop 30 e)" using e by simp_all
  then have rest: "unfinished (encodes sample_host sample_active) (take 30 e)" unfolding unfinished_def by blast
  have "ssid sample_frame = 77" by (simp add: sample_frame_def makeFrame_def)
  then show ?thesis
    using stream_delivered [OF sample_can_decode _ _ _ cut rest, of "[sample_frame]" 1 sample_world] e
    by (fastforce simp: sample_active_def)
qed

theorem session_replay_free_witness:
  "conn_reach sample_host sample_conn sample_world \<and> (\<exists>fs. map (request_of sample_conn) fs = [])"
proof -
  have "conn_reach sample_host sample_conn sample_world"
    unfolding sample_conn_def by (rule conn_reach.construct)
  with session_replay_free [OF sample_host_laws(1) this] show ?thesis by auto
qed

theorem failing_socket_crashes_server_witness:
  "fst (sendFrame dead_host 1000 sample_frame (sample_active, sample_world)) = Inl StackOverflow"
  by (rule failing_socket_crashes_server)
    (simp_all add: dead_host_def sample_host_def sends_fail_from_def sample_active_def)

end
