(* ===== verification/Server_Memory.thy ===== *)
theory Server_Memory
  imports Receive_Memory Server_Stream
begin

text \<open>
  \<open>ClientConnection::readFd\<close> and \<open>_parseFrames\<close> with \<open>_inFrameBuffer\<close> as a \<open>ByteBuffer\<close> in memory:
  what they do when an allocation fails, which the lists of \<open>Server_Connection\<close> do not show, and
  that they do what they do there when none fails.
\<close>

section \<open>The code on its buffer\<close>

definition get_in :: "conn_state \<Rightarrow> bytes" where
  "get_in s = c_inFrameBuffer (fst s)"

definition keep_in :: "bytes \<Rightarrow> conn_state \<Rightarrow> conn_state" where
  "keep_in b s = ((fst s)\<lparr>c_inFrameBuffer := b\<rparr>, snd s)"

text \<open>
  The loop body of \<open>_parseFrames\<close>: \<open>i\<close> is \<open>_inFrameBuffer\<close>, \<open>t\<close> the local \<open>frameBuf\<close>, \<open>u\<close> the temporary
  slice. \<open>frameBuf\<close> is made outside the \<open>try\<close>; \<open>bad_alloc\<close> is of neither type that is caught.
\<close>

definition stops_both :: "exn \<Rightarrow> bool" where
  "stops_both e \<longleftrightarrow> catches_FMXPException e \<or> catches_runtime_error e"

definition parse_step_mem :: "host \<Rightarrow> nat \<Rightarrow> oid \<Rightarrow> oid \<Rightarrow> oid \<Rightarrow> Frame list
    \<Rightarrow> (conn_state, Frame list + Frame list) mem_prog" where
  "parse_step_mem h depth i t u frames = (\<lambda>(m, (c, w)).
    (let buf = bytes_at i m in
     if length buf < MIN_FRAME_SIZE then retP (Inl frames)
     else if \<not> validateProtocol buf then on_rest (return_closing h depth INVALID_REQUEST frames)
     else
       bindP (liftP (\<lambda>_. getFrameBodySize buf)) (\<lambda>bodyLen.
       let n = unat bodyLen + HEADER_SIZE in
       if bodyLen > c_maxFrameSize c \<or> n > unat (c_maxFrameSize c)
       then on_rest (return_closing h depth REQUEST_TOO_LONG frames)
       else if length buf < n then retP (Inl frames)
       else
         seqP (on_heap (slice_bb t i 0 (word_of_nat n)))
         (scoped t
           (bindP (liftP (\<lambda>(m, s). Inr (bytes_at t m))) (\<lambda>frameBuf.
            catching stops_both
             (if c_state c = HANDSHAKE then
                bindP (on_rest (conn_crypto (decodeFrame (h_ssl h) frameBuf False []))) (\<lambda>frame.
                seqP (on_buffer keep_in i (cut_front i u n)) (retP (Inl (frames @ [frame]))))
              else
                bindP (on_rest (conn_crypto (decodeFrame (h_ssl h) frameBuf True (c_aesKey c)))) (\<lambda>frame.
                seqP (on_buffer keep_in i (cut_front i u n)) (retP (Inr (frames @ [frame])))))
             (on_rest (return_closing h depth INVALID_REQUEST frames)))))))
    (m, (c, w)))"

definition parseFrames_mem :: "host \<Rightarrow> nat \<Rightarrow> oid \<Rightarrow> oid \<Rightarrow> oid \<Rightarrow> (conn_state, Frame list) mem_prog" where
  "parseFrames_mem h depth i t u = (\<lambda>(m, s).
     rounds (Suc (length (bytes_at i m))) (parse_step_mem h depth i t u) [] (m, s))"

definition readFd_mem :: "host \<Rightarrow> nat \<Rightarrow> oid \<Rightarrow> oid \<Rightarrow> oid \<Rightarrow> bytes list \<Rightarrow> recv_end \<Rightarrow> (conn_state, bool) mem_prog" where
  "readFd_mem h depth i t u chunks ending =
    seqP (recv_into keep_in i chunks)
    (case ending of
       Disconnect \<Rightarrow> on_rest (close_return h depth NATURAL)
     | SockError \<Rightarrow> on_rest (close_return h depth SOCKET_ERROR)
     | WouldBlock \<Rightarrow> bindP (parseFrames_mem h depth i t u) (\<lambda>frames. on_rest (handle_frames h depth frames)))"

section \<open>It does what the code on lists does, or an allocation has failed\<close>

interpretation in_buffer: receiving get_in keep_in
  by unfold_locales (auto simp: get_in_def keep_in_def)

lemma leaves_upd [leaves_intros]: "(\<And>c. c_inFrameBuffer (f c) = c_inFrameBuffer c) \<Longrightarrow> leaves get_in (upd f)"
  by (auto intro!: leavesI simp: get_in_def upd_def modP_def)

lemma leaves_conn_crypto [leaves_intros]: "leaves get_in (conn_crypto m)"
  by (auto intro!: leavesI simp: get_in_def conn_crypto_def split: prod.split)

lemma leaves_time [leaves_intros]: "leaves get_in (time_of_day h)"
  by (auto intro!: leavesI simp: get_in_def time_of_day_def split: prod.split)

lemma leaves_close [leaves_intros]: "leaves get_in (closeConnection h d r oc)" "leaves get_in (sendFrame h d f)"
  using close_send_buffer by (auto intro!: leavesI simp: get_in_def) (metis prod.collapse)+

lemma leaves_return [leaves_intros]: "leaves get_in (return_closing h d r fs)" "leaves get_in (close_return h d r)"
  unfolding return_closing_def close_return_def by (intro leaves_intros)+

lemma leaves_catch [leaves_intros]: "leaves get_in p \<Longrightarrow> leaves get_in q \<Longrightarrow> leaves get_in (catch_runtime p q)"
  by (auto simp: leaves_def catch_runtime_def split: prod.splits sum.splits fault.splits) (metis snd_conv)+

lemma leaves_deliver [leaves_intros]: "leaves get_in (deliver h d fs)"
proof (induction fs)
  case (Cons f fs)
  then show ?case unfolding deliver.simps(2) validateFrame_def by (intro leaves_intros) simp_all
qed (simp add: leaves_intros)

lemma leaves_handle_frames [leaves_intros]: "leaves get_in (handle_frames h d fs)"
  unfolding handle_frames_def accept_handshake_def setAesKey_def by (intro leaves_intros) simp_all

lemma catch_both_catching: "catch_both = catching stops_both"
  by (intro ext) (simp add: catch_both_def catching_def stops_both_def [abs_def])

lemma consume_runs: "n \<le> length (get_in s) \<Longrightarrow> consume n s = (Inr (), keep_in (drop n (get_in s)) s)"
  by (cases s) (simp add: consume_def get_in_def keep_in_def slice_def conn_run)

lemma taken_frame:
  assumes "holds i m (get_in s)" "view m u = None" "n \<le> length (get_in s)" "length (get_in s) \<le> 2 ^ 63" "u \<noteq> i"
  shows "mirrors get_in i m
    (bindP (on_rest (conn_crypto q)) (\<lambda>x. seqP (on_buffer keep_in i (cut_front i u n)) (retP (g x))) (m, s))
    (bindP (conn_crypto q) (\<lambda>x. seqP (consume n) (retP (g x))) s)"
proof (rule mirrors_bind [where p = "on_rest (conn_crypto q)" and q = "conn_crypto q"])
  show "mirrors get_in i m (on_rest (conn_crypto q) (m, s)) (conn_crypto q s)"
    by (rule mirrors_leaves [OF assms(1) leaves_conn_crypto])
  fix x m' s'
  assume x: "conn_crypto q s = (Inr x, s')" "holds i m' (get_in s')" "view m' = (view m)(i \<mapsto> map Some (get_in s'))"
  have same: "get_in s' = get_in s" using leaves_conn_crypto [of q] x(1) by (metis leaves_def snd_conv)
  have free: "view m' u = None" using x(3) assms(2,5) by simp
  have cut: "mirrors get_in i m' (on_buffer keep_in i (cut_front i u n) (m', s')) (consume n s')"
    using in_buffer.cut_front_mirrors [OF x(2) free, of n] assms(3,4) same by (simp add: consume_runs)
  show "mirrors get_in i m' (seqP (on_buffer keep_in i (cut_front i u n)) (retP (g x)) (m', s'))
      (seqP (consume n) (retP (g x)) s')"
    unfolding seqP_def
    by (rule mirrors_bind [where p = "on_buffer keep_in i (cut_front i u n)" and q = "consume n", OF cut])
      (simp add: retP_def mirrors_ret)
qed

lemma parse_step_mirrors:
  assumes "holds i m (get_in s)" "\<forall>x \<in> {t, u}. view m x = None" "length (get_in s) \<le> 2 ^ 63" "t \<noteq> u"
  shows "mirrors get_in i m (parse_step_mem h d i t u frames (m, s)) (parse_step h d frames s)"
proof -
  obtain c w where s: "s = (c, w)" by (cases s)
  let ?buf = "get_in s"
  have buf: "bytes_at i m = ?buf" "c_inFrameBuffer c = ?buf" using bytes_at_holds [OF assms(1)] s by (simp_all add: get_in_def)
  have distinct: "i \<noteq> t" "i \<noteq> u" using assms(1,2) by (auto simp: holds_def)
  have stay: "mirrors get_in i m (on_rest p (m, s)) (p s)" if "leaves get_in p" for p :: "(Frame list + Frame list) conn"
    by (rule mirrors_leaves [OF assms(1) that])
  have still: "mirrors get_in i m (Inr x, (m, s)) (Inr x, s)" for x :: "Frame list + Frame list"
    by (rule mirrors_ret [where get = get_in, OF assms(1)])
  show ?thesis
  proof (cases "length ?buf < 29 \<or> \<not> validateProtocol ?buf")
    case True
    then show ?thesis using buf stay [OF leaves_return(1)] still s
      by (auto simp: parse_step_mem_def parse_step_def frame_sizes Let_def retP_def)
  next
    case False
    then obtain k where k: "getFrameBodySize ?buf = Inr k" using getFrameBodySize_defined [of ?buf] by auto
    let ?n = "unat k + 9"
    show ?thesis
    proof (cases "k > c_maxFrameSize c \<or> ?n > unat (c_maxFrameSize c) \<or> length ?buf < ?n")
      case True
      then show ?thesis using False buf stay [OF leaves_return(1)] still s k
        by (auto simp: parse_step_mem_def parse_step_def frame_sizes Let_def retP_def bindP_liftP_Inr)
    next
      case fits: False
      let ?front = "take ?n ?buf"
      let ?close = "return_closing h d INVALID_REQUEST frames"
      let ?body = "\<lambda>frameBuf. if c_state c = HANDSHAKE
        then bindP (conn_crypto (decodeFrame (h_ssl h) frameBuf False [])) (\<lambda>f. seqP (consume ?n) (retP (Inl (frames @ [f]))))
        else bindP (conn_crypto (decodeFrame (h_ssl h) frameBuf True (c_aesKey c))) (\<lambda>f. seqP (consume ?n) (retP (Inr (frames @ [f]))))"
      let ?bodym = "\<lambda>frameBuf. if c_state c = HANDSHAKE
        then bindP (on_rest (conn_crypto (decodeFrame (h_ssl h) frameBuf False []))) (\<lambda>f.
          seqP (on_buffer keep_in i (cut_front i u ?n)) (retP (Inl (frames @ [f]))))
        else bindP (on_rest (conn_crypto (decodeFrame (h_ssl h) frameBuf True (c_aesKey c)))) (\<lambda>f.
          seqP (on_buffer keep_in i (cut_front i u ?n)) (retP (Inr (frames @ [f]))))"
      let ?local = "bindP (liftP (\<lambda>(m, s). Inr (bytes_at t m))) (\<lambda>frameBuf. catching stops_both (?bodym frameBuf) (on_rest ?close))"
      have list: "parse_step h d frames s = catching stops_both (?body ?front) ?close s"
        using False fits buf s k
        by (simp add: parse_step_def frame_sizes Let_def bindP_liftP_Inr catch_both_catching slice_def)
      have mem: "parse_step_mem h d i t u frames (m, s)
          = seqP (on_heap (slice_bb t i 0 (word_of_nat ?n))) (scoped t ?local) (m, s)"
        using False fits buf s k by (simp add: parse_step_mem_def frame_sizes Let_def bindP_liftP_Inr)
      show ?thesis unfolding list mem
      proof (rule mirrors_scoped [where get = get_in, OF assms(1)])
        fix m1
        assume m1: "holds i m1 (get_in s)" "view m1 = (view m)(t \<mapsto> map Some ?front)"
        have front: "bytes_at t m1 = ?front" using m1(2) by (intro bytes_at_view) simp
        have free: "view m1 u = None" using m1(2) assms(2,4) by simp
        have "mirrors get_in i m1 (?bodym ?front (m1, s)) (?body ?front s)"
          using taken_frame [OF m1(1) free, where n = ?n and g = "\<lambda>f. Inl (frames @ [f]) :: Frame list + Frame list"]
            taken_frame [OF m1(1) free, where n = ?n and g = "\<lambda>f. Inr (frames @ [f]) :: Frame list + Frame list"] fits assms(3) distinct by simp
        then have "mirrors get_in i m1 (catching stops_both (?bodym ?front) (on_rest ?close) (m1, s))
            (catching stops_both (?body ?front) ?close s)"
          by (rule mirrors_catch) (simp_all add: stops_both_def mirrors_leaves leaves_return)
        then show "mirrors get_in i m1 (?local (m1, s)) (catching stops_both (?body ?front) ?close s)"
          by (simp add: bindP_def liftP_def front)
      qed (use fits assms(2,3) in auto)
    qed
  qed
qed

lemma parseFrames_mirrors:
  assumes "holds i m (get_in s)" "\<forall>x \<in> {t, u}. view m x = None" "length (get_in s) \<le> 2 ^ 63" "t \<noteq> u"
  shows "mirrors get_in i m (parseFrames_mem h d i t u (m, s)) (parseFrames h d [] s)"
proof -
  have "i \<notin> {t, u}" using assms(1,2) by (auto simp: holds_def)
  have "mirrors get_in i m (rounds (Suc (length (get_in s))) (parse_step_mem h d i t u) [] (m, s)) (parseFrames h d [] s)"
    by (rule in_buffer.rounds_mirror [where T = "{t, u}" and step = "parse_step h d"])
      (use assms parse_step_mirrors parse_step_consumes \<open>i \<notin> {t, u}\<close> in \<open>auto simp: get_in_def intro!: parseFrames_round\<close>)
  then show ?thesis using bytes_at_holds [OF assms(1)] by (simp add: parseFrames_mem_def)
qed

lemma readFd_mirrors:
  assumes "holds i m (get_in s)" "\<forall>x \<in> {t, u}. view m x = None" "t \<noteq> u"
    and "length (get_in s @ concat chunks) \<le> 2 ^ 63"
  shows "mirrors get_in i m (readFd_mem h d i t u chunks ending (m, s)) (readFd h d chunks ending s)"
  unfolding readFd_mem_def readFd_def seqP_def
proof (rule mirrors_bind [where p = "recv_into keep_in i chunks" and q = "append_chunks chunks"])
  have app: "append_chunks chunks s = (Inr (), keep_in (get_in s @ concat chunks) s)"
    by (cases s) (simp add: append_chunks_run get_in_def keep_in_def)
  show "mirrors get_in i m (recv_into keep_in i chunks (m, s)) (append_chunks chunks s)"
    using in_buffer.recv_into_mirrors [OF assms(1,4)] by (simp add: app)
  fix x m' s'
  assume s': "append_chunks chunks s = (Inr x, s')" "holds i m' (get_in s')" "view m' = (view m)(i \<mapsto> map Some (get_in s'))"
  have free: "\<forall>x \<in> {t, u}. view m' x = None" using assms(1,2) s'(3) by (auto simp: holds_def)
  have len: "length (get_in s') \<le> 2 ^ 63" using s'(1) assms(4) app by auto
  have rest: "mirrors get_in i m'' (on_rest p (m'', s'')) (p s'')" if "leaves get_in p" "holds i m'' (get_in s'')"
    for p :: "bool conn" and m'' s'' by (rule mirrors_leaves [OF that(2,1)])
  have "mirrors get_in i m' (bindP (parseFrames_mem h d i t u) (\<lambda>frames. on_rest (handle_frames h d frames)) (m', s'))
      (bindP (parseFrames h d []) (handle_frames h d) s')"
    by (rule mirrors_bind [where p = "parseFrames_mem h d i t u" and q = "parseFrames h d []",
          OF parseFrames_mirrors [OF s'(2) free len assms(3)]]) (rule rest [OF leaves_handle_frames])
  then show "mirrors get_in i m'
      ((case ending of Disconnect \<Rightarrow> on_rest (close_return h d NATURAL) | SockError \<Rightarrow> on_rest (close_return h d SOCKET_ERROR)
        | WouldBlock \<Rightarrow> bindP (parseFrames_mem h d i t u) (\<lambda>frames. on_rest (handle_frames h d frames))) (m', s'))
      ((case ending of Disconnect \<Rightarrow> close_return h d NATURAL | SockError \<Rightarrow> close_return h d SOCKET_ERROR
        | WouldBlock \<Rightarrow> bindP (parseFrames h d []) (handle_frames h d)) s')"
    using rest [OF leaves_return(2) s'(2)] by (cases ending) simp_all
qed

section \<open>What \<open>readFd\<close> can end in\<close>

text \<open>
  C21: whatever bytes arrive and whatever OpenSSL, the clock, the socket and the allocator do, \<open>readFd\<close>
  never reads or writes outside \<open>_inFrameBuffer\<close> or the slices it takes of it, and never uses storage
  that is freed. It fails to return in two ways only: the mutual recursion of \<open>closeConnection\<close> and
  \<open>sendFrame\<close> exhausts the stack, or an allocation fails and \<open>bad_alloc\<close> leaves it. The first happens
  just when it happens in \<open>readFd\<close> on lists, with which this one agrees as long as allocations
  succeed; and unless the stack is gone nothing leaks and the buffer holds what the list says. A peer
  can force the second: more bytes at once than the allocator gives out in one block make \<open>append\<close>
  throw, since nothing limits the buffer before the frames are parsed. (\<open>i\<close> is the buffer, \<open>t\<close> and \<open>u\<close>
  its slices; no buffer in memory has \<open>2 ^ 63\<close> bytes. The callbacks are taken not to throw.)
\<close>

theorem readFd_faults:
  assumes "gcm_laws (h_ssl h)" "rsa_sizes (h_ssl h)"
    and "holds i m (c_inFrameBuffer c)" "view m t = None" "view m u = None" "t \<noteq> u"
    and "length (c_inFrameBuffer c @ concat chunks) \<le> 2 ^ 63"
  shows "case readFd_mem h d i t u chunks ending (m, (c, w)) of (r, (m', s')) \<Rightarrow>
      (\<forall>e. r = Inl e \<longrightarrow> e = StackOverflow \<or> e = Throw BadAlloc \<and> \<not> roomy m)
    \<and> (r \<noteq> Inl (Throw BadAlloc) \<longrightarrow> (r, s') = readFd h d chunks ending (c, w))
    \<and> (r \<noteq> Inl StackOverflow \<longrightarrow> mem_ok m' \<and> view m' = (view m)(i \<mapsto> map Some (c_inFrameBuffer (fst s'))))
    \<and> (limited L m \<and> L < length (c_inFrameBuffer c @ concat chunks) \<longrightarrow> r = Inl (Throw BadAlloc))"
proof -
  obtain r m' s' where run: "readFd_mem h d i t u chunks ending (m, (c, w)) = (r, (m', s'))" by (metis surj_pair)
  have h: "holds i m (get_in (c, w))" "length (get_in (c, w) @ concat chunks) \<le> 2 ^ 63"
    using assms(3,7) by (simp_all add: get_in_def)
  have mir: "(r, s') = readFd h d chunks ending (c, w) \<or> r = Inl (Throw BadAlloc) \<and> \<not> roomy m"
    "survives r \<longrightarrow> holds i m' (get_in s') \<and> view m' = (view m)(i \<mapsto> map Some (get_in s'))"
    using readFd_mirrors [OF h(1) _ assms(6) h(2), of h d ending] assms(4,5) run by (auto simp: mirrors_def)
  have faults: "\<forall>e. r = Inl e \<longrightarrow> e = StackOverflow \<or> e = Throw BadAlloc \<and> \<not> roomy m"
  proof (intro allI impI)
    fix e assume "r = Inl e"
    then show "e = StackOverflow \<or> e = Throw BadAlloc \<and> \<not> roomy m"
      using mir(1) readFd_fault [OF assms(1,2), of d chunks ending c w e s'] by auto
  qed
  moreover have "r = Inl (Throw BadAlloc)" if "limited L m" "L < length (c_inFrameBuffer c @ concat chunks)"
  proof -
    have "fst (recv_into keep_in i chunks (m, (c, w))) = Inl (Throw BadAlloc)"
      using in_buffer.flood [OF h(1) that(1) _ h(2)] that(2) by (simp add: get_in_def)
    then have "fst (readFd_mem h d i t u chunks ending (m, (c, w))) = Inl (Throw BadAlloc)"
      unfolding readFd_mem_def by (rule recv_fails)
    then show ?thesis using run by simp
  qed
  moreover have "survives r" if "r \<noteq> Inl StackOverflow"
    using faults that by (cases r) auto
  ultimately show ?thesis using run mir by (auto simp: holds_def get_in_def)
qed

text \<open>
  29 bytes that are no frame exhaust the stack; 65 bytes are too much when no block is larger than 64.
\<close>

theorem readFd_faults_witness:
  "fst (readFd_mem sample_host 9 0 1 2 [replicate 29 0] WouldBlock (one_buffer (\<lambda>n. True), (sample_conn, sample_world)))
      = Inl StackOverflow
   \<and> fst (readFd_mem sample_host 9 0 1 2 [replicate 65 0] WouldBlock (one_buffer (\<lambda>n. n \<le> 64), (sample_conn, sample_world)))
      = Inl (Throw BadAlloc)"
proof
  have holds: "holds 0 (one_buffer can) (c_inFrameBuffer sample_conn)" for can
    by (simp add: one_buffer_facts)
  note faults = readFd_faults [OF sample_host_laws(1) sample_rsa_sizes _ one_buffer_facts(2,3), where c = sample_conn
      and d = 9 and ending = WouldBlock and w = sample_world, OF holds]
  let ?run = "readFd_mem sample_host 9 0 1 2 [replicate 29 0] WouldBlock (one_buffer (\<lambda>n. True), (sample_conn, sample_world))"
  let ?c = "sample_conn\<lparr>c_inFrameBuffer := replicate 29 0\<rparr>"
  have "fresh_conn ?c" using sample_conn_fields(1) by (simp add: fresh_conn_def)
  then have "fst (parse_step sample_host 9 [] (?c, sample_world)) = Inl StackOverflow"
    using fresh_close_overflows(2) [of ?c INVALID_REQUEST sample_host 9 "[]" sample_world]
    by (simp add: parse_step_eq Let_def zeros_are_no_frame(2))
  then have "fst (parseFrames sample_host 9 [] (?c, sample_world)) = Inl StackOverflow"
    by (cases "parse_step sample_host 9 [] (?c, sample_world)") (simp add: parseFrames_round)
  then have list: "fst (readFd sample_host 9 [replicate 29 0] WouldBlock (sample_conn, sample_world)) = Inl StackOverflow"
    by (cases "parseFrames sample_host 9 [] (?c, sample_world)") (simp add: readFd_run)
  obtain r m' s' where run: "?run = (r, (m', s'))" by (metis surj_pair)
  have "roomy (one_buffer (\<lambda>n. True))" by (simp add: roomy_def one_buffer_def)
  then have "(r, s') = readFd sample_host 9 [replicate 29 0] WouldBlock (sample_conn, sample_world)"
    using faults [where chunks = "[replicate 29 0]" , of "\<lambda>n. True"] run by auto
  then show "fst ?run = Inl StackOverflow" using list run by (metis fst_conv)
  let ?flood = "readFd_mem sample_host 9 0 1 2 [replicate 65 0] WouldBlock (one_buffer (\<lambda>n. n \<le> 64), (sample_conn, sample_world))"
  obtain r m' s' where run: "?flood = (r, (m', s'))" by (metis surj_pair)
  then have "r = Inl (Throw BadAlloc)"
    using faults [where chunks = "[replicate 65 0]" and L = 64, of "\<lambda>n. n \<le> 64"] one_buffer_facts(4) by auto
  then show "fst ?flood = Inl (Throw BadAlloc)" using run by simp
qed

end
