(* ===== verification/Concurrent_Queue.thy ===== *)
theory Concurrent_Queue
  imports Errors
begin

text \<open>
  \<open>core/ConcurrentQueue.hpp\<close>: the queue through which other threads hand commands to an epoll
  thread, and the loop \<open>while (queue.tryPop(cmd)) handle(cmd)\<close> with which both epoll threads
  empty it. Every operation holds the mutex from its first to its last access, so an operation
  is one step, and threads interleave whole operations. The locale \<open>fifo\<close> is what a client of a
  queue relies on; it is interpreted here for this class and in \<open>Thread_Pool\<close> for the tasks.
\<close>

section \<open>The class\<close>

record 'a concurrent_queue =
  cq_queue :: "'a list"

definition cq_push :: "'a \<Rightarrow> 'a concurrent_queue \<Rightarrow> 'a concurrent_queue" where
  "cq_push v q = q\<lparr>cq_queue := cq_queue q @ [v]\<rparr>"

text \<open>\<open>tryPop(out)\<close>: \<open>None\<close> is the result false, \<open>out\<close> left alone.\<close>

definition cq_tryPop :: "'a concurrent_queue \<Rightarrow> 'a option \<times> 'a concurrent_queue" where
  "cq_tryPop q = (case cq_queue q of [] \<Rightarrow> (None, q) | v # vs \<Rightarrow> (Some v, q\<lparr>cq_queue := vs\<rparr>))"

definition cq_clear :: "'a concurrent_queue \<Rightarrow> 'a concurrent_queue" where
  "cq_clear q = q\<lparr>cq_queue := []\<rparr>"

definition cq_new :: "'a concurrent_queue" where
  "cq_new = \<lparr>cq_queue = []\<rparr>"

section \<open>What a queue promises\<close>

text \<open>
  \<open>contents\<close> is the list of values pushed and not yet taken, oldest first. A run of operations
  of any number of threads is a list of steps; \<open>taken\<close> collects what the pops returned.
\<close>

datatype 'a queue_op = Push 'a | Pop

locale fifo =
  fixes push :: "'a \<Rightarrow> 'q \<Rightarrow> 'q" and pop :: "'q \<Rightarrow> 'a option \<times> 'q" and contents :: "'q \<Rightarrow> 'a list"
  assumes push_contents: "contents (push v q) = contents q @ [v]"
    and pop_empty: "contents q = [] \<Longrightarrow> fst (pop q) = None \<and> contents (snd (pop q)) = []"
    and pop_first: "contents q = v # vs \<Longrightarrow> fst (pop q) = Some v \<and> contents (snd (pop q)) = vs"
begin

fun do_op :: "'a queue_op \<Rightarrow> 'q \<times> 'a list \<Rightarrow> 'q \<times> 'a list" where
  "do_op (Push v) (q, taken) = (push v q, taken)"
| "do_op Pop (q, taken) =
    (case pop q of (None, q') \<Rightarrow> (q', taken) | (Some v, q') \<Rightarrow> (q', taken @ [v]))"

fun do_ops :: "'a queue_op list \<Rightarrow> 'q \<times> 'a list \<Rightarrow> 'q \<times> 'a list" where
  "do_ops [] s = s"
| "do_ops (opn # ops) s = do_ops ops (do_op opn s)"

fun pushed :: "'a queue_op list \<Rightarrow> 'a list" where
  "pushed [] = []"
| "pushed (Push v # ops) = v # pushed ops"
| "pushed (Pop # ops) = pushed ops"

lemma do_op_conserves:
  "snd (do_op opn (q, tk)) @ contents (fst (do_op opn (q, tk))) = tk @ contents q @ pushed [opn]"
proof (cases opn)
  case (Push v)
  then show ?thesis by (simp add: push_contents)
next
  case Pop
  then show ?thesis
    using pop_empty [of q] pop_first [of q]
    by (cases "contents q"; cases "pop q") (auto split: option.splits)
qed

text \<open>
  Nothing is lost, duplicated or reordered, whatever threads interleave: what was taken and
  what is left is what was there and what was pushed, in order.
\<close>

lemma do_ops_conserves:
  "snd (do_ops ops (q, tk)) @ contents (fst (do_ops ops (q, tk))) = tk @ contents q @ pushed ops"
proof (induction ops arbitrary: q tk)
  case Nil
  then show ?case by simp
next
  case (Cons opn ops)
  obtain q' tk' where step: "do_op opn (q, tk) = (q', tk')" by (cases "do_op opn (q, tk)")
  have "tk' @ contents q' = tk @ contents q @ pushed [opn]"
    using do_op_conserves [of opn q tk] step by simp
  moreover have "pushed (opn # ops) = pushed [opn] @ pushed ops" by (cases opn) simp_all
  ultimately show ?case using Cons.IH [of q' tk'] step by (metis append.assoc do_ops.simps(2))
qed

lemma popped_in_order:
  "contents q = [] \<Longrightarrow> \<exists>rest. pushed ops = snd (do_ops ops (q, [])) @ rest"
  using do_ops_conserves [of ops q "[]"] by (metis append_Nil)

end

interpretation cq: fifo cq_push cq_tryPop cq_queue
  by unfold_locales (simp_all add: cq_push_def cq_tryPop_def)

text \<open>
  The queue of commands loses, repeats and reorders nothing, however the pushes and pops of
  any number of threads interleave: what the pops returned, in order, followed by what is still
  queued, is what was queued at first followed by what was pushed.
\<close>

lemma queue_keeps_order:
  "snd (cq.do_ops ops (q, [])) @ cq_queue (fst (cq.do_ops ops (q, []))) = cq_queue q @ cq.pushed ops"
  using cq.do_ops_conserves [of ops q "[]"] by simp

section \<open>Emptying a queue\<close>

text \<open>
  \<open>while (queue.tryPop(cmd)) handle(cmd);\<close> on the thread that owns the state \<open>'s\<close>, whose queue
  \<open>getq\<close> reads and \<open>setq\<close> writes. A handler that throws ends the loop, its command taken. A
  handler may push again, so the loop need not end: the fuel bounds the commands taken, and
  \<open>None\<close> says that it was not enough.
\<close>

fun drain :: "('s \<Rightarrow> 'a concurrent_queue) \<Rightarrow> ('a concurrent_queue \<Rightarrow> 's \<Rightarrow> 's)
    \<Rightarrow> ('a \<Rightarrow> ('s, fault, unit) prog) \<Rightarrow> nat \<Rightarrow> 's \<Rightarrow> ((fault + unit) \<times> 's) option" where
  "drain getq setq handle fuel s =
    (case cq_tryPop (getq s) of
       (None, q) \<Rightarrow> Some (Inr (), s)
     | (Some cmd, q) \<Rightarrow>
        (case fuel of
           0 \<Rightarrow> None
         | Suc fuel' \<Rightarrow>
            (case handle cmd (setq q s) of
               (Inl e, s') \<Rightarrow> Some (Inl e, s')
             | (Inr _, s') \<Rightarrow> drain getq setq handle fuel' s')))"

declare drain.simps [simp del]

text \<open>The commands of a list, one after the other, until one throws.\<close>

fun handle_all :: "('a \<Rightarrow> ('s, fault, unit) prog) \<Rightarrow> ('a \<Rightarrow> 's \<Rightarrow> 's) \<Rightarrow> 'a list
    \<Rightarrow> ('s, fault, unit) prog" where
  "handle_all handle before [] s = (Inr (), s)"
| "handle_all handle before (c # cs) s =
    (case handle c (before c s) of
       (Inl e, s') \<Rightarrow> (Inl e, s')
     | (Inr _, s') \<Rightarrow> handle_all handle before cs s')"

definition dequeue :: "('s \<Rightarrow> 'a concurrent_queue) \<Rightarrow> ('a concurrent_queue \<Rightarrow> 's \<Rightarrow> 's) \<Rightarrow> 'a \<Rightarrow> 's \<Rightarrow> 's" where
  "dequeue getq setq c s = setq (snd (cq_tryPop (getq s))) s"

text \<open>
  A handler that does not push: the loop ends after at most as many commands as were queued,
  and has then handled them first to last, up to the first that throws.
\<close>

lemma drain_is_handle_all:
  assumes "\<And>q s. getq (setq q s) = q"
    and "\<And>c s. c \<in> set (cq_queue (getq s0)) \<Longrightarrow> getq (snd (handle c s)) = getq s"
    and "length (cq_queue (getq s0)) \<le> fuel"
  shows "drain getq setq handle fuel s0
    = Some (handle_all handle (dequeue getq setq) (cq_queue (getq s0)) s0)"
proof -
  have "\<forall>c \<in> set cs. \<forall>s. getq (snd (handle c s)) = getq s \<Longrightarrow> cq_queue (getq s) = cs \<Longrightarrow> length cs \<le> fuel
    \<Longrightarrow> drain getq setq handle fuel s = Some (handle_all handle (dequeue getq setq) cs s)" for cs s
  proof (induction cs arbitrary: s fuel)
    case Nil
    then show ?case by (simp add: drain.simps [of _ _ _ _ s] cq_tryPop_def)
  next
    case (Cons c cs)
    then obtain fuel' where fuel: "fuel = Suc fuel'" by (cases fuel) auto
    let ?q = "getq s\<lparr>cq_queue := cs\<rparr>"
    have pop: "cq_tryPop (getq s) = (Some c, ?q)" by (simp add: cq_tryPop_def Cons.prems(2))
    obtain r s' where run: "handle c (setq ?q s) = (r, s')" by (cases "handle c (setq ?q s)") auto
    have "getq (snd (handle c (setq ?q s))) = ?q" using Cons.prems(1) assms(1) by simp
    then have "cq_queue (getq s') = cs" using run by simp
    then have "drain getq setq handle fuel' s' = Some (handle_all handle (dequeue getq setq) cs s')"
      using Cons.IH [of s' fuel'] Cons.prems(1,3) fuel by simp
    moreover have "dequeue getq setq c s = setq ?q s" by (simp add: dequeue_def pop)
    ultimately show ?case
      using run pop fuel by (simp add: drain.simps [of _ _ _ _ s] split: sum.split)
  qed
  then show ?thesis using assms(2,3) by blast
qed

text \<open>
  A handler that may push: when a measure falls with every command taken and no handler raises it,
  it is enough fuel.
\<close>

lemma drain_ends:
  assumes "\<And>c q s. cq_tryPop (getq s) = (Some c, q) \<Longrightarrow> m (setq q s) < m s"
    and "\<And>c s u s'. handle c s = (Inr u, s') \<Longrightarrow> m s' \<le> m s"
  shows "m s \<le> fuel \<Longrightarrow> drain getq setq handle fuel s \<noteq> None"
proof (induction fuel arbitrary: s)
  case 0
  then show ?case using assms(1) [of s]
    by (force simp: drain.simps [of _ _ _ _ s] split: prod.split option.split)
next
  case (Suc fuel)
  show ?case
  proof (cases "cq_tryPop (getq s)")
    case (Pair c q)
    show ?thesis
    proof (cases c)
      case None
      with Pair show ?thesis by (simp add: drain.simps [of _ _ _ _ s])
    next
      case (Some cmd)
      then have "m (setq q s) < m s" using assms(1) Pair by blast
      then have "m s' \<le> fuel" if "handle cmd (setq q s) = (Inr u, s')" for u s'
        using assms(2) [OF that] Suc.prems by simp
      with Pair Some Suc.IH show ?thesis
        by (auto simp: drain.simps [of _ _ _ _ s] split: prod.splits sum.splits)
    qed
  qed
qed

text \<open>What taking a command and handling it keep, the loop keeps.\<close>

lemma drain_keeps:
  assumes "\<And>s. R s s" "\<And>s s' s''. R s s' \<Longrightarrow> R s' s'' \<Longrightarrow> R s s''" "\<And>q s. R s (setq q s)"
    and "\<And>c s u s'. handle c s = (Inr u, s') \<Longrightarrow> R s s'"
  shows "drain getq setq handle fuel s = Some (Inr u, s') \<Longrightarrow> R s s'"
proof (induction fuel arbitrary: s)
  case 0
  then show ?case using assms(1)
    by (auto simp: drain.simps [of _ _ _ _ s] split: prod.splits option.splits)
next
  case (Suc fuel)
  obtain c q where pop: "cq_tryPop (getq s) = (c, q)" by fastforce
  show ?case
  proof (cases c)
    case None
    with pop Suc.prems assms(1) show ?thesis by (auto simp: drain.simps [of _ _ _ _ s])
  next
    case (Some cmd)
    with pop Suc.prems obtain v s1 where one: "handle cmd (setq q s) = (Inr v, s1)"
      and rest: "drain getq setq handle fuel s1 = Some (Inr u, s')"
      by (auto simp: drain.simps [of _ _ _ _ s] split: prod.splits sum.splits)
    then show ?thesis using Suc.IH [OF rest] assms(2-4) by blast
  qed
qed

end
