(* ===== verification/Client_Connection.thy ===== *)
theory Client_Connection
  imports Framing Concurrent_Queue
begin

text \<open>
  \<open>client/structures\<close>, \<open>client/Connection.hpp\<close> and \<open>client/Connection.cpp\<close>: the client's end of a
  connection. User threads queue requests and may close; the epoll thread makes the handshake,
  sends what is queued and delivers responses. As in \<open>Server\<close>, what the kernel reports is an
  argument, and the state is threaded through together with the \<open>world\<close>.
\<close>

section \<open>Data\<close>

record ClientRequest =
  creq_path :: bytes
  creq_data :: bytes

record ClientResponse =
  cr_path :: bytes
  cr_data :: bytes
  cr_status :: u8

definition ClientResponse_of :: "Frame \<Rightarrow> ClientResponse" where
  "ClientResponse_of frame = \<lparr>cr_path = path frame, cr_data = data frame, cr_status = status frame\<rparr>"

datatype ClientCommandType = SendFrame | CloseClient

record ClientCommand =
  cc_type :: ClientCommandType
  cc_frame :: "Frame option"

datatype ClientState = Handshaking | Connected | Closed

text \<open>
  The user's functions may call back: \<open>user_code\<close> is what such a function does when it is called,
  its calls of \<open>send\<close> (or \<open>sendReq\<close>) and \<open>close\<close> in order, and the exception it throws in the end,
  if it does.
\<close>

datatype client_call = CallSend bytes bytes | CallClose

type_synonym user_code = "client_call list \<times> exn option"

text \<open>
  The members of \<open>Connection\<close>. \<open>k_responses\<close> is the log of what \<open>_onResponse\<close> was called with,
  \<open>k_closeCalls\<close> counts the calls of \<open>_onClose\<close>, \<open>k_joinable\<close> is \<open>_epollThread.joinable()\<close>,
  \<open>k_wakeups\<close> the counter of the eventfd.
\<close>

record Connection =
  k_host :: bytes
  k_port :: int
  k_pubKey :: bytes
  k_aesKey :: bytes
  k_fid :: u32
  k_rid :: u32
  k_ssid :: u64
  k_lastSrvFid :: u32
  k_state :: ClientState
  k_handshakeSent :: bool
  k_socket :: int
  k_epollFd :: int
  k_cmdEvFd :: int
  k_maxFrameSize :: u32
  k_running :: bool
  k_joinable :: bool
  k_commandQueue :: "ClientCommand concurrent_queue"
  k_frameBuffer :: bytes
  k_onResponse :: "ClientResponse \<Rightarrow> user_code"
  k_responses :: "ClientResponse list"
  k_onClose :: "user_code option"
  k_closeCalls :: nat
  k_wakeups :: nat

type_synonym client_state = "Connection \<times> world"
type_synonym 'a client = "(client_state, fault, 'a) prog"

definition updK :: "(Connection \<Rightarrow> Connection) \<Rightarrow> unit client" where
  "updK f = modP (\<lambda>(k, w). (f k, w))"

definition getK :: "(Connection \<Rightarrow> 'a) \<Rightarrow> 'a client" where
  "getK f = liftP (\<lambda>(k, w). Inr (f k))"

definition client_crypto :: "'a crypto \<Rightarrow> 'a client" where
  "client_crypto m = (\<lambda>(k, w). case crypto_io m w of (r, w') \<Rightarrow> (r, (k, w')))"

section \<open>Connecting\<close>

definition Connection_init :: "bytes \<Rightarrow> int \<Rightarrow> bytes \<Rightarrow> u32 \<Rightarrow> (ClientResponse \<Rightarrow> user_code) \<Rightarrow> Connection" where
  "Connection_init host port pubKey maxFrameSize onResponse =
    \<lparr>k_host = host, k_port = port, k_pubKey = pubKey, k_aesKey = [], k_fid = 0, k_rid = 0,
     k_ssid = 0, k_lastSrvFid = 0, k_state = Handshaking, k_handshakeSent = False, k_socket = -1,
     k_epollFd = -1, k_cmdEvFd = -1, k_maxFrameSize = maxFrameSize, k_running = False,
     k_joinable = False, k_commandQueue = cq_new, k_frameBuffer = [], k_onResponse = onResponse,
     k_responses = [], k_onClose = None, k_closeCalls = 0, k_wakeups = 0\<rparr>"

text \<open>What the calls of \<open>_connect\<close> return, in their order.\<close>

record connect_calls =
  kc_socket :: int
  kc_pton :: int
  kc_connect :: int
  kc_epoll :: int
  kc_eventfd :: int
  kc_addSocket :: int
  kc_addEvent :: int

definition client_error :: "string \<Rightarrow> fault" where
  "client_error msg = Throw (throwErr ERR_CONNECTION msg)"

definition connect_client :: "connect_calls \<Rightarrow> unit client" where
  "connect_client l =
    seqP (updK (\<lambda>k. k\<lparr>k_socket := kc_socket l\<rparr>))
    (seqP (checkP (\<not> kc_socket l < 0) (client_error ''socket failed''))
    (seqP (checkP (\<not> kc_pton l \<le> 0) (client_error ''invalid address''))
    (seqP (checkP (\<not> kc_connect l < 0) (client_error ''connect failed''))
    (seqP (updK (\<lambda>k. k\<lparr>k_epollFd := kc_epoll l\<rparr>))
    (seqP (checkP (\<not> kc_epoll l < 0) (client_error ''epoll_create failed''))
    (seqP (updK (\<lambda>k. k\<lparr>k_cmdEvFd := kc_eventfd l\<rparr>))
    (seqP (checkP (\<not> kc_eventfd l < 0) (client_error ''eventfd failed''))
    (seqP (checkP (\<not> kc_addSocket l < 0) (client_error ''epoll socket add failed''))
    (seqP (checkP (\<not> kc_addEvent l < 0) (client_error ''epoll eventfd add failed''))
    (seqP (updK (\<lambda>k. k\<lparr>k_running := True\<rparr>))
      (updK (\<lambda>k. k\<lparr>k_joinable := True\<rparr>))))))))))))"

definition Connection_new :: "bytes \<Rightarrow> int \<Rightarrow> bytes \<Rightarrow> u32 \<Rightarrow> (ClientResponse \<Rightarrow> user_code)
    \<Rightarrow> connect_calls \<Rightarrow> world \<Rightarrow> (fault + unit) \<times> client_state" where
  "Connection_new host port pubKey maxFrameSize onResponse l w =
    connect_client l (Connection_init host port pubKey maxFrameSize onResponse, w)"

definition setOnResponse :: "(ClientResponse \<Rightarrow> user_code) \<Rightarrow> Connection \<Rightarrow> Connection" where
  "setOnResponse cb k = k\<lparr>k_onResponse := cb\<rparr>"

definition setOnCloseClient :: "user_code \<Rightarrow> Connection \<Rightarrow> Connection" where
  "setOnCloseClient cb k = k\<lparr>k_onClose := Some cb\<rparr>"

section \<open>Queueing requests\<close>

definition makeReqFrame :: "bytes \<Rightarrow> bytes \<Rightarrow> u8 \<Rightarrow> Frame client" where
  "makeReqFrame pa d fl = seqP (updK (\<lambda>k. k\<lparr>k_rid := k_rid k + 1\<rparr>))
     (getK (\<lambda>k. makeFrame (k_fid k) STATUS_REQ fl pa d (k_rid k) (k_ssid k)))"

text \<open>The two public functions that queue a request.\<close>

definition queue_request :: "bytes \<Rightarrow> bytes \<Rightarrow> bool client" where
  "queue_request pa d = (\<lambda>(k, w).
    (if \<not> k_running k \<or> k_state k = Closed then retP False
     else
       bindP (makeReqFrame pa d 0) (\<lambda>frame.
       seqP (updK (\<lambda>k. k\<lparr>k_commandQueue :=
               cq_push \<lparr>cc_type = SendFrame, cc_frame = Some frame\<rparr> (k_commandQueue k)\<rparr>))
      (seqP (updK (\<lambda>k. k\<lparr>k_wakeups := k_wakeups k + 1\<rparr>))
        (retP True)))) (k, w))"

definition sendReq :: "ClientRequest \<Rightarrow> bool client" where
  "sendReq req = queue_request (creq_path req) (creq_data req)"

definition send_request :: "bytes \<Rightarrow> bytes \<Rightarrow> bool client" where
  "send_request pa d = queue_request pa d"

section \<open>Closing\<close>

text \<open>
  \<open>close()\<close> in parts: what comes before the join, and the descriptors. A user thread waits in the
  join for the epoll thread; \<open>rest\<close> is what that thread does until it ends. On the epoll thread
  itself the join is a join of the running thread, for which \<open>std::thread::join\<close> throws
  \<open>std::system_error\<close>.
\<close>

text \<open>
  \<open>_onClose\<close> is called before the state changes: a \<open>close()\<close> in it calls it again, without end.
\<close>

fun onClose_calls :: "client_call list \<Rightarrow> unit client" where
  "onClose_calls [] = retP ()"
| "onClose_calls (CallSend pa d # todo) = bindP (queue_request pa d) (\<lambda>_. onClose_calls todo)"
| "onClose_calls (CallClose # todo) = failP StackOverflow"

definition throwing :: "exn option \<Rightarrow> unit client" where
  "throwing thrown = (case thrown of None \<Rightarrow> retP () | Some e \<Rightarrow> failP (Throw e))"

definition run_onClose :: "unit client" where
  "run_onClose = (\<lambda>(k, w).
    (case k_onClose k of
       None \<Rightarrow> retP ()
     | Some (todo, thrown) \<Rightarrow>
        seqP (updK (\<lambda>k. k\<lparr>k_closeCalls := k_closeCalls k + 1\<rparr>))
        (seqP (onClose_calls todo) (throwing thrown))) (k, w))"

definition close_begin :: "unit client" where
  "close_begin =
    seqP run_onClose
    (seqP (updK (\<lambda>k. k\<lparr>k_state := Closed\<rparr>))
    (seqP (updK (\<lambda>k. k\<lparr>k_running := False\<rparr>))
      (updK (\<lambda>k. k\<lparr>k_wakeups := k_wakeups k + 1\<rparr>))))"

definition close_unless :: "int \<Rightarrow> world \<Rightarrow> world" where
  "close_unless fd w = (if fd \<noteq> -1 then sys_close fd w else w)"

definition close_end :: "unit client" where
  "close_end = modP (\<lambda>(k, w).
     (k\<lparr>k_socket := -1, k_epollFd := -1, k_cmdEvFd := -1\<rparr>,
      close_unless (k_cmdEvFd k) (close_unless (k_epollFd k) (close_unless (k_socket k) w))))"

definition close_epoll :: "unit client" where
  "close_epoll = (\<lambda>(k, w).
    (if \<not> k_running k \<or> k_state k = Closed then retP ()
     else seqP close_begin
       (if k_joinable k then failP (Throw SystemError) else close_end)) (k, w))"

definition close_user :: "unit client \<Rightarrow> unit client" where
  "close_user rest = (\<lambda>(k, w).
    (if \<not> k_running k \<or> k_state k = Closed then retP ()
     else seqP close_begin
       (seqP (if k_joinable k then seqP rest (updK (\<lambda>k. k\<lparr>k_joinable := False\<rparr>)) else retP ())
         close_end)) (k, w))"

definition Connection_delete :: "unit client \<Rightarrow> unit client" where
  "Connection_delete rest = close_user rest"

section \<open>Sending\<close>

text \<open>\<open>::send(_socket, ...)\<close>, its result ignored.\<close>

definition send_once :: "host \<Rightarrow> bytes \<Rightarrow> unit client" where
  "send_once h bs = (\<lambda>(k, w). case sys_send h (k_socket k) bs w of (sent, w') \<Rightarrow> (Inr (), (k, w')))"

definition handleClientCommand :: "host \<Rightarrow> ClientCommand \<Rightarrow> unit client" where
  "handleClientCommand h cmd = (\<lambda>(k, w).
    (case cc_type cmd of
       SendFrame \<Rightarrow>
         (case cc_frame cmd of
            None \<Rightarrow> failP (client_error
              ''Connection::_handleCommand: send command does not have a frame'')
          | Some frame \<Rightarrow>
              if k_state k = Handshaking then
                (if k_handshakeSent k then retP ()
                 else
                   seqP (updK (\<lambda>k. k\<lparr>k_handshakeSent := True\<rparr>))
                   (bindP (client_crypto (encodeFrame (h_ssl h) frame False [] 0)) (\<lambda>toBeSent.
                     send_once h toBeSent)))
              else
                seqP (updK (\<lambda>k. k\<lparr>k_fid := k_fid k + 1\<rparr>))
                (bindP (client_crypto (encodeFrame (h_ssl h) (frame\<lparr>fid := k_fid k + 1\<rparr>) True (k_aesKey k) 0))
                  (\<lambda>encoded. send_once h encoded)))
     | CloseClient \<Rightarrow> close_epoll) (k, w))"

definition client_time :: "host \<Rightarrow> u32 client" where
  "client_time h = (\<lambda>(k, w). case getTimestamp h w of (t, w') \<Rightarrow> (Inr t, (k, w')))"

definition doHandshake :: "host \<Rightarrow> unit client" where
  "doHandshake h =
    bindP (client_crypto (generateAESKey (h_ssl h))) (\<lambda>key.
    seqP (updK (\<lambda>k. k\<lparr>k_aesKey := key\<rparr>))
    (bindP (client_time h) (\<lambda>now.
     bindP (getK k_pubKey) (\<lambda>pubKey.
     bindP (client_crypto (rsaEncrypt (h_ssl h) (key @ u32ToStr now) pubKey)) (\<lambda>encedKey.
     bindP (makeReqFrame [] encedKey 0) (\<lambda>frame.
     handleClientCommand h \<lparr>cc_type = SendFrame, cc_frame = Some frame\<rparr>))))))"

section \<open>Receiving\<close>

definition catch_FMXPException :: "'a client \<Rightarrow> 'a client \<Rightarrow> 'a client" where
  "catch_FMXPException m handler s =
    (case m s of
       (Inl (Throw e), s') \<Rightarrow> if catches_FMXPException e then handler s' else (Inl (Throw e), s')
     | r \<Rightarrow> r)"

definition consumeK :: "nat \<Rightarrow> unit client" where
  "consumeK n = bindP (liftP (\<lambda>(k, w). slice (k_frameBuffer k) n (length (k_frameBuffer k))))
     (\<lambda>b. updK (\<lambda>k. k\<lparr>k_frameBuffer := b\<rparr>))"

definition return_closed :: "Frame list \<Rightarrow> (Frame list + Frame list) client" where
  "return_closed frames = seqP close_epoll (retP (Inl frames))"

text \<open>What is done with a frame that was decoded: \<open>n\<close> bytes are taken off the buffer.\<close>

definition take_frame :: "nat \<Rightarrow> Frame list \<Rightarrow> Frame \<Rightarrow> (Frame list + Frame list) client" where
  "take_frame n frames frame = (\<lambda>(k, w).
    (if k_state k = Handshaking then
       (if data frame = lit ''Connection secured'' then
          seqP (updK (\<lambda>k. k\<lparr>k_state := Connected\<rparr>))
          (seqP (updK (\<lambda>k. k\<lparr>k_ssid := ssid frame\<rparr>))
          (seqP (consumeK n) (retP (Inr frames))))
        else failP (client_error ''Handshake failed''))
     else seqP (consumeK n) (retP (Inr (frames @ [frame])))) (k, w))"

text \<open>\<open>_parseFrames\<close>: the loop body, as in \<open>Server_Connection\<close>. Here one \<open>catch\<close> is missing.\<close>

definition client_parse_step :: "host \<Rightarrow> Frame list \<Rightarrow> (Frame list + Frame list) client" where
  "client_parse_step h frames = (\<lambda>(k, w).
    (let buf = k_frameBuffer k in
     if length buf < MIN_FRAME_SIZE then retP (Inl frames)
     else if \<not> validateProtocol buf then return_closed frames
     else
       bindP (liftP (\<lambda>_. getFrameBodySize buf)) (\<lambda>bodyLen.
       if bodyLen > k_maxFrameSize k \<or> unat bodyLen + HEADER_SIZE > unat (k_maxFrameSize k)
       then return_closed frames
       else if length buf < unat bodyLen + HEADER_SIZE then retP (Inl frames)
       else
         bindP (liftP (\<lambda>_. slice buf 0 (unat bodyLen + HEADER_SIZE))) (\<lambda>frameBuf.
         catch_FMXPException
           (bindP (client_crypto (decodeFrame (h_ssl h) frameBuf True (k_aesKey k)))
             (take_frame (unat bodyLen + HEADER_SIZE) frames))
           (return_closed frames)))) (k, w))"

text \<open>What a function of the user can change by \<open>send\<close>; a \<open>close_begin\<close> also marks the end.\<close>

definition asks_only :: "Connection \<Rightarrow> Connection \<Rightarrow> bool" where
  "asks_only k k' \<longleftrightarrow> (\<exists>r q n m. k' = k\<lparr>k_rid := r, k_commandQueue := q, k_wakeups := n, k_closeCalls := m\<rparr>)"

lemma asks_onlyI: "asks_only k (k\<lparr>k_rid := r, k_commandQueue := q, k_wakeups := n, k_closeCalls := m\<rparr>)"
  unfolding asks_only_def by (intro exI) (rule refl)

lemma asks_only_refl [simp]: "asks_only k k" "asks_only k (k\<lparr>k_closeCalls := m\<rparr>)"
  using asks_onlyI [of k, where r = "k_rid k" and q = "k_commandQueue k" and n = "k_wakeups k" and m = "k_closeCalls k"]
    asks_onlyI [of k, where r = "k_rid k" and q = "k_commandQueue k" and n = "k_wakeups k" and m = m]
  by simp_all

lemma asks_only_trans: "asks_only k k' \<Longrightarrow> asks_only k' k'' \<Longrightarrow> asks_only k k''"
  unfolding asks_only_def by (elim exE, simp, intro exI, rule refl)

lemma asks_only_fields:
  assumes "asks_only k k'"
  shows "k_state k' = k_state k" "k_running k' = k_running k" "k_joinable k' = k_joinable k"
    "k_frameBuffer k' = k_frameBuffer k" "k_responses k' = k_responses k" "k_aesKey k' = k_aesKey k"
    "k_ssid k' = k_ssid k" "k_lastSrvFid k' = k_lastSrvFid k" "k_fid k' = k_fid k"
    "k_socket k' = k_socket k" "k_epollFd k' = k_epollFd k" "k_cmdEvFd k' = k_cmdEvFd k"
    "k_maxFrameSize k' = k_maxFrameSize k" "k_handshakeSent k' = k_handshakeSent k"
    "k_onResponse k' = k_onResponse k" "k_onClose k' = k_onClose k"
  using assms by (auto simp: asks_only_def)

definition request_pushed :: "bytes \<Rightarrow> bytes \<Rightarrow> Connection \<Rightarrow> Connection" where
  "request_pushed pa d k = k\<lparr>k_rid := k_rid k + 1, k_commandQueue :=
      cq_push \<lparr>cc_type = SendFrame, cc_frame = Some
        (makeFrame (k_fid k) STATUS_REQ 0 pa d (k_rid k + 1) (k_ssid k))\<rparr> (k_commandQueue k),
     k_wakeups := k_wakeups k + 1\<rparr>"

lemma queue_request_run:
  "queue_request pa d (k, w) =
    (if \<not> k_running k \<or> k_state k = Closed then (Inr False, (k, w)) else (Inr True, (request_pushed pa d k, w)))"
  by (simp add: queue_request_def makeReqFrame_def bindP_def prog_simps updK_def getK_def request_pushed_def)

lemma request_pushed_asks [simp]: "asks_only k (request_pushed pa d k)"
  using asks_onlyI [of k, where m = "k_closeCalls k"] by (simp add: request_pushed_def)

lemma onClose_calls_asks:
  "onClose_calls todo (k, w) = (r, (k', w')) \<Longrightarrow> asks_only k k' \<and> w' = w"
proof (induction todo arbitrary: k w)
  case (Cons c todo)
  show ?case
  proof (cases c)
    case (CallSend pa d)
    show ?thesis
    proof (cases "\<not> k_running k \<or> k_state k = Closed")
      case True
      with Cons CallSend show ?thesis by (auto simp: bindP_def queue_request_run)
    next
      case False
      then have "onClose_calls todo (request_pushed pa d k, w) = (r, (k', w'))"
        using Cons.prems CallSend by (simp add: bindP_def queue_request_run)
      from Cons.IH [OF this] show ?thesis using asks_only_trans [OF request_pushed_asks] by blast
    qed
  qed (use Cons.prems in \<open>simp add: failP_def\<close>)
qed (simp add: retP_def)

lemma run_onClose_asks:
  assumes "run_onClose (k, w) = (r, (k', w'))"
  shows "asks_only k k'" "w' = w"
proof -
  have "asks_only k k' \<and> w' = w"
  proof (cases "k_onClose k")
    case None
    with assms show ?thesis by (simp add: run_onClose_def retP_def)
  next
    case (Some code)
    let ?k = "k\<lparr>k_closeCalls := k_closeCalls k + 1\<rparr>"
    obtain q k1 w1 where run: "onClose_calls (fst code) (?k, w) = (q, (k1, w1))"
      by (cases "onClose_calls (fst code) (?k, w)") auto
    then have "asks_only ?k k1" "w1 = w" using onClose_calls_asks by blast+
    moreover have "k' = k1 \<and> w' = w1" using assms Some run
      by (auto simp: run_onClose_def bindP_def prog_simps updK_def throwing_def
          split: prod.splits sum.splits option.splits)
    ultimately show ?thesis using asks_only_trans [OF asks_only_refl(2)] by blast
  qed
  then show "asks_only k k'" "w' = w" by simp_all
qed

definition ended :: "Connection \<Rightarrow> Connection" where
  "ended k = k\<lparr>k_state := Closed, k_running := False, k_wakeups := k_wakeups k + 1\<rparr>"

lemma close_begin_run:
  "close_begin (k, w) =
    (case run_onClose (k, w) of (Inl e, s) \<Rightarrow> (Inl e, s) | (Inr u, (k1, w1)) \<Rightarrow> (Inr (), (ended k1, w1)))"
  by (simp add: close_begin_def bindP_def prog_simps updK_def ended_def split: prod.split sum.split)

lemma close_begin_cases:
  assumes "close_begin (k, w) = (r, (k', w'))"
  obtains (thrown) e where "r = Inl e" "asks_only k k'" "w' = w"
  | (begun) k1 where "r = Inr ()" "asks_only k k1" "k' = ended k1" "w' = w"
proof -
  obtain q k1 w1 where run: "run_onClose (k, w) = (q, (k1, w1))" by (cases "run_onClose (k, w)") auto
  note asks = run_onClose_asks [OF run]
  show thesis
  proof (cases q)
    case (Inl e)
    then show thesis using thrown [of e] assms run asks by (simp add: close_begin_run)
  next
    case (Inr u)
    then show thesis using begun [of k1] assms run asks by (simp add: close_begin_run)
  qed
qed

lemma close_epoll_run:
  "close_epoll (k, w) =
    (if \<not> k_running k \<or> k_state k = Closed then (Inr (), (k, w))
     else case close_begin (k, w) of
         (Inl e, s) \<Rightarrow> (Inl e, s)
       | (Inr u, s) \<Rightarrow> if k_joinable k then (Inl (Throw SystemError), s) else close_end s)"
  by (simp add: close_epoll_def bindP_def prog_simps split: prod.split sum.split)

lemma close_end_run:
  "close_end (k, w) = (Inr (), (k\<lparr>k_socket := -1, k_epollFd := -1, k_cmdEvFd := -1\<rparr>,
      close_unless (k_cmdEvFd k) (close_unless (k_epollFd k) (close_unless (k_socket k) w))))"
  by (simp add: close_end_def modP_def)

text \<open>What \<open>close()\<close> on the epoll thread leaves as it was.\<close>

definition closes_only :: "Connection \<Rightarrow> Connection \<Rightarrow> bool" where
  "closes_only k k' \<longleftrightarrow> k_responses k' = k_responses k \<and> k_lastSrvFid k' = k_lastSrvFid k
    \<and> k_aesKey k' = k_aesKey k \<and> k_ssid k' = k_ssid k \<and> (k_state k' = k_state k \<or> k_state k' = Closed)
    \<and> k_handshakeSent k' = k_handshakeSent k \<and> k_frameBuffer k' = k_frameBuffer k
    \<and> k_onResponse k' = k_onResponse k \<and> k_onClose k' = k_onClose k"

lemma asks_closes: "asks_only k k' \<Longrightarrow> closes_only k k'"
  by (simp add: closes_only_def asks_only_fields)

lemma closes_only_more:
  "closes_only k k' \<Longrightarrow> closes_only k (ended k')"
  "closes_only k k' \<Longrightarrow> closes_only k (k'\<lparr>k_socket := a, k_epollFd := b, k_cmdEvFd := c\<rparr>)"
  by (simp_all add: closes_only_def ended_def)

lemma close_begin_only: "close_begin (k, w) = (r, (k', w')) \<Longrightarrow> closes_only k k'"
  by (erule close_begin_cases) (simp_all add: asks_closes closes_only_more)

lemma close_epoll_only:
  assumes "close_epoll (k, w) = (r, (k', w'))"
  shows "closes_only k k'"
proof (cases "\<not> k_running k \<or> k_state k = Closed")
  case True
  with assms show ?thesis by (auto simp: close_epoll_run closes_only_def)
next
  case False
  obtain q k1 w1 where cb: "close_begin (k, w) = (q, (k1, w1))" by (cases "close_begin (k, w)") auto
  note only = close_begin_only [OF cb]
  have run: "close_epoll (k, w) = (case q of Inl e \<Rightarrow> (Inl e, (k1, w1))
      | Inr u \<Rightarrow> if k_joinable k then (Inl (Throw SystemError), (k1, w1)) else close_end (k1, w1))"
    using False cb by (simp add: close_epoll_run split: sum.split)
  show ?thesis
  proof (cases "\<exists>u. q = Inr u \<and> \<not> k_joinable k")
    case True
    then have "close_epoll (k, w) = close_end (k1, w1)" using run by auto
    then have "k' = k1\<lparr>k_socket := -1, k_epollFd := -1, k_cmdEvFd := -1\<rparr>"
      using assms by (simp add: close_end_run)
    then show ?thesis using closes_only_more(2) [OF only] by simp
  next
    case False
    then have "snd (close_epoll (k, w)) = (k1, w1)" using run by (cases q) auto
    then show ?thesis using assms only by simp
  qed
qed

lemma close_epoll_buffer: "close_epoll (k, w) = (r, (k', w')) \<Longrightarrow> k_frameBuffer k' = k_frameBuffer k"
  by (drule close_epoll_only) (simp add: closes_only_def)

lemma client_parse_step_consumes:
  assumes "client_parse_step h frames s = (Inr (Inr frames'), s')"
  shows "length (k_frameBuffer (fst s')) < length (k_frameBuffer (fst s))"
  using assms
  by (cases s)
    (auto simp: client_parse_step_def bindP_def prog_simps return_closed_def catch_FMXPException_def
      consumeK_def client_crypto_def take_frame_def updK_def Let_def frame_sizes
      split: if_splits prod.splits sum.splits fault.splits)

function client_parseFrames :: "host \<Rightarrow> Frame list \<Rightarrow> Frame list client" where
  "client_parseFrames h frames s =
    (case client_parse_step h frames s of
       (Inl e, s') \<Rightarrow> (Inl e, s')
     | (Inr (Inl fs), s') \<Rightarrow> (Inr fs, s')
     | (Inr (Inr fs), s') \<Rightarrow> client_parseFrames h fs s')"
  by pat_completeness auto
termination
  by (relation "measure (\<lambda>(h, fs, s). length (k_frameBuffer (fst s)))")
    (auto dest!: client_parse_step_consumes [OF sym])

declare client_parseFrames.simps [simp del]

definition client_validateFrame :: "Frame \<Rightarrow> bool client" where
  "client_validateFrame frame = (\<lambda>(k, w).
    (if fid frame \<le> k_lastSrvFid k \<or> ssid frame \<noteq> k_ssid k
     then seqP close_epoll (retP False) else retP True) (k, w))"

text \<open>\<open>_onResponse(frame)\<close>, on the epoll thread.\<close>

fun onResponse_calls :: "client_call list \<Rightarrow> unit client" where
  "onResponse_calls [] = retP ()"
| "onResponse_calls (CallSend pa d # todo) = bindP (queue_request pa d) (\<lambda>_. onResponse_calls todo)"
| "onResponse_calls (CallClose # todo) = seqP close_epoll (onResponse_calls todo)"

definition run_onResponse :: "ClientResponse \<Rightarrow> unit client" where
  "run_onResponse r = (\<lambda>(k, w).
    (case k_onResponse k r of (todo, thrown) \<Rightarrow>
      seqP (updK (\<lambda>k. k\<lparr>k_responses := k_responses k @ [r]\<rparr>))
      (seqP (onResponse_calls todo) (throwing thrown))) (k, w))"

fun client_deliver :: "Frame list \<Rightarrow> unit client" where
  "client_deliver [] = retP ()"
| "client_deliver (frame # frames) =
    bindP (client_validateFrame frame) (\<lambda>ok.
    if \<not> ok then retP ()
    else
      seqP (updK (\<lambda>k. k\<lparr>k_lastSrvFid := fid frame\<rparr>))
      (seqP (run_onResponse (ClientResponse_of frame))
        (client_deliver frames)))"

section \<open>The epoll thread\<close>

record client_ev =
  kv_fd :: int
  kv_hup :: bool
  kv_in :: bool
  kv_chunks :: "bytes list"
  kv_end :: recv_end

text \<open>The loop of \<open>recv\<close>, then the frames received.\<close>

definition client_receive :: "host \<Rightarrow> bytes list \<Rightarrow> recv_end \<Rightarrow> unit client" where
  "client_receive h chunks ending =
    seqP (updK (\<lambda>k. k\<lparr>k_frameBuffer := k_frameBuffer k @ concat chunks\<rparr>))
    (seqP (case ending of
        Disconnect \<Rightarrow> close_epoll
      | SockError \<Rightarrow> close_epoll
      | WouldBlock \<Rightarrow> retP ())
    (bindP (client_parseFrames h []) client_deliver))"

abbreviation set_client_queue :: "ClientCommand concurrent_queue \<Rightarrow> client_state \<Rightarrow> client_state" where
  "set_client_queue q s \<equiv> ((fst s)\<lparr>k_commandQueue := q\<rparr>, snd s)"

text \<open>
  A CLOSE command makes \<open>_onClose\<close> run, which may queue requests, once; the fuel counts them
  (\<open>drain_client_total\<close>).
\<close>

definition drain_fuel :: "Connection \<Rightarrow> nat" where
  "drain_fuel k = length (cq_queue (k_commandQueue k))
     + (case k_onClose k of None \<Rightarrow> 0 | Some (todo, thrown) \<Rightarrow> length todo)"

definition drain_client :: "host \<Rightarrow> unit client" where
  "drain_client h s =
    (case drain (\<lambda>s. k_commandQueue (fst s)) set_client_queue (handleClientCommand h)
        (drain_fuel (fst s)) s of
       None \<Rightarrow> (Inl Diverges, s)
     | Some r \<Rightarrow> r)"

definition handle_client_event :: "host \<Rightarrow> client_ev \<Rightarrow> unit client" where
  "handle_client_event h ev = (\<lambda>(k, w).
    (if kv_fd ev = k_cmdEvFd k then
       seqP (updK (\<lambda>k. k\<lparr>k_wakeups := 0\<rparr>)) (drain_client h)
     else if kv_fd ev = k_socket k then
       (if kv_hup ev then close_epoll
        else if kv_in ev then client_receive h (kv_chunks ev) (kv_end ev)
        else retP ())
     else retP ()) (k, w))"

fun handle_client_events :: "host \<Rightarrow> client_ev list \<Rightarrow> unit client" where
  "handle_client_events h [] = retP ()"
| "handle_client_events h (ev # evs) = seqP (handle_client_event h ev) (handle_client_events h evs)"

text \<open>As \<open>epollLoop\<close> of \<open>Server\<close>: the results of the first waits, with what user threads did before.\<close>

fun client_loop :: "host \<Rightarrow> ((Connection \<Rightarrow> Connection) \<times> client_ev list) list \<Rightarrow> unit client" where
  "client_loop h [] = retP ()"
| "client_loop h ((between, evs) # waits) = (\<lambda>(k, w).
    (if \<not> k_running k then retP ()
     else seqP (updK between) (seqP (handle_client_events h evs) (client_loop h waits))) (k, w))"

definition client_epollLoop ::
    "host \<Rightarrow> ((Connection \<Rightarrow> Connection) \<times> client_ev list) list \<Rightarrow> unit client" where
  "client_epollLoop h waits = seqP (doHandshake h) (client_loop h waits)"

end
