(* ===== verification/Client_Session.thy ===== *)
theory Client_Session
  imports Client_Connection Replay_Window
begin

text \<open>
  What the client's end does: which failures end the process, which frames are delivered as
  responses, what becomes of requests, and closing. The replay window of \<open>Replay_Window\<close> is
  interpreted for the client.
\<close>

section \<open>Running the operations\<close>

named_theorems client_run "running the programs of the client"

lemmas [client_run] = bindP_def prog_simps updK_def getK_def client_crypto_def Let_def

text \<open>User code that neither closes nor throws; what its calls of \<open>send\<close> leave.\<close>

definition harmless :: "user_code \<Rightarrow> bool" where
  "harmless code \<longleftrightarrow> CallClose \<notin> set (fst code) \<and> snd code = None"

fun asked :: "client_call list \<Rightarrow> Connection \<Rightarrow> Connection" where
  "asked [] k = k"
| "asked (CallSend pa d # todo) k =
    asked todo (if \<not> k_running k \<or> k_state k = Closed then k else request_pushed pa d k)"
| "asked (CallClose # todo) k = asked todo k"

lemma asked_asks [simp]: "asks_only k (asked todo k)"
  by (induction todo k rule: asked.induct) (auto intro: asks_only_trans [OF request_pushed_asks])

lemmas asked_fields [simp] = asks_only_fields [OF asked_asks]

lemma calls_run:
  assumes "CallClose \<notin> set todo"
  shows "onClose_calls todo (k, w) = (Inr (), (asked todo k, w))"
    and "onResponse_calls todo (k, w) = (Inr (), (asked todo k, w))"
  using assms
  by (induction todo k rule: asked.induct) (auto simp: bindP_def retP_def queue_request_run)

text \<open>A client whose epoll thread runs, and whose \<open>_onClose\<close> does no harm.\<close>

definition calm :: "Connection \<Rightarrow> bool" where
  "calm k \<longleftrightarrow> (\<forall>code. k_onClose k = Some code \<longrightarrow> harmless code)"

lemma calm_onClose:
  assumes "calm k"
  obtains k1 where "run_onClose (k, w) = (Inr (), (k1, w))" "asks_only k k1"
    "k_closeCalls k1 = k_closeCalls k + (if k_onClose k = None then 0 else 1)"
proof -
  have counts: "k_closeCalls (asked todo k') = k_closeCalls k'" for todo k'
    by (induction todo k' rule: asked.induct) (simp_all add: request_pushed_def)
  show thesis
  proof (cases "k_onClose k")
    case None
    then show thesis using that [of k] by (simp add: run_onClose_def retP_def)
  next
    case (Some code)
    then have h: "CallClose \<notin> set (fst code)" "snd code = None" using assms by (auto simp: calm_def harmless_def)
    let ?k1 = "asked (fst code) (k\<lparr>k_closeCalls := k_closeCalls k + 1\<rparr>)"
    have "run_onClose (k, w) = (Inr (), (?k1, w))"
      using Some h by (cases code) (simp add: run_onClose_def client_run calls_run throwing_def)
    moreover have "asks_only k ?k1" using asks_only_trans [OF asks_only_refl(2) asked_asks] .
    ultimately show thesis using that Some counts by simp
  qed
qed

definition live :: "Connection \<Rightarrow> bool" where
  "live k \<longleftrightarrow> k_running k \<and> k_joinable k \<and> k_state k \<noteq> Closed"

text \<open>Closing from the epoll thread is fatal.\<close>

lemma live_close:
  assumes "live k" "calm k"
  shows "\<exists>k'. close_epoll (k, w) = (Inl (Throw SystemError), (k', w))"
proof -
  obtain k1 where "run_onClose (k, w) = (Inr (), (k1, w))" by (rule calm_onClose [OF assms(2)])
  then show ?thesis using assms(1) by (simp add: live_def close_epoll_run close_begin_run)
qed

lemma return_closed_run:
  "return_closed frames s =
    (case close_epoll s of (Inl e, s') \<Rightarrow> (Inl e, s') | (Inr u, s') \<Rightarrow> (Inr (Inl frames), s'))"
  by (simp add: return_closed_def client_run split: prod.split sum.split)

lemma take_frame_run:
  "n \<le> length (k_frameBuffer k) \<Longrightarrow> take_frame n frames f (k, w) =
    (if k_state k = Handshaking then
       if data f = lit ''Connection secured''
       then (Inr (Inr frames), (k\<lparr>k_state := Connected, k_ssid := ssid f,
          k_frameBuffer := drop n (k_frameBuffer k)\<rparr>, w))
       else (Inl (client_error ''Handshake failed''), (k, w))
     else (Inr (Inr (frames @ [f])), (k\<lparr>k_frameBuffer := drop n (k_frameBuffer k)\<rparr>, w)))"
  by (simp add: take_frame_def consumeK_def client_run)

text \<open>What \<open>_parseFrames\<close> catches.\<close>

definition stopped :: "fault \<Rightarrow> bool" where
  "stopped e \<longleftrightarrow> (case e of Throw x \<Rightarrow> catches_FMXPException x | _ \<Rightarrow> False)"

lemma stopped_Throw [simp]: "stopped (Throw x) = catches_FMXPException x"
  by (simp add: stopped_def)

lemma decode_and_take:
  assumes "n \<le> length (k_frameBuffer k)"
  shows "catch_FMXPException (bindP (client_crypto m) (take_frame n frames)) handler (k, w)
    = (case crypto_io m w of
         (Inr f, w1) \<Rightarrow> take_frame n frames f (k, w1)
       | (Inl e, w1) \<Rightarrow> if stopped e then handler (k, w1)
                       else (Inl e, (k, w1)))"
proof (cases "crypto_io m w")
  case (Pair r w1)
  show ?thesis
  proof (cases r)
    case (Inl e)
    with Pair show ?thesis
      by (cases e) (simp_all add: catch_FMXPException_def bindP_def client_crypto_def stopped_def)
  next
    case (Inr f)
    obtain q s1 where tf: "take_frame n frames f (k, w1) = (q, s1)" by (cases "take_frame n frames f (k, w1)")
    have "\<not> catches_FMXPException x" if "q = Inl (Throw x)" for x
      using tf that assms by (auto simp: take_frame_run client_error_def split: if_splits)
    then show ?thesis using Pair Inr tf
      by (auto simp: catch_FMXPException_def bindP_def client_crypto_def split: sum.split fault.split)
  qed
qed

lemma client_parse_step_eq:
  "client_parse_step h frames (k, w) =
    (let buf = k_frameBuffer k; n = body_len buf + 9 in
     if length buf < 29 then (Inr (Inl frames), (k, w))
     else if \<not> validateProtocol buf \<or> n > unat (k_maxFrameSize k) then return_closed frames (k, w)
     else if length buf < n then (Inr (Inl frames), (k, w))
     else case crypto_io (decodeFrame (h_ssl h) (take n buf) True (k_aesKey k)) w of
         (Inr f, w1) \<Rightarrow> take_frame n frames f (k, w1)
       | (Inl e, w1) \<Rightarrow> if stopped e then return_closed frames (k, w1)
                       else (Inl e, (k, w1)))"
proof (cases "length (k_frameBuffer k) < 29 \<or> \<not> validateProtocol (k_frameBuffer k)")
  case True
  then show ?thesis by (auto simp: client_parse_step_def frame_sizes retP_def Let_def)
next
  case False
  then obtain n where n: "getFrameBodySize (k_frameBuffer k) = Inr n"
    using getFrameBodySize_defined [of "k_frameBuffer k"] by auto
  then have len: "body_len (k_frameBuffer k) = unat n" by (simp add: body_len_def)
  have max: "k_maxFrameSize k < n \<Longrightarrow> unat (k_maxFrameSize k) < unat n + 9"
    by (simp add: word_less_nat_alt)
  show ?thesis
  proof (cases "unat (k_maxFrameSize k) < unat n + 9 \<or> length (k_frameBuffer k) < unat n + 9")
    case True
    then show ?thesis using False max
      by (auto simp: client_parse_step_def frame_sizes Let_def len n bindP_liftP_Inr retP_def)
  next
    case fits: False
    then have "\<not> k_maxFrameSize k < n" using max by blast
    then show ?thesis using False fits
      by (simp add: client_parse_step_def frame_sizes Let_def len n bindP_liftP_Inr decode_and_take
          split: prod.split sum.split)
  qed
qed

lemma client_parse_step_cases:
  assumes "client_parse_step h frames (k, w) = (r, s')"
  obtains (stop) "r = Inr (Inl frames)" "s' = (k, w)"
  | (closed) w1 where "return_closed frames (k, w1) = (r, s')"
  | (frame) n f w1 where "n \<le> length (k_frameBuffer k)"
      "crypto_io (decodeFrame (h_ssl h) (take n (k_frameBuffer k)) True (k_aesKey k)) w = (Inr f, w1)"
      "take_frame n frames f (k, w1) = (r, s')"
  | (bad) n e w1 where
      "crypto_io (decodeFrame (h_ssl h) (take n (k_frameBuffer k)) True (k_aesKey k)) w = (Inl e, w1)"
      "\<not> stopped e" "r = Inl e" "s' = (k, w1)"
proof -
  let ?buf = "k_frameBuffer k"
  let ?n = "body_len ?buf + 9"
  show thesis
  proof (cases "length ?buf < 29 \<or> \<not> validateProtocol ?buf \<or> unat (k_maxFrameSize k) < ?n \<or> length ?buf < ?n")
    case True
    then have "r = Inr (Inl frames) \<and> s' = (k, w) \<or> return_closed frames (k, w) = (r, s')"
      using assms by (simp add: client_parse_step_eq Let_def split: if_splits)
    then show thesis using stop closed by blast
  next
    case False
    obtain q w1 where dec:
      "crypto_io (decodeFrame (h_ssl h) (take ?n ?buf) True (k_aesKey k)) w = (q, w1)"
      by (cases "crypto_io (decodeFrame (h_ssl h) (take ?n ?buf) True (k_aesKey k)) w")
    show thesis
    proof (cases q)
      case (Inr f)
      then have "take_frame ?n frames f (k, w1) = (r, s')"
        using assms False dec by (simp add: client_parse_step_eq Let_def)
      then show thesis using False dec Inr frame [of ?n f w1] by simp
    next
      case (Inl e)
      show thesis
      proof (cases "stopped e")
        case True
        then have "return_closed frames (k, w1) = (r, s')"
          using assms False dec Inl by (auto simp: client_parse_step_eq Let_def)
        then show thesis by (rule closed)
      next
        case none: False
        then have "r = Inl e" "s' = (k, w1)"
          using assms False dec Inl by (auto simp: client_parse_step_eq Let_def)
        then show thesis using dec Inl none bad [of ?n e w1] by blast
      qed
    qed
  qed
qed

lemma client_parse_round:
  "client_parseFrames h frames s =
    (case client_parse_step h frames s of
       (Inl e, s') \<Rightarrow> (Inl e, s')
     | (Inr (Inl fs), s') \<Rightarrow> (Inr fs, s')
     | (Inr (Inr fs), s') \<Rightarrow> client_parseFrames h fs s')"
  by (rule client_parseFrames.simps)

lemma client_receive_run:
  "client_receive h chunks ending (k, w) =
    (let s = (k\<lparr>k_frameBuffer := k_frameBuffer k @ concat chunks\<rparr>, w) in
     case (if ending = WouldBlock then (Inr (), s) else close_epoll s) of
       (Inl e, s') \<Rightarrow> (Inl e, s')
     | (Inr u, s') \<Rightarrow>
         (case client_parseFrames h [] s' of
            (Inl e, s') \<Rightarrow> (Inl e, s')
          | (Inr frames, s') \<Rightarrow> client_deliver frames s'))"
  by (cases ending) (simp_all add: client_receive_def client_run split: prod.split sum.split)

section \<open>The client's replay window\<close>

definition client_admits :: "Connection \<Rightarrow> Frame \<Rightarrow> bool" where
  "client_admits k f \<longleftrightarrow> \<not> (fid f \<le> k_lastSrvFid k \<or> ssid f \<noteq> k_ssid k)"

definition client_record :: "Frame \<Rightarrow> Connection \<Rightarrow> Connection" where
  "client_record f k = asked (fst (k_onResponse k (ClientResponse_of f)))
    (k\<lparr>k_lastSrvFid := fid f, k_responses := k_responses k @ [ClientResponse_of f]\<rparr>)"

lemma client_record_fields [simp]:
  "k_responses (client_record f k) = k_responses k @ [ClientResponse_of f]" "k_lastSrvFid (client_record f k) = fid f"
  "k_state (client_record f k) = k_state k" "k_aesKey (client_record f k) = k_aesKey k"
  "k_ssid (client_record f k) = k_ssid k" "k_frameBuffer (client_record f k) = k_frameBuffer k"
  "k_running (client_record f k) = k_running k" "k_joinable (client_record f k) = k_joinable k"
  "k_handshakeSent (client_record f k) = k_handshakeSent k" "k_socket (client_record f k) = k_socket k"
  "k_maxFrameSize (client_record f k) = k_maxFrameSize k" "k_fid (client_record f k) = k_fid k"
  "k_onResponse (client_record f k) = k_onResponse k" "k_onClose (client_record f k) = k_onClose k"
  "k_cmdEvFd (client_record f k) = k_cmdEvFd k"
  by (simp_all add: client_record_def)

interpretation cw: replay_window k_ssid k_lastSrvFid client_admits client_record
  by unfold_locales (auto simp: client_admits_def not_le)

lemma client_after_fields:
  "k_responses (cw.after k fs) = k_responses k @ map ClientResponse_of (cw.accepted k fs)"
  "k_state (cw.after k fs) = k_state k" "k_aesKey (cw.after k fs) = k_aesKey k"
  "k_ssid (cw.after k fs) = k_ssid k" "k_frameBuffer (cw.after k fs) = k_frameBuffer k"
  "k_running (cw.after k fs) = k_running k" "k_joinable (cw.after k fs) = k_joinable k"
  "k_handshakeSent (cw.after k fs) = k_handshakeSent k" "k_socket (cw.after k fs) = k_socket k"
  "k_onResponse (cw.after k fs) = k_onResponse k" "k_onClose (cw.after k fs) = k_onClose k"
  by (induction fs arbitrary: k) auto

lemma client_deliver_one:
  "client_deliver (f # fs) (k, w) =
    (if client_admits k f
     then case run_onResponse (ClientResponse_of f) (k\<lparr>k_lastSrvFid := fid f\<rparr>, w) of
         (Inl e, s) \<Rightarrow> (Inl e, s) | (Inr u, s) \<Rightarrow> client_deliver fs s
     else close_epoll (k, w))"
  by (simp add: client_validateFrame_def client_admits_def client_run split: prod.split sum.split)

declare client_deliver.simps(2) [simp del]

text \<open>A client whose \<open>_onResponse\<close> does no harm, whatever the response.\<close>

definition polite :: "Connection \<Rightarrow> bool" where
  "polite k \<longleftrightarrow> (\<forall>r. harmless (k_onResponse k r))"

lemma polite_onResponse:
  assumes "polite k"
  shows "run_onResponse (ClientResponse_of f) (k\<lparr>k_lastSrvFid := fid f\<rparr>, w) = (Inr (), (client_record f k, w))"
proof -
  let ?code = "k_onResponse k (ClientResponse_of f)"
  have "harmless ?code" using assms by (simp add: polite_def)
  then show ?thesis
    by (cases ?code) (simp add: harmless_def run_onResponse_def client_run calls_run throwing_def client_record_def)
qed

lemma polite_record [simp]: "polite (client_record f k) = polite k"
  by (simp add: polite_def)

lemma client_deliver_run:
  "polite k \<Longrightarrow> client_deliver fs (k, w) =
    (if cw.accepted k fs = fs then (Inr (), (cw.after k fs, w)) else close_epoll (cw.after k fs, w))"
  by (induction fs arbitrary: k) (simp_all add: client_deliver_one polite_onResponse retP_def)

section \<open>What ends the client's process\<close>

text \<open>
  What the user's functions can throw: their own exception, or, when \<open>_onClose\<close> closes, the stack.
\<close>

definition user_fault :: "Connection \<Rightarrow> fault \<Rightarrow> bool" where
  "user_fault k e \<longleftrightarrow>
    (\<exists>x. e = Throw x \<and> ((\<exists>r. snd (k_onResponse k r) = Some x) \<or> (\<exists>todo. k_onClose k = Some (todo, Some x))))
    \<or> e = StackOverflow \<and> (\<exists>todo thrown. k_onClose k = Some (todo, thrown) \<and> CallClose \<in> set todo)"

definition fatal :: "Connection \<Rightarrow> fault \<Rightarrow> bool" where
  "fatal k e \<longleftrightarrow> e = Throw SystemError \<or> (\<exists>m. e = Throw (RuntimeError m)) \<or> user_fault k e"

definition same_code :: "Connection \<Rightarrow> Connection \<Rightarrow> bool" where
  "same_code k k' \<longleftrightarrow> k_onResponse k' = k_onResponse k \<and> k_onClose k' = k_onClose k"

lemma fatal_same: "same_code k k' \<Longrightarrow> fatal k' e = fatal k e"
  by (simp add: same_code_def fatal_def user_fault_def)

lemma same_code_asks: "asks_only k k' \<Longrightarrow> same_code k k'"
  by (simp add: same_code_def asks_only_fields)

lemma same_code_close: "close_epoll (k, w) = (r, (k', w')) \<Longrightarrow> same_code k k'"
  by (drule close_epoll_only) (simp add: closes_only_def same_code_def)

lemma same_code_trans: "same_code k k' \<Longrightarrow> same_code k' k'' \<Longrightarrow> same_code k k''"
  by (simp add: same_code_def)

lemma onClose_calls_fault: "onClose_calls todo (k, w) = (Inl e, s) \<Longrightarrow> e = StackOverflow \<and> CallClose \<in> set todo"
  by (induction todo k rule: asked.induct)
    (auto simp: bindP_def retP_def failP_def queue_request_run split: if_splits)

lemma close_epoll_fault:
  assumes "close_epoll (k, w) = (Inl e, s)"
  shows "fatal k e"
proof -
  have "user_fault k e'" if "run_onClose (k, w) = (Inl e', s')" for e' s'
  proof (cases "k_onClose k")
    case None
    with that show ?thesis by (simp add: run_onClose_def retP_def)
  next
    case (Some code)
    then show ?thesis using that
      by (cases code; cases "snd code")
        (auto simp: run_onClose_def client_run throwing_def user_fault_def
          dest: onClose_calls_fault split: prod.splits sum.splits)
  qed
  then show ?thesis
    using assms by (auto simp: close_epoll_run close_begin_run close_end_run fatal_def split: if_splits prod.splits sum.splits)
qed

lemma onResponse_calls_fault:
  "onResponse_calls todo (k, w) = (r, (k', w')) \<Longrightarrow> same_code k k' \<and> (\<forall>e. r = Inl e \<longrightarrow> fatal k e)"
proof (induction todo arbitrary: k w)
  case Nil
  then show ?case by (auto simp: retP_def same_code_def)
next
  case (Cons c todo)
  obtain q k1 w1 where one: "(case c of CallSend pa d \<Rightarrow> bindP (queue_request pa d) (\<lambda>_. retP ()) | CallClose \<Rightarrow> close_epoll) (k, w) = (q, (k1, w1))"
    by (metis surj_pair)
  have same: "same_code k k1" and fault: "\<forall>e. q = Inl e \<longrightarrow> fatal k e"
    using one same_code_close close_epoll_fault
    by (cases c; auto simp: bindP_def retP_def queue_request_run same_code_asks split: if_splits; simp add: same_code_def)+
  have "onResponse_calls (c # todo) (k, w) = (case q of Inl e \<Rightarrow> (Inl e, (k1, w1)) | Inr u \<Rightarrow> onResponse_calls todo (k1, w1))"
    using one by (cases c) (auto simp: bindP_def prog_simps retP_def queue_request_run split: if_splits sum.splits)
  then show ?case
    using Cons.prems Cons.IH [of k1 w1] same fault same_code_trans fatal_same [OF same] by (cases q) auto
qed

lemma run_onResponse_fault:
  assumes "run_onResponse r (k, w) = (q, (k', w'))"
  shows "same_code k k'" "q = Inl e \<Longrightarrow> fatal k e"
proof -
  let ?k = "k\<lparr>k_responses := k_responses k @ [r]\<rparr>"
  obtain todo thrown where code: "k_onResponse k r = (todo, thrown)" by fastforce
  obtain p k1 w1 where run: "onResponse_calls todo (?k, w) = (p, (k1, w1))"
    by (cases "onResponse_calls todo (?k, w)") auto
  have same: "same_code k ?k" by (simp add: same_code_def)
  note F = onResponse_calls_fault [OF run]
  have q: "k' = k1" "q = (case p of Inl e \<Rightarrow> Inl e | Inr u \<Rightarrow> (case thrown of None \<Rightarrow> Inr () | Some x \<Rightarrow> Inl (Throw x)))"
    using assms code run
    by (auto simp: run_onResponse_def client_run throwing_def split: sum.splits option.splits)
  show "same_code k k'" using q(1) F same same_code_trans by blast
  show "fatal k e" if "q = Inl e"
  proof (cases p)
    case (Inl e')
    then show ?thesis using q(2) that F fatal_same [OF same] by simp
  next
    case (Inr u)
    then show ?thesis using q(2) that code
      by (auto simp: fatal_def user_fault_def split: option.splits) (metis snd_conv)
  qed
qed

lemma client_parse_step_fault:
  assumes "gcm_laws (h_ssl h)" "client_parse_step h frames (k, w) = (r, (k', w'))"
  shows "same_code k k'" "r = Inl e \<Longrightarrow> fatal k e"
proof -
  have "same_code k k' \<and> (\<forall>e. r = Inl e \<longrightarrow> fatal k e)"
    using assms(2)
  proof (cases rule: client_parse_step_cases)
    case stop
    then show ?thesis by (simp add: same_code_def)
  next
    case (closed w1)
    then show ?thesis using close_epoll_fault same_code_close
      by (auto simp: return_closed_run split: prod.splits sum.splits)
  next
    case (frame n f w1)
    then show ?thesis
      by (auto simp: take_frame_run client_error_def throwErr_def fatal_def same_code_def split: if_splits)
  next
    case (bad n e' w1)
    then obtain b t t' where "decodeFrame (h_ssl h) b True (k_aesKey k) t = (Inl e', t')"
      unfolding crypto_io_eq by blast
    from decodeFrame_fault_kinds [OF assms(1) this] bad show ?thesis by (auto simp: fatal_def same_code_def)
  qed
  then show "same_code k k'" "r = Inl e \<Longrightarrow> fatal k e" by blast+
qed

lemma client_parse_fault:
  assumes "gcm_laws (h_ssl h)"
  shows "client_parseFrames h frames (k, w) = (r, (k', w')) \<Longrightarrow> same_code k k' \<and> (\<forall>e. r = Inl e \<longrightarrow> fatal k e)"
proof (induction "length (k_frameBuffer k)" arbitrary: frames k w rule: less_induct)
  case less
  obtain q k1 w1 where step: "client_parse_step h frames (k, w) = (q, (k1, w1))"
    by (cases "client_parse_step h frames (k, w)") auto
  note F = client_parse_step_fault [OF assms step]
  show ?case
  proof (cases "\<exists>fs. q = Inr (Inr fs)")
    case True
    then obtain fs where q: "q = Inr (Inr fs)" by blast
    then have "client_parseFrames h fs (k1, w1) = (r, (k', w'))"
      "length (k_frameBuffer k1) < length (k_frameBuffer k)"
      using less.prems step client_parse_step_consumes [of h frames "(k, w)" fs "(k1, w1)"]
      by (simp_all add: client_parse_round [of h frames])
    with less.hyps [OF this(2,1)] F(1) same_code_trans fatal_same [OF F(1)] show ?thesis by blast
  next
    case False
    then have "client_parseFrames h frames (k, w) = (case q of Inl e \<Rightarrow> Inl e | Inr x \<Rightarrow> Inr (projl x), (k1, w1))"
      using step by (auto simp: client_parse_round [of h frames] split: sum.split)
    then have "k' = k1" "r = Inl e \<Longrightarrow> q = Inl e" for e using less.prems by (auto split: sum.splits)
    then show ?thesis using F by blast
  qed
qed

lemma client_deliver_fault: "client_deliver fs (k, w) = (Inl e, s) \<Longrightarrow> fatal k e"
proof (induction fs arbitrary: k w)
  case (Cons f fs)
  let ?k = "k\<lparr>k_lastSrvFid := fid f\<rparr>"
  obtain q k1 w1 where run: "run_onResponse (ClientResponse_of f) (?k, w) = (q, (k1, w1))"
    by (cases "run_onResponse (ClientResponse_of f) (?k, w)") auto
  have same: "same_code k ?k" by (simp add: same_code_def)
  note F = run_onResponse_fault [OF run]
  show ?case
  proof (cases "client_admits k f")
    case True
    then show ?thesis
      using Cons.prems Cons.IH [of k1 w1] run F(2) [of e] fatal_same [OF same, of e] fatal_same [OF F(1), of e]
      by (cases q) (simp_all add: client_deliver_one)
  next
    case False
    then show ?thesis using Cons.prems close_epoll_fault by (simp add: client_deliver_one)
  qed
qed (simp add: retP_def)

lemma client_receive_fault:
  assumes "gcm_laws (h_ssl h)" "client_receive h chunks ending (k, w) = (Inl e, s')"
  shows "fatal k e"
proof -
  let ?k = "k\<lparr>k_frameBuffer := k_frameBuffer k @ concat chunks\<rparr>"
  obtain q k1 w1 where cl: "(if ending = WouldBlock then (Inr (), (?k, w)) else close_epoll (?k, w)) = (q, (k1, w1))"
    by (metis surj_pair)
  obtain p k2 w2 where parse: "client_parseFrames h [] (k1, w1) = (p, (k2, w2))"
    by (cases "client_parseFrames h [] (k1, w1)") auto
  have k: "same_code k ?k" by (simp add: same_code_def)
  have k1: "same_code ?k k1" "q = Inl e' \<Longrightarrow> fatal ?k e'" for e'
    using cl same_code_close close_epoll_fault by (auto simp: same_code_def split: if_splits)
  note P = client_parse_fault [OF assms(1) parse]
  have same: "same_code k k1" "same_code k k2" using k k1(1) P same_code_trans by blast+
  consider "q = Inl e" | "p = Inl e" | fs where "client_deliver fs (k2, w2) = (Inl e, s')"
    using assms(2) cl parse by (auto simp: client_receive_run Let_def split: sum.splits)
  then show ?thesis
    using k1(2) [of e] P client_deliver_fault fatal_same [OF k, of e] fatal_same [OF same(1), of e] fatal_same [OF same(2), of e]
    by cases blast+
qed

lemma client_event_fault:
  assumes "gcm_laws (h_ssl h)" "kv_fd ev \<noteq> k_cmdEvFd k"
    and "handle_client_event h ev (k, w) = (Inl e, s')"
  shows "e = Throw SystemError \<or> (\<exists>m. e = Throw (RuntimeError m)) \<or> user_fault k e"
proof -
  consider "close_epoll (k, w) = (Inl e, s')"
    | "client_receive h (kv_chunks ev) (kv_end ev) (k, w) = (Inl e, s')"
    using assms(2,3) by (auto simp: handle_client_event_def retP_def split: if_splits)
  then show ?thesis
    using close_epoll_fault client_receive_fault [OF assms(1)] by cases (auto simp: fatal_def)
qed

text \<open>
  C34: the end of the connection ends the client's process. A hang-up, the end of the stream, a
  socket error, and 29 bytes that do not begin with \<open>fmxp\<close> or announce too long a body all make
  the epoll thread call \<open>close()\<close>, which joins the calling thread and throws, after \<open>_onClose\<close> (unless
  that has thrown or closed first).
\<close>

theorem disconnect_terminates_client:
  assumes "live k" "calm k" "kv_fd ev = k_socket k" "k_socket k \<noteq> k_cmdEvFd k"
    and "kv_hup ev \<or> kv_in ev \<and> (kv_end ev \<noteq> WouldBlock \<or>
      29 \<le> length (k_frameBuffer k @ concat (kv_chunks ev)) \<and>
        (take 4 (k_frameBuffer k @ concat (kv_chunks ev)) \<noteq> lit ''fmxp'' \<or>
         unat (k_maxFrameSize k) < body_len (k_frameBuffer k @ concat (kv_chunks ev)) + 9))"
  shows "fst (handle_client_event h ev (k, w)) = Inl (Throw SystemError)"
proof -
  let ?k = "k\<lparr>k_frameBuffer := k_frameBuffer k @ concat (kv_chunks ev)\<rparr>"
  have "live ?k" "calm ?k" using assms(1,2) by (simp_all add: live_def calm_def)
  then obtain k1 where close: "\<And>w. close_epoll (?k, w) = (Inl (Throw SystemError), (k1 w, w))"
    using live_close by metis
  obtain k2 where hup: "close_epoll (k, w) = (Inl (Throw SystemError), (k2, w))"
    using live_close [OF assms(1,2)] by blast
  have "fst (client_receive h (kv_chunks ev) (kv_end ev) (k, w)) = Inl (Throw SystemError)"
    if "\<not> kv_hup ev"
  proof (cases "kv_end ev = WouldBlock")
    case False
    then show ?thesis by (simp add: client_receive_run close)
  next
    case True
    then have "fst (client_parse_step h [] (?k, w)) = Inl (Throw SystemError)"
      using assms(5) that
      by (auto simp: client_parse_step_eq Let_def validateProtocol_def return_closed_run close)
    then have "fst (client_parseFrames h [] (?k, w)) = Inl (Throw SystemError)"
      by (cases "client_parse_step h [] (?k, w)") (simp add: client_parse_round)
    then show ?thesis using True
      by (cases "client_parseFrames h [] (?k, w)") (simp add: client_receive_run)
  qed
  then show ?thesis
    using assms hup by (auto simp: handle_client_event_def)
qed

end
