(* ===== verification/Client_Stream.thy ===== *)
theory Client_Stream
  imports Client_Session "HOL-Library.Sublist"
begin

text \<open>
  The client's end over its life: every response delivered is that of an authentic, fresh frame
  of the session, and the frames of the byte stream come out whole and in order.
\<close>

section \<open>The order of the states\<close>

text \<open>The enumerators in the order in which the code has them.\<close>

instantiation ClientState :: linorder
begin

fun rank_ClientState :: "ClientState \<Rightarrow> nat" where
  "rank_ClientState Handshaking = 0"
| "rank_ClientState Connected = 1"
| "rank_ClientState Closed = 2"

definition less_eq_ClientState :: "ClientState \<Rightarrow> ClientState \<Rightarrow> bool" where
  "less_eq_ClientState a b \<longleftrightarrow> rank_ClientState a \<le> rank_ClientState b"

definition less_ClientState :: "ClientState \<Rightarrow> ClientState \<Rightarrow> bool" where
  "less_ClientState a b \<longleftrightarrow> rank_ClientState a < rank_ClientState b"

instance
proof
  fix a b :: ClientState
  assume "a \<le> b" "b \<le> a"
  then show "a = b" by (cases a; cases b) (simp_all add: less_eq_ClientState_def)
qed (auto simp: less_eq_ClientState_def less_ClientState_def)

end

lemma state_order [simp]:
  "Handshaking \<le> a" "a \<le> Closed" "a \<le> Handshaking \<longleftrightarrow> a = Handshaking" "Closed \<le> a \<longleftrightarrow> a = Closed"
  "Connected \<le> a \<longleftrightarrow> a \<noteq> Handshaking"
  by (cases a; simp add: less_eq_ClientState_def)+

lemma past_handshake: "a \<le> b \<Longrightarrow> a \<noteq> Handshaking \<Longrightarrow> b \<noteq> Handshaking" for a b :: ClientState
  by auto

section \<open>What a run of the parser keeps\<close>

definition client_authentic :: "host \<Rightarrow> Connection \<Rightarrow> Frame \<Rightarrow> bool" where
  "client_authentic h k f \<longleftrightarrow> (\<exists>e s s'. decodeFrame (h_ssl h) e True (k_aesKey k) s = (Inr f, s'))"

text \<open>
  From \<open>k\<close> with \<open>frames\<close> parsed to \<open>k'\<close> with \<open>fs\<close>: the session is fixed once the handshake is over,
  and nothing is delivered before.
\<close>

definition parsed :: "host \<Rightarrow> Connection \<Rightarrow> Frame list \<Rightarrow> Connection \<Rightarrow> Frame list \<Rightarrow> bool" where
  "parsed h k frames k' fs \<longleftrightarrow> k_responses k' = k_responses k \<and> k_lastSrvFid k' = k_lastSrvFid k
    \<and> k_aesKey k' = k_aesKey k \<and> k_state k \<le> k_state k'
    \<and> (k_state k \<noteq> Handshaking \<longrightarrow> k_ssid k' = k_ssid k)
    \<and> (k_state k' = Handshaking \<longrightarrow> fs = frames)
    \<and> (\<exists>new. fs = frames @ new \<and> (\<forall>f \<in> set new. client_authentic h k f))"

lemma client_authentic_key:
  "k_aesKey k' = k_aesKey k \<Longrightarrow> client_authentic h k' = client_authentic h k"
  by (rule ext) (simp add: client_authentic_def)

lemma parsed_trans:
  assumes "parsed h k fs k1 fs1" "parsed h k1 fs1 k2 fs2"
  shows "parsed h k fs k2 fs2"
proof -
  obtain n1 n2 where "fs1 = fs @ n1" "fs2 = fs1 @ n2"
    and "\<forall>f \<in> set n1. client_authentic h k f" "\<forall>f \<in> set n2. client_authentic h k1 f"
    using assms unfolding parsed_def by blast
  moreover have "client_authentic h k1 f = client_authentic h k f" for f
    using assms(1) unfolding parsed_def client_authentic_def by simp
  ultimately have "\<exists>new. fs2 = fs @ new \<and> (\<forall>f \<in> set new. client_authentic h k f)"
    by (intro exI [of _ "n1 @ n2"]) auto
  then show ?thesis using assms by (auto simp: parsed_def)
qed

lemma close_parsed:
  assumes "close_epoll (k, w) = (Inr u, (k', w'))"
  shows "parsed h k fs k' fs"
  using close_epoll_only [OF assms] by (auto simp: parsed_def closes_only_def)

lemma client_parse_step_keeps:
  assumes "client_parse_step h frames (k, w) = (Inr x, (k', w'))"
  shows "\<exists>fs. (x = Inl fs \<or> x = Inr fs) \<and> parsed h k frames k' fs"
  using assms
proof (cases rule: client_parse_step_cases)
  case stop
  then show ?thesis by (auto simp: parsed_def)
next
  case (closed w1)
  then show ?thesis using close_parsed
    by (auto simp: return_closed_run split: prod.splits sum.splits)
next
  case (frame n f w1)
  then have "client_authentic h k f" unfolding client_authentic_def crypto_io_eq by blast
  with frame(1,3) show ?thesis
    by (auto simp: take_frame_run parsed_def split: if_splits)
qed simp

lemma client_parse_keeps:
  "client_parseFrames h frames (k, w) = (Inr gs, (k', w')) \<Longrightarrow> parsed h k frames k' gs"
proof (induction "length (k_frameBuffer k)" arbitrary: frames k w rule: less_induct)
  case less
  obtain r k1 w1 where step: "client_parse_step h frames (k, w) = (r, (k1, w1))"
    by (cases "client_parse_step h frames (k, w)") auto
  show ?case
  proof (cases r)
    case (Inl e)
    with less.prems step show ?thesis by (simp add: client_parse_round)
  next
    case (Inr x)
    note keep = client_parse_step_keeps [OF step [unfolded Inr]]
    show ?thesis
    proof (cases x)
      case (Inl fs)
      with less.prems step Inr keep show ?thesis by (auto simp: client_parse_round)
    next
      case next_: (Inr fs)
      then have "client_parseFrames h fs (k1, w1) = (Inr gs, (k', w'))"
        and "length (k_frameBuffer k1) < length (k_frameBuffer k)"
        using less.prems step Inr client_parse_step_consumes [of h frames "(k, w)" fs "(k1, w1)"]
        by (simp_all add: client_parse_round [of h frames])
      with less.hyps keep next_ show ?thesis using parsed_trans by blast
    qed
  qed
qed

section \<open>The life of a client\<close>

definition client_history :: "host \<Rightarrow> Connection \<Rightarrow> Frame list \<Rightarrow> bool" where
  "client_history h k fs \<longleftrightarrow> k_responses k = map ClientResponse_of fs
    \<and> window_ok (k_ssid k) (k_lastSrvFid k) fs \<and> (\<forall>f \<in> set fs. client_authentic h k f)
    \<and> (k_state k = Handshaking \<longrightarrow> fs = [])"

lemma client_history_same:
  assumes "client_history h k fs" "k_responses k' = k_responses k" "k_lastSrvFid k' = k_lastSrvFid k"
    "k_aesKey k' = k_aesKey k" "k_ssid k' = k_ssid k" "k_state k' = Handshaking \<longrightarrow> k_state k = Handshaking"
  shows "client_history h k' fs"
proof -
  have "client_authentic h k' = client_authentic h k" using assms(4) by (rule client_authentic_key)
  then show ?thesis using assms(1-3,5,6) by (simp add: client_history_def)
qed

lemma parsed_history:
  assumes "client_history h k fs" "parsed h k [] k' gs"
  shows "client_history h k' fs" "\<forall>f \<in> set gs. client_authentic h k' f" "k_state k' = Handshaking \<longrightarrow> gs = []"
proof -
  note P = assms(2) [unfolded parsed_def]
  have auth: "client_authentic h k' = client_authentic h k" using P by (intro client_authentic_key) blast
  show "client_history h k' fs"
  proof (cases "k_state k = Handshaking")
    case True
    then show ?thesis using assms(1) P by (simp add: client_history_def)
  next
    case False
    then show ?thesis using P past_handshake by (intro client_history_same [OF assms(1)]) blast+
  qed
  show "\<forall>f \<in> set gs. client_authentic h k' f" "k_state k' = Handshaking \<longrightarrow> gs = []"
    using P auth by auto
qed

text \<open>What a program of the client leaves alone when it does not read the socket.\<close>

definition quiet :: "Connection \<Rightarrow> Connection \<Rightarrow> bool" where
  "quiet k k' \<longleftrightarrow> k_responses k' = k_responses k \<and> k_lastSrvFid k' = k_lastSrvFid k
    \<and> k_aesKey k' = k_aesKey k \<and> k_ssid k' = k_ssid k
    \<and> k_state k \<le> k_state k'"

lemma quiet_history: "quiet k k' \<Longrightarrow> client_history h k fs \<Longrightarrow> client_history h k' fs"
  by (auto simp: quiet_def intro: client_history_same)

lemma quiet_trans: "quiet k k' \<Longrightarrow> quiet k' k'' \<Longrightarrow> quiet k k''"
  by (auto simp: quiet_def)

lemma close_quiet: "close_epoll (k, w) = (Inr u, (k', w')) \<Longrightarrow> quiet k k'"
  by (drule close_epoll_only) (auto simp: quiet_def closes_only_def)

lemma quiet_asks: "asks_only k k' \<Longrightarrow> quiet k k'"
  by (simp add: quiet_def asks_only_fields)

lemma onResponse_calls_quiet: "onResponse_calls todo (k, w) = (Inr u, (k', w')) \<Longrightarrow> quiet k k'"
proof (induction todo arbitrary: k w)
  case Nil
  then show ?case by (simp add: retP_def quiet_def)
next
  case (Cons c todo)
  have "\<exists>k1 w1. quiet k k1 \<and> onResponse_calls todo (k1, w1) = (Inr u, (k', w'))"
  proof (cases c)
    case (CallSend pa d)
    moreover have "quiet k k" by (simp add: quiet_def)
    ultimately show ?thesis using Cons.prems quiet_asks [OF request_pushed_asks [of k pa d]]
      by (auto simp: bindP_def queue_request_run split: if_splits)
  next
    case CallClose
    with Cons.prems show ?thesis using close_quiet by (fastforce simp: bindP_def prog_simps split: prod.splits sum.splits)
  qed
  then show ?case using Cons.IH quiet_trans by blast
qed

text \<open>
  What every step keeps: the state only moves on, responses are only added, the last frame
  identifier does not fall, and the session identifier is fixed once the state has left the
  handshake. Every step but the thread's handshake also keeps the key.
\<close>

definition moves_on :: "Connection \<Rightarrow> Connection \<Rightarrow> bool" where
  "moves_on k k' \<longleftrightarrow> k_state k \<le> k_state k' \<and> prefix (k_responses k) (k_responses k')
    \<and> k_lastSrvFid k \<le> k_lastSrvFid k' \<and> (k_state k \<noteq> Handshaking \<longrightarrow> k_ssid k' = k_ssid k)"

lemma moves_on_refl [simp]: "moves_on k k"
  by (simp add: moves_on_def)

lemma moves_on_trans: "moves_on k k' \<Longrightarrow> moves_on k' k'' \<Longrightarrow> moves_on k k''"
  unfolding moves_on_def using past_handshake by (auto intro: order_trans)

definition advances :: "Connection \<Rightarrow> Connection \<Rightarrow> bool" where
  "advances k k' \<longleftrightarrow> moves_on k k' \<and> k_aesKey k' = k_aesKey k"

lemma advances_refl [simp]: "advances k k"
  by (simp add: advances_def)

lemma advances_trans: "advances k k' \<Longrightarrow> advances k' k'' \<Longrightarrow> advances k k''"
  unfolding advances_def using moves_on_trans by auto

lemma quiet_advances: "quiet k k' \<Longrightarrow> advances k k'"
  by (simp add: advances_def moves_on_def quiet_def)

lemma parsed_advances: "parsed h k fs k' gs \<Longrightarrow> advances k k'"
  by (simp add: advances_def moves_on_def parsed_def)

text \<open>Delivering: each response is of an admitted frame, whatever the user's function does.\<close>

lemma client_deliver_history:
  assumes "client_history h k fs" "k_state k \<noteq> Handshaking" "\<forall>f \<in> set gs. client_authentic h k f"
    and "client_deliver gs (k, w) = (Inr u, (k', w'))"
  shows "(\<exists>hs. client_history h k' hs) \<and> advances k k'"
  using assms
proof (induction gs arbitrary: k fs w)
  case Nil
  then show ?case by (auto simp: retP_def)
next
  case (Cons g gs)
  show ?case
  proof (cases "client_admits k g")
    case False
    then have "close_epoll (k, w) = (Inr u, (k', w'))" using Cons.prems(4) by (simp add: client_deliver_one)
    then show ?thesis using quiet_history [OF close_quiet] quiet_advances [OF close_quiet] Cons.prems(1) by blast
  next
    case True
    let ?k = "k\<lparr>k_lastSrvFid := fid g, k_responses := k_responses k @ [ClientResponse_of g]\<rparr>"
    obtain k1 w1 where run: "run_onResponse (ClientResponse_of g) (k\<lparr>k_lastSrvFid := fid g\<rparr>, w) = (Inr (), (k1, w1))"
      and rest: "client_deliver gs (k1, w1) = (Inr u, (k', w'))"
      using Cons.prems(4) True by (auto simp: client_deliver_one split: prod.splits sum.splits)
    have "quiet ?k k1" using run onResponse_calls_quiet
      by (auto simp: run_onResponse_def client_run throwing_def split: prod.splits sum.splits option.splits)
    moreover have "client_history h ?k (fs @ [g])"
    proof -
      have "client_authentic h ?k = client_authentic h k" by (rule client_authentic_key) simp
      moreover have "window_ok (k_ssid k) (fid g) (fs @ [g])"
        using Cons.prems(1) True by (intro window_ok_snoc) (auto simp: client_history_def client_admits_def not_le)
      ultimately show ?thesis using Cons.prems by (simp add: client_history_def)
    qed
    ultimately have "client_history h k1 (fs @ [g])" by (rule quiet_history)
    moreover have "advances k ?k" using True by (auto simp: advances_def moves_on_def client_admits_def)
    then have "advances k k1" using quiet_advances [OF \<open>quiet ?k k1\<close>] advances_trans by blast
    moreover have "k_state k1 \<noteq> Handshaking" and key: "k_aesKey k1 = k_aesKey k"
      using \<open>quiet ?k k1\<close> Cons.prems(2) by (auto simp: quiet_def)
    moreover from key have "\<forall>f \<in> set gs. client_authentic h k1 f"
      using Cons.prems(3) client_authentic_key [of k1 k h] by simp
    ultimately show ?thesis using Cons.IH rest advances_trans by blast
  qed
qed

lemma client_receive_history:
  assumes hist: "client_history h k fs"
    and run: "client_receive h chunks ending (k, w) = (Inr u, (k', w'))"
  shows "(\<exists>gs. client_history h k' gs) \<and> advances k k'"
proof -
  let ?k = "k\<lparr>k_frameBuffer := k_frameBuffer k @ concat chunks\<rparr>"
  obtain k1 w1 where one: "(if ending = WouldBlock then (Inr (), (?k, w)) else close_epoll (?k, w)) = (Inr (), (k1, w1))"
    and rest: "(case client_parseFrames h [] (k1, w1) of (Inl e, s') \<Rightarrow> (Inl e, s')
          | (Inr frames, s') \<Rightarrow> client_deliver frames s') = (Inr u, (k', w'))"
    using run unfolding client_receive_run Let_def by (auto split: prod.splits sum.splits)
  have "quiet ?k k1" using one close_quiet [of ?k w "()" k1 w1] by (cases "ending = WouldBlock") (simp_all add: quiet_def)
  then have "quiet k k1" by (simp add: quiet_def)
  then have hist1: "client_history h k1 fs" and adv1: "advances k k1"
    using hist quiet_history quiet_advances by blast+
  obtain frames k2 w2 where parse: "client_parseFrames h [] (k1, w1) = (Inr frames, (k2, w2))"
    and del: "client_deliver frames (k2, w2) = (Inr u, (k', w'))"
    using rest by (auto split: prod.splits sum.splits)
  note P = parsed_history [OF hist1 client_parse_keeps [OF parse]]
  have adv2: "advances k k2" using adv1 parsed_advances [OF client_parse_keeps [OF parse]] advances_trans by blast
  show ?thesis
  proof (cases "k_state k2 = Handshaking")
    case True
    then show ?thesis using P del adv2 by (auto simp: retP_def)
  next
    case False
    then show ?thesis using client_deliver_history [OF P(1) _ P(2) del] adv2 advances_trans by blast
  qed
qed

lemma send_once_run: "send_once h bs (k, w) = (Inr (), (k, snd (sys_send h (k_socket k) bs w)))"
  by (simp add: send_once_def split: prod.split)

lemma command_quiet:
  assumes "handleClientCommand h cmd (k, w) = (Inr u, (k', w'))"
  shows "quiet k k'"
proof (cases "cc_type cmd")
  case CloseClient
  with assms close_quiet show ?thesis by (auto simp: handleClientCommand_def)
next
  case SendFrame
  show ?thesis
  proof (cases "cc_frame cmd")
    case None
    with SendFrame assms show ?thesis by (simp add: handleClientCommand_def failP_def)
  next
    case (Some f)
    with SendFrame assms show ?thesis
      by (auto simp: handleClientCommand_def client_run send_once_run quiet_def
          split: if_splits prod.splits sum.splits)
  qed
qed

text \<open>
  The loop over the commands ends. What a CLOSE may still push is counted while the client is open.
\<close>

definition drain_measure :: "Connection \<Rightarrow> nat" where
  "drain_measure k = length (cq_queue (k_commandQueue k))
     + (if k_running k \<and> k_state k \<noteq> Closed
        then case k_onClose k of None \<Rightarrow> 0 | Some (todo, thrown) \<Rightarrow> length todo else 0)"

lemma onClose_calls_pushes:
  "onClose_calls todo (k, w) = (Inr u, (k', w')) \<Longrightarrow>
    length (cq_queue (k_commandQueue k')) \<le> length (cq_queue (k_commandQueue k)) + length todo"
proof (induction todo arbitrary: k w)
  case (Cons c todo)
  show ?case
  proof (cases c)
    case (CallSend pa d)
    then obtain k1 where "onClose_calls todo (k1, w) = (Inr u, (k', w'))" "k1 = k \<or> k1 = request_pushed pa d k"
      using Cons.prems by (auto simp: bindP_def queue_request_run split: if_splits)
    then show ?thesis using Cons.IH [of k1 w] by (auto simp: request_pushed_def cq_push_def)
  qed (use Cons.prems in \<open>simp add: failP_def\<close>)
qed (simp add: retP_def)

lemma close_drain_measure:
  assumes "close_epoll (k, w) = (Inr u, (k', w'))"
  shows "drain_measure k' \<le> drain_measure k"
proof (cases "\<not> k_running k \<or> k_state k = Closed")
  case True
  with assms show ?thesis by (auto simp: close_epoll_run)
next
  case False
  then obtain k1 w1 where "run_onClose (k, w) = (Inr (), (k1, w1))" and k': "k_state k' = Closed"
    "k_commandQueue k' = k_commandQueue k1"
    using assms by (auto simp: close_epoll_run close_begin_run close_end_run ended_def
        split: prod.splits sum.splits if_splits)
  then have "length (cq_queue (k_commandQueue k1)) \<le> drain_measure k"
    using False
    by (auto simp: run_onClose_def client_run throwing_def drain_measure_def
        dest!: onClose_calls_pushes split: prod.splits sum.splits option.splits)
  then show ?thesis using k' by (simp add: drain_measure_def)
qed

lemma command_drain_measure:
  assumes "handleClientCommand h cmd (k, w) = (Inr u, (k', w'))"
  shows "drain_measure k' \<le> drain_measure k"
proof (cases "cc_type cmd")
  case CloseClient
  with assms close_drain_measure show ?thesis by (auto simp: handleClientCommand_def)
next
  case SendFrame
  with assms show ?thesis
    by (cases "cc_frame cmd")
      (auto simp: handleClientCommand_def client_run send_once_run drain_measure_def
          split: if_splits prod.splits sum.splits)
qed

lemma drain_client_total:
  "drain (\<lambda>s. k_commandQueue (fst s)) set_client_queue (handleClientCommand h) (drain_fuel (fst s)) s \<noteq> None"
proof (rule drain_ends [where m = "\<lambda>s. drain_measure (fst s)"])
  show "drain_measure (fst s') \<le> drain_measure (fst s)"
    if "handleClientCommand h cmd s = (Inr u, s')" for cmd s u s'
    using command_drain_measure [of h cmd "fst s" "snd s" u "fst s'" "snd s'"] that by simp
  show "drain_measure (fst s) \<le> drain_fuel (fst s)"
    by (simp add: drain_measure_def drain_fuel_def)
qed (auto simp: drain_measure_def cq_tryPop_def split: list.splits)

lemma drain_client_Inr:
  "drain_client h s = (Inr u, s') \<longleftrightarrow>
    drain (\<lambda>s. k_commandQueue (fst s)) set_client_queue (handleClientCommand h) (drain_fuel (fst s)) s
      = Some (Inr u, s')"
  using drain_client_total [of h s] by (auto simp: drain_client_def split: option.splits)

lemma drain_quiet:
  assumes "drain_client h s = (Inr u, s')"
  shows "quiet (fst s) (fst s')"
proof (rule drain_keeps [OF _ _ _ _ assms [unfolded drain_client_Inr], where R = "\<lambda>s s'. quiet (fst s) (fst s')"])
  show "quiet (fst s) (fst s')" if "handleClientCommand h cmd s = (Inr u, s')" for cmd s u s'
    using command_quiet [of h cmd "fst s" "snd s" u "fst s'" "snd s'"] that by simp
qed (auto simp: quiet_def)

text \<open>Commands that only send: they are handled as they stand in the queue.\<close>

lemma send_command_queue:
  assumes "cc_type cmd = SendFrame"
  shows "k_commandQueue (fst (snd (handleClientCommand h cmd s))) = k_commandQueue (fst s)"
  using assms by (cases s; cases "cc_frame cmd")
    (simp_all add: handleClientCommand_def client_run send_once_run split: prod.split sum.split)

lemma drain_client_all:
  assumes "\<forall>cmd \<in> set (cq_queue (k_commandQueue (fst s))). cc_type cmd = SendFrame"
  shows "drain_client h s =
    handle_all (handleClientCommand h) (dequeue (\<lambda>s. k_commandQueue (fst s)) set_client_queue)
      (cq_queue (k_commandQueue (fst s))) s"
proof -
  have "drain (\<lambda>s. k_commandQueue (fst s)) set_client_queue (handleClientCommand h) (drain_fuel (fst s)) s
      = Some (handle_all (handleClientCommand h) (dequeue (\<lambda>s. k_commandQueue (fst s)) set_client_queue)
          (cq_queue (k_commandQueue (fst s))) s)"
    using assms by (intro drain_is_handle_all) (auto simp: send_command_queue drain_fuel_def)
  then show ?thesis by (simp add: drain_client_def)
qed

lemma event_history:
  assumes "client_history h k fs" "handle_client_event h ev (k, w) = (Inr u, (k', w'))"
  shows "(\<exists>gs. client_history h k' gs) \<and> advances k k'"
proof -
  consider (cmds) "drain_client h (k\<lparr>k_wakeups := 0\<rparr>, w) = (Inr u, (k', w'))"
    | (close) "close_epoll (k, w) = (Inr u, (k', w'))"
    | (receive) "client_receive h (kv_chunks ev) (kv_end ev) (k, w) = (Inr u, (k', w'))"
    | (none) "k' = k"
    using assms(2) by (auto simp: handle_client_event_def client_run split: if_splits)
  then show ?thesis
  proof cases
    case cmds
    then have "quiet (k\<lparr>k_wakeups := 0\<rparr>) k'" using drain_quiet by fastforce
    then have "quiet k k'" by (simp add: quiet_def)
    then show ?thesis using quiet_history quiet_advances assms(1) by blast
  next
    case close
    then show ?thesis using quiet_history [OF close_quiet] quiet_advances [OF close_quiet] assms(1) by blast
  next
    case receive
    then show ?thesis using client_receive_history assms(1) by blast
  qed (use assms(1) in auto)
qed

text \<open>
  One step of a client. The flag says whether the epoll thread has made its handshake: it does so
  first and once, in whatever state it finds the connection (a user thread may have called
  \<open>close()\<close> already), and then handles events. User threads queue requests, set the callbacks, begin to
  close, and finish closing, at any time.
\<close>

type_synonym client_run = "bool \<times> client_state"

inductive client_step :: "host \<Rightarrow> client_run \<Rightarrow> client_run \<Rightarrow> bool" for h where
  elsewhere: "client_step h (begun, k, w) (begun, k, w')"
| on_close: "client_step h (begun, k, w) (begun, setOnCloseClient cb k, w)"
| on_response: "client_step h (begun, k, w) (begun, setOnResponse cb k, w)"
| handshake: "doHandshake h s = (Inr u, s') \<Longrightarrow> client_step h (False, s) (True, s')"
| queue: "queue_request pa d s = (Inr b, s') \<Longrightarrow> client_step h (begun, s) (begun, s')"
| event: "handle_client_event h ev s = (Inr u, s') \<Longrightarrow> client_step h (True, s) (True, s')"
| closing: "close_begin s = (Inr u, s') \<Longrightarrow> client_step h (begun, s) (begun, s')"
| closed: "close_end s = (Inr u, s') \<Longrightarrow> client_step h (begun, s) (begun, s')"

inductive client_reach :: "host \<Rightarrow> client_run \<Rightarrow> bool" for h where
  connected: "Connection_new hst port pubKey mx cb l w = (Inr u, s) \<Longrightarrow> client_reach h (False, s)"
| step: "client_reach h r \<Longrightarrow> client_step h r r' \<Longrightarrow> client_reach h r'"

text \<open>Before the handshake there is no key, and nothing has been delivered.\<close>

definition run_history :: "host \<Rightarrow> bool \<Rightarrow> Connection \<Rightarrow> bool" where
  "run_history h begun k \<longleftrightarrow> (\<exists>fs. client_history h k fs)
    \<and> (\<not> begun \<longrightarrow> k_responses k = [] \<and> k_aesKey k = [])"

lemma no_responses_history: "client_history h k fs \<Longrightarrow> k_responses k = [] \<Longrightarrow> fs = []"
  by (simp add: client_history_def)

lemma doHandshake_keeps:
  assumes "doHandshake h (k, w) = (Inr u, (k', w'))"
  shows "k_responses k' = k_responses k \<and> k_lastSrvFid k' = k_lastSrvFid k \<and> k_ssid k' = k_ssid k
    \<and> k_state k' = k_state k"
  using assms
  by (auto simp: doHandshake_def client_run client_time_def makeReqFrame_def handleClientCommand_def
      send_once_run split: prod.splits sum.splits if_splits)

lemma doHandshake_history:
  assumes "doHandshake h (k, w) = (Inr u, (k', w'))" "run_history h False k"
  shows "run_history h True k'" "moves_on k k'"
proof -
  note keeps = doHandshake_keeps [OF assms(1)]
  obtain fs where "client_history h k fs" "fs = []"
    using assms(2) no_responses_history by (auto simp: run_history_def)
  then have "client_history h k' []" using keeps by (simp add: client_history_def)
  then show "run_history h True k'" by (auto simp: run_history_def)
  show "moves_on k k'" using keeps by (simp add: moves_on_def)
qed

lemma client_step_history:
  assumes "run_history h begun k" "client_step h (begun, k, w) (begun', k', w')"
  shows "run_history h begun' k' \<and> moves_on k k' \<and> (begun \<longrightarrow> begun' \<and> k_aesKey k' = k_aesKey k)"
proof -
  obtain fs where fs: "client_history h k fs" using assms(1) by (auto simp: run_history_def)
  have still: ?thesis if "quiet k k'" "begun' = begun"
    using that assms(1) quiet_history [OF that(1)] quiet_advances [OF that(1)]
    by (auto simp: run_history_def advances_def quiet_def)
  from assms(2) show ?thesis
  proof (cases rule: client_step.cases)
    case (handshake u)
    then show ?thesis using doHandshake_history assms(1) by blast
  next
    case (queue pa d b)
    then show ?thesis using still quiet_asks [OF request_pushed_asks [of k pa d]]
      by (auto simp: queue_request_run quiet_def split: if_splits)
  next
    case (event ev u)
    then have "(\<exists>gs. client_history h k' gs) \<and> advances k k'" using event_history fs by blast
    then show ?thesis using event by (auto simp: run_history_def advances_def)
  next
    case (closing u)
    then show ?thesis using still close_begin_only [of k w "Inr u" k' w'] by (auto simp: quiet_def closes_only_def)
  next
    case (closed u)
    then show ?thesis using still by (auto simp: close_end_run quiet_def)
  next
    case elsewhere
    then show ?thesis using still by (simp add: quiet_def)
  next
    case (on_close cb)
    then show ?thesis using still by (simp add: quiet_def setOnCloseClient_def)
  next
    case (on_response cb)
    then show ?thesis using still by (simp add: quiet_def setOnResponse_def)
  qed
qed

lemma client_reach_history: "client_reach h r \<Longrightarrow> run_history h (fst r) (fst (snd r))"
proof (induction rule: client_reach.induct)
  case (connected hst port pubKey mx cb l w u s)
  then have "k_responses (fst s) = []" "k_aesKey (fst s) = []"
    by (auto simp: Connection_new_def connect_client_def client_run Connection_init_def split: if_splits)
  then show ?case by (auto simp: run_history_def client_history_def)
next
  case (step r r')
  then show ?case using client_step_history by (metis prod.collapse)
qed

lemma client_steps_history:
  assumes "(client_step h)\<^sup>*\<^sup>* r r'" "run_history h (fst r) (fst (snd r))"
  shows "run_history h (fst r') (fst (snd r')) \<and> moves_on (fst (snd r)) (fst (snd r'))
    \<and> (fst r \<longrightarrow> fst r' \<and> k_aesKey (fst (snd r')) = k_aesKey (fst (snd r)))"
  using assms
proof (induction rule: rtranclp_induct)
  case (step r1 r2)
  then have "run_history h (fst r1) (fst (snd r1))" by simp
  then have "run_history h (fst r2) (fst (snd r2)) \<and> moves_on (fst (snd r1)) (fst (snd r2))
    \<and> (fst r1 \<longrightarrow> fst r2 \<and> k_aesKey (fst (snd r2)) = k_aesKey (fst (snd r1)))"
    using client_step_history step.hyps(2) by (metis prod.collapse)
  with step show ?case using moves_on_trans by auto
qed simp

text \<open>
  C5: replay protection at the client. Over its whole life, the responses handed to the
  application are those of frames that all decrypted and authenticated under its key, carry the
  session identifier and have strictly increasing frame identifiers: none is delivered twice.
\<close>

theorem client_replay_free:
  assumes "client_reach h (begun, k, w)"
  shows "\<exists>fs. k_responses k = map ClientResponse_of fs \<and> sorted_wrt (<) (map fid fs)
    \<and> distinct (map fid fs) \<and> (\<forall>f \<in> set fs. ssid f = k_ssid k \<and> client_authentic h k f)"
proof -
  obtain fs where "client_history h k fs"
    using client_reach_history [OF assms] by (auto simp: run_history_def)
  then have "sorted_wrt (<) (map fid fs)" and rest: "k_responses k = map ClientResponse_of fs"
    "\<forall>f \<in> set fs. ssid f = k_ssid k \<and> client_authentic h k f"
    by (auto simp: client_history_def window_ok_def)
  moreover from this have "distinct (map fid fs)" by (simp add: strict_sorted_iff)
  ultimately show ?thesis by blast
qed

text \<open>
  C17: a client only moves on. Over any run of its threads, in whole steps, the state goes from
  handshaking to connected to closed and never back, what was delivered stays delivered, the last frame
  identifier does not fall, and once the state has left the handshake the session identifier does not
  change any more, whatever the server sends. There is no key and nothing is delivered until the
  epoll thread has made its handshake, which draws the key, even when the user has called \<open>close()\<close>
  before it; from then on the key never changes.
\<close>

theorem client_lifecycle:
  assumes "client_reach h (begun, k, w)" "(client_step h)\<^sup>*\<^sup>* (begun, k, w) (begun', k', w')"
  shows "k_state k \<le> k_state k' \<and> prefix (k_responses k) (k_responses k') \<and> k_lastSrvFid k \<le> k_lastSrvFid k'
    \<and> (k_state k \<noteq> Handshaking \<longrightarrow> k_ssid k' = k_ssid k)
    \<and> (begun \<longrightarrow> begun' \<and> k_aesKey k' = k_aesKey k)
    \<and> (\<not> begun' \<longrightarrow> k_aesKey k' = [] \<and> k_responses k' = [])"
  using client_steps_history [OF assms(2)] client_reach_history [OF assms(1)]
  by (simp add: moves_on_def run_history_def)

end
