(* ===== verification/Client_Service.thy ===== *)
theory Client_Service
  imports Client_Stream Frame_Stream
begin

text \<open>
  What the client does for its user: responses out of the byte stream, requests onto the wire,
  closing; and requests and responses that go astray.
\<close>

section \<open>Frames out of a byte stream\<close>

definition client_ready :: "host \<Rightarrow> Connection \<Rightarrow> bool" where
  "client_ready h k \<longleftrightarrow> gcm_laws (h_ssl h) \<and> gcm_reliable (h_ssl h) \<and> length (k_aesKey k) = 32"

abbreviation sealed_for :: "host \<Rightarrow> Connection \<Rightarrow> Frame \<Rightarrow> bytes \<Rightarrow> bool" where
  "sealed_for h k \<equiv> sealed (h_ssl h) (k_aesKey k) (k_maxFrameSize k)"

lemma client_ready_facts:
  assumes "client_ready h k" "sealed_for h k f e"
  shows "57 \<le> length e" "length e \<le> unat (k_maxFrameSize k)" "validateProtocol (e @ x)"
    "body_len (e @ x) + 9 = length e" "\<exists>s3. decodeFrame (h_ssl h) e True (k_aesKey k) s2 = (Inr f, s3)"
  using sealed_facts [of "h_ssl h" "k_aesKey k" "k_maxFrameSize k" f e] assms
  by (auto simp: client_ready_def)

lemma client_parse_step_sealed:
  assumes "client_ready h k" "sealed_for h k f e" "k_frameBuffer k = e @ rest"
  shows "\<exists>w'. client_parse_step h gs (k, w) = take_frame (length e) gs f (k, w')
    \<and> w_out w' = w_out w \<and> w_closed w' = w_closed w"
proof -
  obtain t where "decodeFrame (h_ssl h) e True (k_aesKey k) (w_crypto w) = (Inr f, t)"
    using client_ready_facts(5) [OF assms(1,2)] by blast
  then show ?thesis
    using assms(3) client_ready_facts(1-4) [OF assms(1,2)]
    by (intro exI [of _ "w\<lparr>w_crypto := t\<rparr>"])
      (simp add: client_parse_step_eq Let_def crypto_io_def)
qed

lemma client_parse_step_unfinished:
  assumes "client_ready h k" "unfinished (sealed_for h k) (k_frameBuffer k)"
  shows "client_parse_step h gs (k, w) = (Inr (Inl gs), (k, w))"
proof (cases "length (k_frameBuffer k) < 29")
  case True
  then show ?thesis by (simp add: client_parse_step_eq Let_def)
next
  case False
  let ?p = "k_frameBuffer k"
  obtain f q where q: "q \<noteq> []" "sealed_for h k f (?p @ q)"
    using assms(2) False by (auto simp: unfinished_def)
  note F = client_ready_facts [OF assms(1) q(2)]
  have "validateProtocol ?p" "body_len ?p + 9 = length (?p @ q)"
    using F(3,4) [of "[]"] header_append [of ?p q] False by simp_all
  then show ?thesis using False q(1) F(2) by (simp add: client_parse_step_eq Let_def)
qed

lemma client_record_buffer:
  "client_record f (k\<lparr>k_frameBuffer := b\<rparr>) = (client_record f k)\<lparr>k_frameBuffer := b\<rparr>"
proof -
  have pushed: "request_pushed pa d (k\<lparr>k_frameBuffer := b\<rparr>) = (request_pushed pa d k)\<lparr>k_frameBuffer := b\<rparr>" for pa d k
    by (simp add: request_pushed_def)
  have asked: "asked todo (k\<lparr>k_frameBuffer := b\<rparr>) = (asked todo k)\<lparr>k_frameBuffer := b\<rparr>" for todo k
    by (induction todo k rule: asked.induct) (auto simp: pushed split: if_splits)
  have "k\<lparr>k_frameBuffer := b, k_lastSrvFid := n, k_responses := rs\<rparr>
      = (k\<lparr>k_lastSrvFid := n, k_responses := rs\<rparr>)\<lparr>k_frameBuffer := b\<rparr>" for n rs by simp
  then show ?thesis using asked by (simp only: client_record_def) simp
qed

interpretation ks: frame_stream k_ssid k_lastSrvFid client_admits client_record
  "\<lambda>k. client_ready h k \<and> k_state k = Connected \<and> polite k" "sealed_for h" k_frameBuffer
  "\<lambda>b k. k\<lparr>k_frameBuffer := b\<rparr>" "client_parse_step h" "client_parseFrames h"
  "\<lambda>cs. client_receive h cs WouldBlock" "()"
  for h
proof (unfold_locales, goal_cases)
  case (1 k f e)
  then show ?case using client_ready_facts(1) by fastforce
next
  case (2 k f e g x)
  then show ?case unfolding client_ready_def using sealed_prefix by blast
next
  case (13 gs s)
  show ?case by (rule client_parse_round)
next
  case (14 k f e rest gs w)
  then obtain w' where "client_parse_step h gs (k, w) = take_frame (length e) gs f (k, w')" "w_out w' = w_out w"
    using client_parse_step_sealed by blast
  with 14 show ?case by (simp add: take_frame_run)
next
  case (15 k gs w)
  then show ?case using client_parse_step_unfinished by blast
next
  case (16 k cs w fs k' w')
  then show ?case by (simp add: client_receive_run client_deliver_run)
qed (auto simp: client_ready_def client_admits_def polite_def client_record_buffer fun_eq_iff)

text \<open>
  C10: the frames of a session arrive as responses, whatever way TCP cuts the stream. When the
  bytes a server sends are the encodings of frames with the session's identifier and increasing
  frame identifiers, followed by the beginning of one more, then however they are spread over
  events and over the chunks within an event, exactly the responses of these frames are
  delivered, in order, the session goes on, and only that beginning is left in the buffer.
\<close>

theorem responses_delivered:
  assumes "client_ready h k" "k_state k = Connected" "polite k" "k_frameBuffer k = []"
    and "list_all2 (sealed_for h k) fs es" "concat (concat css) = concat es @ p" "unfinished (sealed_for h k) p"
    and "sorted_wrt (<) (map fid fs)" "\<forall>f \<in> set fs. ssid f = k_ssid k \<and> k_lastSrvFid k < fid f"
  shows "\<exists>k' w'. reads_all (\<lambda>cs. client_receive h cs WouldBlock) () css (k, w) = (Inr (), (k', w'))
    \<and> k_responses k' = k_responses k @ map ClientResponse_of fs \<and> k_frameBuffer k' = p \<and> k_state k' = Connected"
proof -
  have "cw.accepted k fs = fs" by (rule cw.accepts_all [OF assms(8,9)])
  then obtain w' where "reads_all (\<lambda>cs. client_receive h cs WouldBlock) () css (k, w)
      = (Inr (), ((cw.after k fs)\<lparr>k_frameBuffer := p\<rparr>, w'))"
    using ks.reads_stream [of h k p fs es css w] assms by auto
  with \<open>cw.accepted k fs = fs\<close> assms(2) show ?thesis by (simp add: client_after_fields)
qed

text \<open>The frame that ends the handshake.\<close>

lemma handshake_frame_taken:
  assumes "client_ready h k" "k_state k = Handshaking" "sealed_for h k f e"
    and "data f = lit ''Connection secured''" "k_frameBuffer k = e @ rest"
  shows "\<exists>w'. client_parse_step h gs (k, w) = (Inr (Inr gs),
    (k\<lparr>k_state := Connected, k_ssid := ssid f, k_frameBuffer := rest\<rparr>, w'))
    \<and> w_out w' = w_out w \<and> w_closed w' = w_closed w"
  using client_parse_step_sealed [OF assms(1,3,5), of gs w] assms(2,4,5) by (auto simp: take_frame_run)

text \<open>
  C38: the frame that ends the handshake is not covered by the replay protection: its identifier
  is not recorded, so a copy of it, sent by anyone who saw it, is delivered to the application
  as a response.
\<close>

theorem handshake_frame_replayed:
  assumes "client_ready h k" "k_state k = Handshaking" "k_lastSrvFid k = 0" "k_frameBuffer k = []"
    and "polite k" "sealed_for h k f e" "data f = lit ''Connection secured''" "fid f \<noteq> 0"
  shows "\<exists>k' w'. client_receive h [e, e] WouldBlock (k, w) = (Inr (), (k', w')) \<and> k_state k' = Connected
    \<and> k_ssid k' = ssid f \<and> k_responses k' = k_responses k @ [ClientResponse_of f]"
proof -
  let ?k0 = "k\<lparr>k_frameBuffer := e @ e\<rparr>"
  let ?k1 = "k\<lparr>k_state := Connected, k_ssid := ssid f\<rparr>"
  have ready: "client_ready h ?k0" "client_ready h ?k1" using assms(1) by (simp_all add: client_ready_def)
  obtain w1 where "client_parse_step h [] (?k0, w) = (Inr (Inr []), (?k1\<lparr>k_frameBuffer := e\<rparr>, w1))"
    using handshake_frame_taken [OF ready(1), of f e e "[]" w] assms(2,6,7) by auto
  moreover obtain w2 where "client_parseFrames h [] (?k1\<lparr>k_frameBuffer := e\<rparr>, w1)
      = (Inr [f], (?k1\<lparr>k_frameBuffer := []\<rparr>, w2))"
    using ks.parse_stream [of h ?k1 "[]" "[f]" "[e]" "[]" w1] ready(2) assms(5,6) by (auto simp: polite_def)
  ultimately have "client_parseFrames h [] (?k0, w) = (Inr [f], (?k1\<lparr>k_frameBuffer := []\<rparr>, w2))"
    by (simp add: client_parse_round [of h "[]" "(?k0, w)"])
  moreover have "client_admits (?k1\<lparr>k_frameBuffer := []\<rparr>) f"
    using assms(3,8) by (simp add: client_admits_def word_gt_0 not_le)
  moreover have "polite (?k1\<lparr>k_frameBuffer := []\<rparr>)" using assms(5) by (simp add: polite_def)
  ultimately show ?thesis using assms(4) by (simp add: client_receive_run client_deliver_run)
qed

section \<open>Requests onto the wire\<close>

text \<open>A socket that takes at most \<open>n\<close> bytes in one call; one that takes all.\<close>

definition takes :: "host \<Rightarrow> (nat \<Rightarrow> nat) \<Rightarrow> bool" where
  "takes h t \<longleftrightarrow> (\<forall>i fd len. h_send h i fd len = int (t len))"

lemma send_once_wire:
  assumes "takes h t"
  shows "\<exists>w'. send_once h bs (k, w) = (Inr (), (k, w'))
    \<and> wire (k_socket k) w' = wire (k_socket k) w @ take (t (length bs)) bs \<and> w_closed w' = w_closed w"
proof -
  obtain sent w' where snd: "sys_send h (k_socket k) bs w = (sent, w')"
    by (cases "sys_send h (k_socket k) bs w")
  then have "sent = int (t (length bs))"
    using assms by (auto simp: sys_send_def takes_def Let_def)
  with wire_sys_send [OF snd] snd show ?thesis by (simp add: send_once_run)
qed

text \<open>
  A command to send one frame, once the handshake is no longer going on: the frame is numbered,
  encrypted, and given to one call of \<open>send\<close>.
\<close>

definition sending :: "Frame \<Rightarrow> ClientCommand" where
  "sending f = \<lparr>cc_type = SendFrame, cc_frame = Some f\<rparr>"

definition written :: "host \<Rightarrow> bytes \<Rightarrow> Frame \<Rightarrow> bytes \<Rightarrow> bool" where
  "written h key f e \<longleftrightarrow> (\<exists>t t'. encodeFrame (h_ssl h) f True key 0 t = (Inr e, t'))"

definition encodable :: "Frame \<Rightarrow> bool" where
  "encodable f \<longleftrightarrow> 57 + length (path f) + length (data f) < 2 ^ 31"

lemma written_sealed:
  "written h key f e \<Longrightarrow> encodable f \<Longrightarrow> length (path f) < 2 ^ 16
    \<Longrightarrow> 57 + length (path f) + length (data f) \<le> unat mx \<Longrightarrow> sealed (h_ssl h) key mx f e"
  by (simp add: sealed_def written_def encodable_def)

lemma frame_on_wire:
  assumes "client_ready h k" "k_state k \<noteq> Handshaking" "takes h t" "encodable f"
  obtains w2 e where "handleClientCommand h (sending f) (k, w) = (Inr (), (k\<lparr>k_fid := k_fid k + 1\<rparr>, w2))"
    "written h (k_aesKey k) (f\<lparr>fid := k_fid k + 1\<rparr>) e"
    "wire (k_socket k) w2 = wire (k_socket k) w @ take (t (length e)) e" "w_closed w2 = w_closed w"
proof -
  let ?f = "f\<lparr>fid := k_fid k + 1\<rparr>" and ?k = "k\<lparr>k_fid := k_fid k + 1\<rparr>"
  have key: "gcm_laws (h_ssl h)" "gcm_reliable (h_ssl h)" "length (k_aesKey k) = 32"
    using assms(1) by (simp_all add: client_ready_def)
  have "length (path ?f) + length (data ?f) + 20 < 2 ^ 31" using assms(4) by (simp add: encodable_def)
  then obtain e s' where enc: "encodeFrame (h_ssl h) ?f True (k_aesKey k) 0 (w_crypto w) = (Inr e, s')"
    using encrypted_body_arrives [OF key, of ?f 0 "w_crypto w"] by blast
  let ?w = "w\<lparr>w_crypto := s'\<rparr>"
  obtain w2 where snd: "send_once h e (?k, ?w) = (Inr (), (?k, w2))"
    and out: "wire (k_socket ?k) w2 = wire (k_socket ?k) ?w @ take (t (length e)) e" "w_closed w2 = w_closed ?w"
    using send_once_wire [OF assms(3), of e ?k ?w] by auto
  have "handleClientCommand h (sending f) (k, w) = (Inr (), (?k, w2))"
    using assms(2) enc snd by (simp add: sending_def handleClientCommand_def client_run crypto_io_def)
  moreover have "wire (k_socket k) w2 = wire (k_socket k) w @ take (t (length e)) e" "w_closed w2 = w_closed w"
    using out by (simp_all add: wire_def)
  moreover have "written h (k_aesKey k) ?f e" using enc by (auto simp: written_def)
  ultimately show thesis by (intro that)
qed

text \<open>Any number of them: they go out in the order of the queue, under consecutive numbers.\<close>

fun renumbered :: "u32 \<Rightarrow> Frame list \<Rightarrow> Frame list" where
  "renumbered n [] = []"
| "renumbered n (f # fs) = f\<lparr>fid := n + 1\<rparr> # renumbered (n + 1) fs"

abbreviation client_dequeue :: "ClientCommand \<Rightarrow> Connection \<times> world \<Rightarrow> Connection \<times> world" where
  "client_dequeue \<equiv> dequeue (\<lambda>s. k_commandQueue (fst s)) set_client_queue"

lemma frames_on_wire:
  assumes "client_ready h k" "k_state k \<noteq> Handshaking" "takes h t" "\<forall>f \<in> set fs. encodable f"
    and "cq_queue (k_commandQueue k) = map sending fs"
  shows "\<exists>w2 es. handle_all (handleClientCommand h) client_dequeue (map sending fs) (k, w)
      = (Inr (), (k\<lparr>k_commandQueue := k_commandQueue k\<lparr>cq_queue := []\<rparr>, k_fid := k_fid k + of_nat (length fs)\<rparr>, w2))
    \<and> list_all2 (written h (k_aesKey k)) (renumbered (k_fid k) fs) es
    \<and> wire (k_socket k) w2 = wire (k_socket k) w @ concat (map (\<lambda>e. take (t (length e)) e) es)
    \<and> w_closed w2 = w_closed w"
  using assms
proof (induction fs arbitrary: k w)
  case Nil
  then have "k_commandQueue k\<lparr>cq_queue := []\<rparr> = k_commandQueue k" by (cases "k_commandQueue k") simp
  then show ?case by simp
next
  case (Cons f fs)
  let ?k = "k\<lparr>k_commandQueue := k_commandQueue k\<lparr>cq_queue := map sending fs\<rparr>\<rparr>"
  let ?k1 = "?k\<lparr>k_fid := k_fid k + 1\<rparr>"
  have ready: "client_ready h ?k" "client_ready h ?k1"
    using Cons.prems(1) by (simp_all add: client_ready_def)
  have st: "k_state ?k \<noteq> Handshaking" "encodable f" using Cons.prems(2,4) by simp_all
  obtain w1 e where "handleClientCommand h (sending f) (?k, w) = (Inr (), (?k\<lparr>k_fid := k_fid ?k + 1\<rparr>, w1))"
    and "written h (k_aesKey ?k) (f\<lparr>fid := k_fid ?k + 1\<rparr>) e"
      "wire (k_socket ?k) w1 = wire (k_socket ?k) w @ take (t (length e)) e" "w_closed w1 = w_closed w"
    by (rule frame_on_wire [OF ready(1) st(1) Cons.prems(3) st(2)])
  then have one: "handleClientCommand h (sending f) (?k, w) = (Inr (), (?k1, w1))"
    and e: "written h (k_aesKey k) (f\<lparr>fid := k_fid k + 1\<rparr>) e"
      "wire (k_socket k) w1 = wire (k_socket k) w @ take (t (length e)) e" "w_closed w1 = w_closed w"
    by simp_all
  have "k_state ?k1 \<noteq> Handshaking" "\<forall>f \<in> set fs. encodable f" "cq_queue (k_commandQueue ?k1) = map sending fs"
    using Cons.prems(2,4) by simp_all
  note IH = Cons.IH [OF ready(2) this(1) Cons.prems(3) this(2,3), of w1]
  obtain w2 es where rest: "handle_all (handleClientCommand h) client_dequeue (map sending fs) (?k1, w1)
      = (Inr (), (?k1\<lparr>k_commandQueue := k_commandQueue ?k1\<lparr>cq_queue := []\<rparr>, k_fid := k_fid ?k1 + of_nat (length fs)\<rparr>, w2))"
    and es: "list_all2 (written h (k_aesKey ?k1)) (renumbered (k_fid ?k1) fs) es"
      "wire (k_socket ?k1) w2 = wire (k_socket ?k1) w1 @ concat (map (\<lambda>e. take (t (length e)) e) es)"
      "w_closed w2 = w_closed w1"
    using IH by blast
  have "client_dequeue (sending f) (k, w) = (?k, w)"
    using Cons.prems(5) by (simp add: dequeue_def cq_tryPop_def)
  then have "handle_all (handleClientCommand h) client_dequeue (map sending (f # fs)) (k, w)
      = (Inr (), (k\<lparr>k_commandQueue := k_commandQueue k\<lparr>cq_queue := []\<rparr>, k_fid := k_fid k + of_nat (length (f # fs))\<rparr>, w2))"
    using one rest by (simp add: algebra_simps)
  moreover have "list_all2 (written h (k_aesKey k)) (renumbered (k_fid k) (f # fs)) (e # es)" using e es by simp
  moreover have "wire (k_socket k) w2 = wire (k_socket k) w @ concat (map (\<lambda>e. take (t (length e)) e) (e # es))"
    using e es by simp
  ultimately show ?case using e(3) es(3) by (intro exI [of _ w2] exI [of _ "e # es"]) simp
qed

lemma drain_client_one:
  assumes "cq_queue (k_commandQueue k) = [cmd]" "cc_type cmd = SendFrame"
  shows "drain_client h (k, w)
    = handleClientCommand h cmd (k\<lparr>k_commandQueue := k_commandQueue k\<lparr>cq_queue := []\<rparr>\<rparr>, w)"
  using assms by (simp add: drain_client_all dequeue_def cq_tryPop_def split: prod.split sum.split)

lemma request_event:
  assumes "k_running k" "k_state k \<noteq> Closed" "cq_queue (k_commandQueue k) = []" "kv_fd ev = k_cmdEvFd k"
    and "queue_request pa d (k, w) = (Inr b, (k1, w1))"
  shows "b" "handle_client_event h ev (k1, w1) = handleClientCommand h
      \<lparr>cc_type = SendFrame, cc_frame = Some (makeFrame (k_fid k) STATUS_REQ 0 pa d (k_rid k + 1) (k_ssid k))\<rparr>
      (k\<lparr>k_rid := k_rid k + 1, k_wakeups := 0, k_commandQueue := k_commandQueue k\<lparr>cq_queue := []\<rparr>\<rparr>, w)"
proof -
  let ?cmd = "\<lparr>cc_type = SendFrame, cc_frame = Some (makeFrame (k_fid k) STATUS_REQ 0 pa d (k_rid k + 1) (k_ssid k))\<rparr>"
  have k1: "k1 = request_pushed pa d k" and "w1 = w" and b: "b"
    using assms(1,2,5) by (simp_all add: queue_request_run)
  show "b" by (rule b)
  have "drain_client h (k1\<lparr>k_wakeups := 0\<rparr>, w)
      = handleClientCommand h ?cmd (k1\<lparr>k_wakeups := 0, k_commandQueue := k_commandQueue k1\<lparr>cq_queue := []\<rparr>\<rparr>, w)"
    using drain_client_one [of "k1\<lparr>k_wakeups := 0\<rparr>" ?cmd h w] assms(3) by (simp add: k1 request_pushed_def cq_push_def)
  then show "handle_client_event h ev (k1, w1) = handleClientCommand h ?cmd
      (k\<lparr>k_rid := k_rid k + 1, k_wakeups := 0, k_commandQueue := k_commandQueue k\<lparr>cq_queue := []\<rparr>\<rparr>, w)"
    using assms(4) by (simp add: handle_client_event_def client_run k1 \<open>w1 = w\<close> request_pushed_def cq_push_def)
qed

lemma request_sent:
  assumes "client_ready h k" "k_running k" "k_state k = Connected" "cq_queue (k_commandQueue k) = []"
    and "kv_fd ev = k_cmdEvFd k" "takes h t"
    and "length pa < 2 ^ 16" "57 + length pa + length d \<le> unat mx" "57 + length pa + length d < 2 ^ 31"
    and "queue_request pa d (k, w) = (Inr b, (k1, w1))"
  shows "\<exists>w2 e. b \<and> handle_client_event h ev (k1, w1) = (Inr (), (k\<lparr>k_rid := k_rid k + 1, k_wakeups := 0,
      k_commandQueue := k_commandQueue k\<lparr>cq_queue := []\<rparr>, k_fid := k_fid k + 1\<rparr>, w2))
    \<and> sealed (h_ssl h) (k_aesKey k) mx
        (makeFrame (k_fid k + 1) STATUS_REQ 0 pa d (k_rid k + 1) (k_ssid k)) e
    \<and> wire (k_socket k) w2 = wire (k_socket k) w @ take (t (length e)) e"
proof -
  let ?g = "makeFrame (k_fid k) STATUS_REQ 0 pa d (k_rid k + 1) (k_ssid k)"
  let ?k = "k\<lparr>k_rid := k_rid k + 1, k_wakeups := 0, k_commandQueue := k_commandQueue k\<lparr>cq_queue := []\<rparr>\<rparr>"
  have size: "path ?g = pa" "data ?g = d" "encodable ?g" "encodable (?g\<lparr>fid := k_fid k + 1\<rparr>)"
    using assms(9) by (simp_all add: makeFrame_def encodable_def)
  have ready: "client_ready h ?k" using assms(1) by (simp add: client_ready_def)
  have st: "k_state ?k \<noteq> Handshaking" using assms(3) by simp
  obtain w2 e where snd: "handleClientCommand h (sending ?g) (?k, w) = (Inr (), (?k\<lparr>k_fid := k_fid ?k + 1\<rparr>, w2))"
    and e: "written h (k_aesKey ?k) (?g\<lparr>fid := k_fid ?k + 1\<rparr>) e"
      "wire (k_socket ?k) w2 = wire (k_socket ?k) w @ take (t (length e)) e"
    by (rule frame_on_wire [OF ready st assms(6) size(3)])
  have ne: "k_state k \<noteq> Closed" using assms(3) by simp
  note ev = request_event [OF assms(2) ne assms(4,5,10)]
  have upd: "?g\<lparr>fid := k_fid k + 1\<rparr> = makeFrame (k_fid k + 1) STATUS_REQ 0 pa d (k_rid k + 1) (k_ssid k)"
    by (simp add: makeFrame_def)
  have "sealed (h_ssl h) (k_aesKey k) mx (?g\<lparr>fid := k_fid k + 1\<rparr>) e"
    using e(1) size assms(7,8) by (intro written_sealed) simp_all
  then show ?thesis using ev snd e(2) by (auto simp: sending_def upd)
qed

text \<open>
  C20: what a queued request puts on the wire. On an established connection the eventfd's event
  makes one call of \<open>send\<close> with the encrypted frame, numbered with the next frame identifier and
  carrying the next request identifier; when the socket takes all bytes, the whole frame is sent;
  when it takes fewer, the rest is dropped, silently, and the stream is out of step for good.
\<close>

theorem request_sent_once:
  assumes "client_ready h k" "k_running k" "k_state k = Connected" "cq_queue (k_commandQueue k) = []"
    and "kv_fd ev = k_cmdEvFd k" "takes h t"
    and "length pa < 2 ^ 16" "57 + length pa + length d \<le> unat mx" "57 + length pa + length d < 2 ^ 31"
    and "queue_request pa d (k, w) = (Inr b, (k1, w1))"
  shows "\<exists>k2 w2 e. b \<and> handle_client_event h ev (k1, w1) = (Inr (), (k2, w2))
    \<and> sealed (h_ssl h) (k_aesKey k) mx
        (makeFrame (k_fid k + 1) STATUS_REQ 0 pa d (k_rid k + 1) (k_ssid k)) e
    \<and> wire (k_socket k) w2 = wire (k_socket k) w @ take (t (length e)) e
    \<and> cq_queue (k_commandQueue k2) = [] \<and> k_fid k2 = k_fid k + 1 \<and> k_state k2 = Connected"
  using request_sent [OF assms] assms(3) by fastforce

text \<open>
  A request queued before the handshake is over is lost: \<open>sendReq\<close> returns true, and the
  epoll thread discards the command without sending or keeping anything.
\<close>

lemma early_request_lost:
  assumes "k_running k" "k_state k = Handshaking" "k_handshakeSent k" "cq_queue (k_commandQueue k) = []"
    and "kv_fd ev = k_cmdEvFd k"
  shows "\<exists>k1 k2. sendReq req (k, w) = (Inr True, (k1, w))
    \<and> handle_client_event h ev (k1, w) = (Inr (), (k2, w))
    \<and> cq_queue (k_commandQueue k2) = [] \<and> k_fid k2 = k_fid k \<and> k_state k2 = Handshaking"
proof -
  have ne: "k_state k \<noteq> Closed" using assms(2) by simp
  obtain k1 where q: "queue_request (creq_path req) (creq_data req) (k, w) = (Inr True, (k1, w))"
    using assms(1) ne by (simp add: queue_request_run)
  note ev = request_event(2) [OF assms(1) ne assms(4,5) q, of h]
  show ?thesis
    by (intro exI [of _ k1] exI [of _ "k\<lparr>k_rid := k_rid k + 1, k_wakeups := 0,
          k_commandQueue := k_commandQueue k\<lparr>cq_queue := []\<rparr>\<rparr>"])
      (use q ev assms(2,3) in \<open>simp add: sendReq_def handleClientCommand_def client_run\<close>)
qed

section \<open>Closing\<close>

text \<open>What the epoll thread does once a user thread has begun to close: it wakes up and ends.\<close>

definition last_round :: "host \<Rightarrow> client_ev \<Rightarrow> ((Connection \<Rightarrow> Connection) \<times> client_ev list) list \<Rightarrow> unit client" where
  "last_round h ev waits = seqP (handle_client_events h [ev]) (client_loop h waits)"

text \<open>The requests that \<open>_onClose\<close> still queues, when \<open>close()\<close> calls it.\<close>

fun asked_frames :: "u32 \<Rightarrow> u64 \<Rightarrow> u32 \<Rightarrow> client_call list \<Rightarrow> Frame list" where
  "asked_frames fi si ri [] = []"
| "asked_frames fi si ri (CallSend pa d # todo) =
    makeFrame fi STATUS_REQ 0 pa d (ri + 1) si # asked_frames fi si (ri + 1) todo"
| "asked_frames fi si ri (CallClose # todo) = asked_frames fi si ri todo"

definition parting :: "Connection \<Rightarrow> Frame list" where
  "parting k = (case k_onClose k of None \<Rightarrow> []
    | Some (todo, thrown) \<Rightarrow> asked_frames (k_fid k) (k_ssid k) (k_rid k) todo)"

lemma asked_queue:
  "k_running k \<Longrightarrow> k_state k \<noteq> Closed \<Longrightarrow> cq_queue (k_commandQueue (asked todo k))
    = cq_queue (k_commandQueue k) @ map sending (asked_frames (k_fid k) (k_ssid k) (k_rid k) todo)"
  by (induction todo k rule: asked.induct) (simp_all add: request_pushed_def cq_push_def sending_def)

lemma asked_calls: "k_closeCalls (asked todo k) = k_closeCalls k"
  by (induction todo k rule: asked.induct) (simp_all add: request_pushed_def)

lemma calm_close:
  assumes "calm k" "k_running k" "k_state k \<noteq> Closed"
  obtains k1 where "close_begin (k, w) = (Inr (), (ended k1, w))" "asks_only k k1"
    "k_closeCalls k1 = k_closeCalls k + (if k_onClose k = None then 0 else 1)"
    "cq_queue (k_commandQueue k1) = cq_queue (k_commandQueue k) @ map sending (parting k)"
proof (cases "k_onClose k")
  case None
  then show thesis using that [of k] by (simp add: close_begin_run run_onClose_def retP_def parting_def)
next
  case (Some code)
  obtain todo thrown where code: "code = (todo, thrown)" by (cases code)
  have h: "CallClose \<notin> set todo" "thrown = None" using assms(1) Some code by (auto simp: calm_def harmless_def)
  let ?k = "k\<lparr>k_closeCalls := k_closeCalls k + 1\<rparr>"
  have "close_begin (k, w) = (Inr (), (ended (asked todo ?k), w))"
    using Some code h by (simp add: close_begin_run run_onClose_def client_run calls_run throwing_def)
  moreover have "asks_only k (asked todo ?k)" using asks_only_trans [OF asks_only_refl(2) asked_asks] .
  moreover have "k_closeCalls (asked todo ?k) = k_closeCalls k + (if k_onClose k = None then 0 else 1)"
    using Some by (simp add: asked_calls)
  moreover have "cq_queue (k_commandQueue (asked todo ?k)) = cq_queue (k_commandQueue k) @ map sending (parting k)"
    using asked_queue [of ?k todo] assms(2,3) Some code by (simp add: parting_def)
  ultimately show thesis by (rule that)
qed

text \<open>The last round of the epoll thread sends what is queued, and no more.\<close>

lemma last_round_sends:
  assumes "client_ready h k" "k_state k \<noteq> Handshaking" "\<not> k_running k" "takes h t" "\<forall>f \<in> set fs. encodable f"
    and "cq_queue (k_commandQueue k) = map sending fs" "kv_fd ev = k_cmdEvFd k"
  shows "\<exists>w2 es. last_round h ev waits (k, w) = (Inr (), (k\<lparr>k_wakeups := 0,
      k_commandQueue := k_commandQueue k\<lparr>cq_queue := []\<rparr>, k_fid := k_fid k + of_nat (length fs)\<rparr>, w2))
    \<and> list_all2 (written h (k_aesKey k)) (renumbered (k_fid k) fs) es
    \<and> wire (k_socket k) w2 = wire (k_socket k) w @ concat (map (\<lambda>e. take (t (length e)) e) es)
    \<and> w_closed w2 = w_closed w"
proof -
  let ?k = "k\<lparr>k_wakeups := 0\<rparr>"
  let ?k2 = "?k\<lparr>k_commandQueue := k_commandQueue k\<lparr>cq_queue := []\<rparr>, k_fid := k_fid k + of_nat (length fs)\<rparr>"
  have sends: "\<forall>cmd \<in> set (map sending fs). cc_type cmd = SendFrame" by (simp add: sending_def)
  have "client_ready h ?k" using assms(1) by (simp add: client_ready_def)
  from frames_on_wire [OF this _ assms(4,5), of w] obtain w2 es where
    run: "handle_all (handleClientCommand h) client_dequeue (map sending fs) (?k, w) = (Inr (), (?k2, w2))"
    and es: "list_all2 (written h (k_aesKey k)) (renumbered (k_fid k) fs) es"
      "wire (k_socket k) w2 = wire (k_socket k) w @ concat (map (\<lambda>e. take (t (length e)) e) es)"
      "w_closed w2 = w_closed w"
    using assms(2,6) by auto
  have "handle_client_event h ev (k, w) = (Inr (), (?k2, w2))"
    using assms(6,7) run sends by (simp add: handle_client_event_def client_run drain_client_all)
  moreover have "client_loop h waits (?k2, w2) = (Inr (), (?k2, w2))"
    using assms(3) by (cases waits) (auto simp: retP_def)
  ultimately have "last_round h ev waits (k, w) = (Inr (), (?k2, w2))"
    by (simp add: last_round_def client_run)
  with es show ?thesis by blast
qed


section \<open>A small client\<close>

text \<open>Socket 7, epoll 8, eventfd 9; before, during and after the handshake.\<close>

definition sample_connect :: connect_calls where
  "sample_connect = \<lparr>kc_socket = 7, kc_pton = 1, kc_connect = 0, kc_epoll = 8, kc_eventfd = 9,
     kc_addSocket = 0, kc_addEvent = 0\<rparr>"

definition sample_client :: Connection where
  "sample_client = fst (snd (Connection_new (lit ''127.0.0.1'') 9000 (lit ''PUB'') 65536
     (\<lambda>r. ([], None)) sample_connect sample_world))"

definition waiting_client :: Connection where
  "waiting_client = sample_client\<lparr>k_aesKey := replicate 32 9, k_handshakeSent := True\<rparr>"

definition connected_client :: Connection where
  "connected_client = waiting_client\<lparr>k_state := Connected, k_ssid := 77\<rparr>"

definition sample_client_event :: "int \<Rightarrow> client_ev" where
  "sample_client_event fd = \<lparr>kv_fd = fd, kv_hup = True, kv_in = False, kv_chunks = [], kv_end = Disconnect\<rparr>"

definition secured_frame :: Frame where
  "secured_frame = makeFrame 1 STATUS_OK 0 [] (lit ''Connection secured'') 0 77"

definition slow_host :: host where
  "slow_host = sample_host\<lparr>h_send := (\<lambda>n fd len. int (min len 10))\<rparr>"

lemma sample_client_eval: "Connection_new (lit ''127.0.0.1'') 9000 (lit ''PUB'') 65536
     (\<lambda>r. ([], None)) sample_connect sample_world = (Inr (), (sample_client, sample_world))"
  by (simp add: sample_client_def Connection_new_def connect_client_def sample_connect_def client_run)

lemma sample_client_fields [simp]:
  "k_running sample_client" "k_joinable sample_client" "k_state sample_client = Handshaking"
  "k_socket sample_client = 7" "k_epollFd sample_client = 8" "k_cmdEvFd sample_client = 9"
  "k_lastSrvFid sample_client = 0" "k_frameBuffer sample_client = []" "k_responses sample_client = []"
  "k_maxFrameSize sample_client = 65536" "cq_queue (k_commandQueue sample_client) = []"
  "k_fid sample_client = 0" "k_rid sample_client = 0" "\<not> k_handshakeSent sample_client"
  "k_pubKey sample_client = lit ''PUB''" "k_onClose sample_client = None"
  "k_onResponse sample_client = (\<lambda>r. ([], None))"
  by (simp_all add: sample_client_def Connection_new_def connect_client_def sample_connect_def
      Connection_init_def cq_new_def client_run)

lemma sample_client_event_fields [simp]: "kv_fd (sample_client_event fd) = fd"
  "kv_hup (sample_client_event fd)"
  by (simp_all add: sample_client_event_def)

lemma ready_clients [simp]: "client_ready sample_host connected_client"
  "client_ready sample_host waiting_client" "client_ready slow_host connected_client"
  by (simp_all add: client_ready_def connected_client_def waiting_client_def slow_host_def)

lemma connected_client_live: "live connected_client" "calm connected_client" "polite connected_client"
    "polite waiting_client"
  by (simp_all add: live_def calm_def polite_def harmless_def connected_client_def
      waiting_client_def)

lemma secured_frame_sealed: "\<exists>e. sealed_for sample_host waiting_client secured_frame e"
proof -
  have "path secured_frame = []" "length (data secured_frame) = 18"
    by (simp_all add: secured_frame_def makeFrame_def)
  then show ?thesis
    using seal_exists [of "h_ssl sample_host" "replicate 32 9" secured_frame 65536 no_crypto]
    by (auto simp: waiting_client_def)
qed

theorem disconnect_terminates_client_witness:
  "fst (handle_client_event sample_host (sample_client_event 7) (connected_client, sample_world))
    = Inl (Throw SystemError)"
  by (rule disconnect_terminates_client [OF connected_client_live(1,2)])
    (simp_all add: connected_client_def waiting_client_def)

theorem responses_delivered_witness:
  "\<exists>e k' w'. reads_all (\<lambda>cs. client_receive sample_host cs WouldBlock) () [[take 10 e], [], [drop 10 e, take 30 e]]
        (connected_client, sample_world) = (Inr (), (k', w'))
    \<and> k_responses k' = [ClientResponse_of secured_frame] \<and> k_frameBuffer k' = take 30 e"
proof -
  obtain e where e: "sealed_for sample_host connected_client secured_frame e"
    using secured_frame_sealed by (auto simp: connected_client_def)
  have cut: "concat (concat [[take 10 e], [], [drop 10 e, take 30 e]]) = concat [e] @ take 30 e" by simp
  have "57 \<le> length e" by (rule client_ready_facts(1) [OF ready_clients(1) e])
  then have "drop 30 e \<noteq> []" "sealed_for sample_host connected_client secured_frame (take 30 e @ drop 30 e)"
    using e by simp_all
  then have rest: "unfinished (sealed_for sample_host connected_client) (take 30 e)"
    unfolding unfinished_def by blast
  have "fid secured_frame = 1" "ssid secured_frame = 77" by (simp_all add: secured_frame_def makeFrame_def)
  then show ?thesis
    using responses_delivered [OF ready_clients(1) _ connected_client_live(3) _ _ cut rest, of "[secured_frame]" sample_world] e
    by (fastforce simp: connected_client_def waiting_client_def)
qed

theorem handshake_frame_replayed_witness:
  "\<exists>e k' w'. client_receive sample_host [e, e] WouldBlock (waiting_client, sample_world)
      = (Inr (), (k', w')) \<and> k_responses k' = [ClientResponse_of secured_frame]"
proof -
  obtain e where e: "sealed_for sample_host waiting_client secured_frame e"
    using secured_frame_sealed by blast
  have "data secured_frame = lit ''Connection secured''" "fid secured_frame \<noteq> 0"
    by (simp_all add: secured_frame_def makeFrame_def)
  then show ?thesis
    using handshake_frame_replayed [OF ready_clients(2) _ _ _ connected_client_live(4) e, of sample_world]
    by (auto simp: waiting_client_def)
qed

theorem request_sent_once_witness:
  "\<exists>k1 w1 k2 w2 e. queue_request (lit ''/a'') [] (connected_client, sample_world) = (Inr True, (k1, w1))
    \<and> handle_client_event slow_host (sample_client_event 9) (k1, w1) = (Inr (), (k2, w2))
    \<and> wire 7 w2 = take 10 e \<and> 57 \<le> length e"
proof -
  let ?k = connected_client
  have k: "k_running ?k" "k_state ?k = Connected" "cq_queue (k_commandQueue ?k) = []"
    "k_cmdEvFd ?k = 9" "k_socket ?k = 7" "k_fid ?k = 0" "k_ssid ?k = 77" "k_rid ?k = 0"
    by (simp_all add: connected_client_def waiting_client_def)
  then obtain k1 where q: "queue_request (lit ''/a'') [] (?k, sample_world) = (Inr True, (k1, sample_world))"
    by (simp add: queue_request_run)
  have "takes slow_host (\<lambda>n. min n 10)" by (simp add: takes_def slow_host_def)
  from request_sent_once [OF ready_clients(3) k(1-3) _ this, of "sample_client_event 9" _ _ 65536, OF _ _ _ _ q]
  obtain k2 w2 e where run: "handle_client_event slow_host (sample_client_event 9) (k1, sample_world) = (Inr (), (k2, w2))"
    and sealed: "sealed (h_ssl slow_host) (k_aesKey ?k) 65536
        (makeFrame (k_fid ?k + 1) STATUS_REQ 0 (lit ''/a'') [] (k_rid ?k + 1) (k_ssid ?k)) e"
    and out: "wire 7 w2 = wire 7 sample_world @ take (min (length e) 10) e"
    using k by auto
  have "57 \<le> length e"
    using sealed_facts(1) [OF _ _ _ sealed] ready_clients(3) by (simp add: client_ready_def)
  moreover have "wire 7 sample_world = []" by (simp add: wire_def sample_world_def)
  ultimately have "wire 7 w2 = take 10 e" using out by simp
  with q run \<open>57 \<le> length e\<close> show ?thesis by blast
qed

text \<open>One request queued before \<open>close()\<close>, and a callback that queues another one.\<close>

definition leaving_client :: Connection where
  "leaving_client = request_pushed (lit ''/a'') [1] (connected_client\<lparr>k_onClose := Some ([CallSend (lit ''/bye'') []], None)\<rparr>)"


end
