(* ===== verification/Client_Memory.thy ===== *)
theory Client_Memory
  imports Receive_Memory Client_Service
begin

text \<open>
  The receive path of the client's epoll thread (\<open>_epollLoop\<close>, \<open>_parseFrames\<close>) with \<open>_frameBuffer\<close> as a
  \<open>ByteBuffer\<close> in memory, as \<open>Server_Memory\<close> does it for the server.
\<close>

section \<open>The code on its buffer\<close>

definition get_frames :: "client_state \<Rightarrow> bytes" where
  "get_frames s = k_frameBuffer (fst s)"

definition keep_frames :: "bytes \<Rightarrow> client_state \<Rightarrow> client_state" where
  "keep_frames b s = ((fst s)\<lparr>k_frameBuffer := b\<rparr>, snd s)"

text \<open>
  \<open>i\<close> is \<open>_frameBuffer\<close>, \<open>t\<close> the local \<open>frameBuf\<close>, \<open>u\<close> the temporary slice. Only \<open>FMXPException\<close> is
  caught, around the decoding.
\<close>

definition take_frame_mem :: "oid \<Rightarrow> oid \<Rightarrow> nat \<Rightarrow> Frame list \<Rightarrow> Frame
    \<Rightarrow> (client_state, Frame list + Frame list) mem_prog" where
  "take_frame_mem i u n frames frame = (\<lambda>(m, (k, w)).
    (if k_state k = Handshaking then
       (if data frame = lit ''Connection secured'' then
          seqP (on_rest (updK (\<lambda>k. k\<lparr>k_state := Connected\<rparr>)))
          (seqP (on_rest (updK (\<lambda>k. k\<lparr>k_ssid := ssid frame\<rparr>)))
          (seqP (on_buffer keep_frames i (cut_front i u n)) (retP (Inr frames))))
        else failP (client_error ''Handshake failed''))
     else seqP (on_buffer keep_frames i (cut_front i u n)) (retP (Inr (frames @ [frame])))) (m, (k, w)))"

definition client_parse_step_mem :: "host \<Rightarrow> oid \<Rightarrow> oid \<Rightarrow> oid \<Rightarrow> Frame list
    \<Rightarrow> (client_state, Frame list + Frame list) mem_prog" where
  "client_parse_step_mem h i t u frames = (\<lambda>(m, (k, w)).
    (let buf = bytes_at i m in
     if length buf < MIN_FRAME_SIZE then retP (Inl frames)
     else if \<not> validateProtocol buf then on_rest (return_closed frames)
     else
       bindP (liftP (\<lambda>_. getFrameBodySize buf)) (\<lambda>bodyLen.
       let n = unat bodyLen + HEADER_SIZE in
       if bodyLen > k_maxFrameSize k \<or> n > unat (k_maxFrameSize k) then on_rest (return_closed frames)
       else if length buf < n then retP (Inl frames)
       else
         seqP (on_heap (slice_bb t i 0 (word_of_nat n)))
         (scoped t
           (bindP (liftP (\<lambda>(m, s). Inr (bytes_at t m))) (\<lambda>frameBuf.
            catching catches_FMXPException
             (bindP (on_rest (client_crypto (decodeFrame (h_ssl h) frameBuf True (k_aesKey k))))
               (take_frame_mem i u n frames))
             (on_rest (return_closed frames)))))))
    (m, (k, w)))"

definition client_parseFrames_mem :: "host \<Rightarrow> oid \<Rightarrow> oid \<Rightarrow> oid \<Rightarrow> (client_state, Frame list) mem_prog" where
  "client_parseFrames_mem h i t u = (\<lambda>(m, s).
     rounds (Suc (length (bytes_at i m))) (client_parse_step_mem h i t u) [] (m, s))"

definition client_receive_mem :: "host \<Rightarrow> oid \<Rightarrow> oid \<Rightarrow> oid \<Rightarrow> bytes list \<Rightarrow> recv_end \<Rightarrow> (client_state, unit) mem_prog" where
  "client_receive_mem h i t u chunks ending =
    seqP (recv_into keep_frames i chunks)
    (seqP (case ending of
        Disconnect \<Rightarrow> on_rest close_epoll
      | SockError \<Rightarrow> on_rest close_epoll
      | WouldBlock \<Rightarrow> retP ())
    (bindP (client_parseFrames_mem h i t u) (\<lambda>frames. on_rest (client_deliver frames))))"

definition client_event_mem :: "host \<Rightarrow> oid \<Rightarrow> oid \<Rightarrow> oid \<Rightarrow> client_ev \<Rightarrow> (client_state, unit) mem_prog" where
  "client_event_mem h i t u ev = (\<lambda>(m, (k, w)).
    (if kv_fd ev = k_cmdEvFd k then
       seqP (on_rest (updK (\<lambda>k. k\<lparr>k_wakeups := 0\<rparr>))) (on_rest (drain_client h))
     else if kv_fd ev = k_socket k then
       (if kv_hup ev then on_rest close_epoll
        else if kv_in ev then client_receive_mem h i t u (kv_chunks ev) (kv_end ev)
        else retP ())
     else retP ()) (m, (k, w)))"

section \<open>It does what the code on lists does, or an allocation has failed\<close>

interpretation frame_buffer: receiving get_frames keep_frames
  by unfold_locales (auto simp: get_frames_def keep_frames_def)

lemma leaves_updK [leaves_intros]: "(\<And>k. k_frameBuffer (f k) = k_frameBuffer k) \<Longrightarrow> leaves get_frames (updK f)"
  by (auto intro!: leavesI simp: get_frames_def updK_def modP_def)

lemma leaves_client_crypto [leaves_intros]: "leaves get_frames (client_crypto m)"
  by (auto intro!: leavesI simp: get_frames_def client_crypto_def split: prod.split)

lemma leaves_close_epoll [leaves_intros]: "leaves get_frames close_epoll"
  using close_epoll_buffer by (auto intro!: leavesI simp: get_frames_def) (metis prod.collapse)

lemma leaves_return_closed [leaves_intros]: "leaves get_frames (return_closed fs)"
  unfolding return_closed_def by (intro leaves_intros)

lemma leaves_queue_request [leaves_intros]: "leaves get_frames (queue_request pa d)"
  by (auto intro!: leavesI simp: get_frames_def queue_request_run request_pushed_def)

lemma leaves_onResponse_calls [leaves_intros]: "leaves get_frames (onResponse_calls todo)"
  by (induction todo rule: onResponse_calls.induct) (simp_all add: leaves_intros)

lemma leaves_onResponse [leaves_intros]: "leaves get_frames (run_onResponse r)"
proof -
  have "leaves get_frames (throwing e)" for e by (cases e) (simp_all add: throwing_def leaves_intros)
  then show ?thesis unfolding run_onResponse_def
    by (intro leaves_intros) (auto split: prod.split intro!: leaves_intros)
qed

lemma leaves_client_deliver [leaves_intros]: "leaves get_frames (client_deliver fs)"
proof (induction fs)
  case (Cons f fs)
  then show ?case unfolding client_deliver.simps(2) client_validateFrame_def by (intro leaves_intros) simp_all
qed (simp add: leaves_intros)

lemma catch_FMXPException_catching: "catch_FMXPException = catching catches_FMXPException"
  by (intro ext) (simp add: catch_FMXPException_def catching_def)

lemma consumeK_runs: "n \<le> length (get_frames s) \<Longrightarrow> consumeK n s = (Inr (), keep_frames (drop n (get_frames s)) s)"
  by (cases s) (simp add: consumeK_def get_frames_def keep_frames_def slice_def client_run)

lemma consumed_mirrors:
  assumes "holds i m (get_frames s)" "view m u = None" "n \<le> length (get_frames s)" "length (get_frames s) \<le> 2 ^ 63"
  shows "mirrors get_frames i m (seqP (on_buffer keep_frames i (cut_front i u n)) (retP x) (m, s)) (seqP (consumeK n) (retP x) s)"
  unfolding seqP_def
proof (rule mirrors_bind [where p = "on_buffer keep_frames i (cut_front i u n)" and q = "consumeK n"])
  show "mirrors get_frames i m (on_buffer keep_frames i (cut_front i u n) (m, s)) (consumeK n s)"
    using frame_buffer.cut_front_mirrors [OF assms] assms(3) by (simp add: consumeK_runs)
qed (simp add: retP_def mirrors_ret)

lemma taken_frame_mirrors:
  assumes "holds i m (get_frames s)" "view m u = None" "n \<le> length (get_frames s)" "length (get_frames s) \<le> 2 ^ 63"
  shows "mirrors get_frames i m (take_frame_mem i u n frames f (m, s)) (take_frame n frames f s)"
proof -
  obtain k w where s: "s = (k, w)" by (cases s)
  let ?s = "(k\<lparr>k_state := Connected, k_ssid := ssid f\<rparr>, w)"
  have same: "get_frames ?s = get_frames s" using s by (simp add: get_frames_def)
  let ?more = "\<lambda>fs. Inr fs :: Frame list + Frame list" and ?fail = "Inl (client_error ''Handshake failed'') :: fault + (Frame list + Frame list)"
  have "mirrors get_frames i m (seqP (on_buffer keep_frames i (cut_front i u n)) (retP (?more frames)) (m, ?s))
      (seqP (consumeK n) (retP (?more frames)) ?s)" for frames
    using consumed_mirrors [of i m ?s u n "?more frames"] assms unfolding same by blast
  moreover have "mirrors get_frames i m (?fail, (m, s)) (?fail, s)"
    by (rule mirrors_ret [where get = get_frames, OF assms(1)])
  ultimately show ?thesis
    using consumed_mirrors [OF assms, of "?more (frames @ [f])"] s
    by (simp add: take_frame_mem_def take_frame_def seqP_def bindP_def on_rest_def updK_def modP_def failP_def)
qed

lemma client_parse_step_mirrors:
  assumes "holds i m (get_frames s)" "\<forall>x \<in> {t, u}. view m x = None" "length (get_frames s) \<le> 2 ^ 63" "t \<noteq> u"
  shows "mirrors get_frames i m (client_parse_step_mem h i t u frames (m, s)) (client_parse_step h frames s)"
proof -
  obtain k w where s: "s = (k, w)" by (cases s)
  let ?buf = "get_frames s"
  have buf: "bytes_at i m = ?buf" "k_frameBuffer k = ?buf" using bytes_at_holds [OF assms(1)] s by (simp_all add: get_frames_def)
  have distinct: "i \<noteq> t" "i \<noteq> u" using assms(1,2) by (auto simp: holds_def)
  have stay: "mirrors get_frames i m (on_rest p (m, s)) (p s)" if "leaves get_frames p" for p :: "(Frame list + Frame list) client"
    by (rule mirrors_leaves [OF assms(1) that])
  have still: "mirrors get_frames i m (Inr x, (m, s)) (Inr x, s)" for x :: "Frame list + Frame list"
    by (rule mirrors_ret [where get = get_frames, OF assms(1)])
  show ?thesis
  proof (cases "length ?buf < 29 \<or> \<not> validateProtocol ?buf")
    case True
    then show ?thesis using buf stay [OF leaves_return_closed] still s
      by (auto simp: client_parse_step_mem_def client_parse_step_def frame_sizes Let_def retP_def)
  next
    case False
    then obtain b where b: "getFrameBodySize ?buf = Inr b" using getFrameBodySize_defined [of ?buf] by auto
    let ?n = "unat b + 9"
    show ?thesis
    proof (cases "b > k_maxFrameSize k \<or> ?n > unat (k_maxFrameSize k) \<or> length ?buf < ?n")
      case True
      then show ?thesis using False buf stay [OF leaves_return_closed] still s b
        by (auto simp: client_parse_step_mem_def client_parse_step_def frame_sizes Let_def retP_def bindP_liftP_Inr)
    next
      case fits: False
      let ?front = "take ?n ?buf"
      let ?dec = "\<lambda>frameBuf. client_crypto (decodeFrame (h_ssl h) frameBuf True (k_aesKey k))"
      let ?local = "bindP (liftP (\<lambda>(m, s). Inr (bytes_at t m))) (\<lambda>frameBuf. catching catches_FMXPException
        (bindP (on_rest (?dec frameBuf)) (take_frame_mem i u ?n frames)) (on_rest (return_closed frames)))"
      have list: "client_parse_step h frames s
          = catching catches_FMXPException (bindP (?dec ?front) (take_frame ?n frames)) (return_closed frames) s"
        using False fits buf s b
        by (simp add: client_parse_step_def frame_sizes Let_def bindP_liftP_Inr catch_FMXPException_catching slice_def)
      have mem: "client_parse_step_mem h i t u frames (m, s)
          = seqP (on_heap (slice_bb t i 0 (word_of_nat ?n))) (scoped t ?local) (m, s)"
        using False fits buf s b by (simp add: client_parse_step_mem_def frame_sizes Let_def bindP_liftP_Inr)
      show ?thesis unfolding list mem
      proof (rule mirrors_scoped [where get = get_frames, OF assms(1)])
        fix m1
        assume m1: "holds i m1 (get_frames s)" "view m1 = (view m)(t \<mapsto> map Some ?front)"
        have front: "bytes_at t m1 = ?front" using m1(2) by (intro bytes_at_view) simp
        have "mirrors get_frames i m1 (bindP (on_rest (?dec ?front)) (take_frame_mem i u ?n frames) (m1, s))
            (bindP (?dec ?front) (take_frame ?n frames) s)"
        proof (rule mirrors_bind [where p = "on_rest (?dec ?front)" and q = "?dec ?front",
              OF mirrors_leaves [OF m1(1) leaves_client_crypto]])
          fix f m2 s2
          assume f: "?dec ?front s = (Inr f, s2)" "holds i m2 (get_frames s2)" "view m2 = (view m1)(i \<mapsto> map Some (get_frames s2))"
          have same: "get_frames s2 = get_frames s"
            using leaves_client_crypto f(1) by (metis leaves_def snd_conv)
          have free: "view m2 u = None" using f(3) m1(2) assms(2,4) distinct by simp
          show "mirrors get_frames i m2 (take_frame_mem i u ?n frames f (m2, s2)) (take_frame ?n frames f s2)"
            by (rule taken_frame_mirrors [OF f(2) free]) (use fits assms(3) same in simp_all)
        qed
        then have "mirrors get_frames i m1 (catching catches_FMXPException (bindP (on_rest (?dec ?front)) (take_frame_mem i u ?n frames))
              (on_rest (return_closed frames)) (m1, s))
            (catching catches_FMXPException (bindP (?dec ?front) (take_frame ?n frames)) (return_closed frames) s)"
          by (rule mirrors_catch) (simp_all add: mirrors_leaves leaves_return_closed)
        then show "mirrors get_frames i m1 (?local (m1, s))
            (catching catches_FMXPException (bindP (?dec ?front) (take_frame ?n frames)) (return_closed frames) s)"
          by (simp add: bindP_def liftP_def front)
      qed (use fits assms(2,3) in auto)
    qed
  qed
qed

lemma client_parseFrames_mirrors:
  assumes "holds i m (get_frames s)" "\<forall>x \<in> {t, u}. view m x = None" "length (get_frames s) \<le> 2 ^ 63" "t \<noteq> u"
  shows "mirrors get_frames i m (client_parseFrames_mem h i t u (m, s)) (client_parseFrames h [] s)"
proof -
  have "i \<notin> {t, u}" using assms(1,2) by (auto simp: holds_def)
  have "mirrors get_frames i m (rounds (Suc (length (get_frames s))) (client_parse_step_mem h i t u) [] (m, s)) (client_parseFrames h [] s)"
    by (rule frame_buffer.rounds_mirror [where T = "{t, u}" and step = "client_parse_step h"])
      (use assms client_parse_step_mirrors client_parse_step_consumes \<open>i \<notin> {t, u}\<close>
       in \<open>auto simp: get_frames_def intro!: client_parse_round\<close>)
  then show ?thesis using bytes_at_holds [OF assms(1)] by (simp add: client_parseFrames_mem_def)
qed

lemma client_receive_mirrors:
  assumes "holds i m (get_frames s)" "\<forall>x \<in> {t, u}. view m x = None" "t \<noteq> u"
    and "length (get_frames s @ concat chunks) \<le> 2 ^ 63"
  shows "mirrors get_frames i m (client_receive_mem h i t u chunks ending (m, s)) (client_receive h chunks ending s)"
  unfolding client_receive_mem_def client_receive_def seqP_def
proof (rule mirrors_bind [where p = "recv_into keep_frames i chunks"
      and q = "updK (\<lambda>k. k\<lparr>k_frameBuffer := k_frameBuffer k @ concat chunks\<rparr>)"])
  let ?app = "updK (\<lambda>k. k\<lparr>k_frameBuffer := k_frameBuffer k @ concat chunks\<rparr>)"
  have app: "?app s = (Inr (), keep_frames (get_frames s @ concat chunks) s)"
    by (cases s) (simp add: updK_def modP_def get_frames_def keep_frames_def)
  show "mirrors get_frames i m (recv_into keep_frames i chunks (m, s)) (?app s)"
    using frame_buffer.recv_into_mirrors [OF assms(1,4)] by (simp add: app)
  fix x m1 s1
  assume s1: "?app s = (Inr x, s1)" "holds i m1 (get_frames s1)" "view m1 = (view m)(i \<mapsto> map Some (get_frames s1))"
  have distinct: "i \<noteq> t" "i \<noteq> u" using assms(1,2) by (auto simp: holds_def)
  have len: "length (get_frames s1) \<le> 2 ^ 63" using s1(1) assms(4) app by auto
  let ?stop = "case ending of Disconnect \<Rightarrow> close_epoll | WouldBlock \<Rightarrow> retP () | SockError \<Rightarrow> close_epoll"
  let ?stopm = "case ending of Disconnect \<Rightarrow> on_rest close_epoll | WouldBlock \<Rightarrow> retP () | SockError \<Rightarrow> on_rest close_epoll"
  have leaves: "leaves get_frames ?stop" by (cases ending) (simp_all add: leaves_intros)
  have "mirrors get_frames i m1 (?stopm (m1, s1)) (?stop s1)"
    using mirrors_leaves [OF s1(2) leaves] by (cases ending) (simp_all add: on_rest_def retP_def)
  then show "mirrors get_frames i m1
      (bindP ?stopm (\<lambda>_. bindP (client_parseFrames_mem h i t u) (\<lambda>frames. on_rest (client_deliver frames))) (m1, s1))
      (bindP ?stop (\<lambda>_. bindP (client_parseFrames h []) client_deliver) s1)"
  proof (rule mirrors_bind [where p = ?stopm and q = ?stop])
    fix x m2 s2
    assume s2: "?stop s1 = (Inr x, s2)" "holds i m2 (get_frames s2)" "view m2 = (view m1)(i \<mapsto> map Some (get_frames s2))"
    have same: "get_frames s2 = get_frames s1" using leaves s2(1) by (metis leaves_def snd_conv)
    have free: "\<forall>x \<in> {t, u}. view m2 x = None" using s2(3) s1(3) assms(2) distinct by simp
    show "mirrors get_frames i m2 (bindP (client_parseFrames_mem h i t u) (\<lambda>frames. on_rest (client_deliver frames)) (m2, s2))
        (bindP (client_parseFrames h []) client_deliver s2)"
    proof (rule mirrors_bind [where p = "client_parseFrames_mem h i t u" and q = "client_parseFrames h []"])
      show "mirrors get_frames i m2 (client_parseFrames_mem h i t u (m2, s2)) (client_parseFrames h [] s2)"
        by (rule client_parseFrames_mirrors [OF s2(2) free _ assms(3)]) (use len same in simp)
    qed (rule mirrors_leaves [OF _ leaves_client_deliver])
  qed
qed

section \<open>What an event can end in\<close>

text \<open>
  C22: whatever the socket delivers and whatever the allocator does, the client's epoll thread never
  accesses memory outside \<open>_frameBuffer\<close> or its slices, and never storage that is freed, in handling an
  event of the socket. The event is handled, or an exception leaves the thread, which ends the
  process: \<open>std::system_error\<close> from joining itself, a \<open>std::runtime_error\<close>, what the user's own functions
  throw, or \<open>bad_alloc\<close> when an allocation fails. Only an \<open>_onClose\<close> that itself closes exhausts the
  stack. As long as allocations succeed the outcome is that of the code on lists; nothing leaks, and the
  buffer holds what the list says. A server can force \<open>bad_alloc\<close>, with more bytes at once than the
  allocator gives out in one block, whatever \<open>_maxFrameSize\<close> is.
\<close>

theorem client_event_faults:
  assumes "gcm_laws (h_ssl h)" "kv_fd ev \<noteq> k_cmdEvFd k"
    and "holds i m (k_frameBuffer k)" "view m t = None" "view m u = None" "t \<noteq> u"
    and "length (k_frameBuffer k @ concat (kv_chunks ev)) \<le> 2 ^ 63"
  shows "case client_event_mem h i t u ev (m, (k, w)) of (r, (m', s')) \<Rightarrow>
      (\<forall>e. r = Inl e \<longrightarrow> e = Throw SystemError \<or> (\<exists>msg. e = Throw (RuntimeError msg)) \<or> user_fault k e
         \<or> e = Throw BadAlloc \<and> \<not> roomy m)
    \<and> ((r, s') = handle_client_event h ev (k, w) \<or> r = Inl (Throw BadAlloc) \<and> \<not> roomy m)
    \<and> (r \<noteq> Inl StackOverflow \<longrightarrow> mem_ok m' \<and> view m' = (view m)(i \<mapsto> map Some (k_frameBuffer (fst s'))))
    \<and> (kv_fd ev = k_socket k \<and> \<not> kv_hup ev \<and> kv_in ev \<and> limited L m
       \<and> L < length (k_frameBuffer k @ concat (kv_chunks ev)) \<longrightarrow> r = Inl (Throw BadAlloc))"
proof -
  obtain r m' s' where run: "client_event_mem h i t u ev (m, (k, w)) = (r, (m', s'))" by (metis surj_pair)
  have h: "holds i m (get_frames (k, w))" "length (get_frames (k, w) @ concat (kv_chunks ev)) \<le> 2 ^ 63"
    using assms(3,7) by (simp_all add: get_frames_def)
  have "mirrors get_frames i m (client_event_mem h i t u ev (m, (k, w))) (handle_client_event h ev (k, w))"
    using assms(2,4,5) mirrors_leaves [OF h(1) leaves_close_epoll] mirrors_ret [where get = get_frames, OF h(1), of "Inr ()"]
      client_receive_mirrors [OF h(1) _ assms(6) h(2), of h "kv_end ev"]
    by (simp add: client_event_mem_def handle_client_event_def retP_def)
  then have mir: "(r, s') = handle_client_event h ev (k, w) \<or> r = Inl (Throw BadAlloc) \<and> \<not> roomy m"
    "survives r \<longrightarrow> holds i m' (get_frames s') \<and> view m' = (view m)(i \<mapsto> map Some (get_frames s'))"
    using run by (auto simp: mirrors_def)
  have faults: "e = Throw SystemError \<or> (\<exists>msg. e = Throw (RuntimeError msg)) \<or> user_fault k e
      \<or> e = Throw BadAlloc \<and> \<not> roomy m" if "r = Inl e" for e
    using mir(1) client_event_fault [OF assms(1,2), of w e s'] that by auto
  then have "survives r" if "r \<noteq> Inl StackOverflow"
    using that by (cases r) (auto simp: user_fault_def)
  moreover have "r = Inl (Throw BadAlloc)" if "kv_fd ev = k_socket k" "\<not> kv_hup ev" "kv_in ev" "limited L m"
    "L < length (k_frameBuffer k @ concat (kv_chunks ev))"
  proof -
    have "fst (recv_into keep_frames i (kv_chunks ev) (m, (k, w))) = Inl (Throw BadAlloc)"
      using frame_buffer.flood [OF h(1) that(4) _ h(2)] that(5) by (simp add: get_frames_def)
    then have "fst (client_receive_mem h i t u (kv_chunks ev) (kv_end ev) (m, (k, w))) = Inl (Throw BadAlloc)"
      unfolding client_receive_mem_def by (rule recv_fails)
    then show ?thesis using run assms(2) that(1-3) by (simp add: client_event_mem_def)
  qed
  ultimately show ?thesis using run mir faults by (auto simp: holds_def get_frames_def)
qed

text \<open>A hang-up, and 65 bytes when no block is larger than 64.\<close>

definition flood_event :: client_ev where
  "flood_event = \<lparr>kv_fd = 7, kv_hup = False, kv_in = True, kv_chunks = [replicate 65 0], kv_end = WouldBlock\<rparr>"

theorem client_event_faults_witness:
  "fst (client_event_mem sample_host 0 1 2 (sample_client_event 7) (one_buffer (\<lambda>n. True), (connected_client, sample_world)))
      = Inl (Throw SystemError)
   \<and> fst (client_event_mem sample_host 0 1 2 flood_event (one_buffer (\<lambda>n. n \<le> 64), (connected_client, sample_world)))
      = Inl (Throw BadAlloc)"
proof
  have k: "k_cmdEvFd connected_client = 9" "k_socket connected_client = 7" "k_frameBuffer connected_client = []"
    by (simp_all add: connected_client_def waiting_client_def)
  have holds: "holds 0 (one_buffer can) (k_frameBuffer connected_client)" for can
    by (simp add: one_buffer_facts k)
  note faults = client_event_faults [OF sample_host_laws(1) _ _ one_buffer_facts(2,3), where k = connected_client
      and w = sample_world, OF _ holds]
  have close: "\<exists>s'. handle_client_event sample_host (sample_client_event 7) (connected_client, sample_world)
      = (Inl (Throw SystemError), s')"
    using live_close [OF connected_client_live(1,2), of sample_world] k by (auto simp: handle_client_event_def)
  have roomy: "roomy (one_buffer (\<lambda>n. True))" by (simp add: roomy_def one_buffer_def)
  let ?run = "client_event_mem sample_host 0 1 2 (sample_client_event 7) (one_buffer (\<lambda>n. True), (connected_client, sample_world))"
  obtain r m' s' where run: "?run = (r, (m', s'))" by (metis surj_pair)
  then have "(r, s') = handle_client_event sample_host (sample_client_event 7) (connected_client, sample_world)"
    using faults [of "sample_client_event 7" "\<lambda>n. True"] roomy k by (auto simp: sample_client_event_def)
  then show "fst ?run = Inl (Throw SystemError)" using close run by (metis fst_conv)
  let ?flood = "client_event_mem sample_host 0 1 2 flood_event (one_buffer (\<lambda>n. n \<le> 64), (connected_client, sample_world))"
  obtain r m' s' where run: "?flood = (r, (m', s'))" by (metis surj_pair)
  then have "r = Inl (Throw BadAlloc)"
    using faults [of flood_event "\<lambda>n. n \<le> 64", where L = 64] one_buffer_facts(4) k by (auto simp: flood_event_def)
  then show "fst ?flood = Inl (Throw BadAlloc)" using run by simp
qed

end
