(* ===== verification/Thread_Pool.thy ===== *)
theory Thread_Pool
  imports Concurrent_Queue
begin

text \<open>
  \<open>server/tpool.hpp\<close> and \<open>server/tpool.cpp\<close>: the workers that run the request handlers. The
  critical sections are the steps: the test of the wait predicate together with what follows
  it under the lock, a notification reaching a worker, the end of a task. The steps of
  different workers and of the callers of \<open>enqueue\<close> interleave freely.
\<close>

section \<open>State and steps\<close>

text \<open>
  A worker is about to test the predicate, blocked in \<open>_cv.wait\<close>, inside \<open>task()\<close>, or has
  returned. A task that throws leaves the thread function: \<open>std::terminate\<close>.
\<close>

datatype 'a worker = Ready | Asleep | Running 'a | Exited

text \<open>
  \<open>tp_notify\<close> and \<open>tp_notify_all\<close> are notifications issued and not yet delivered; \<open>tp_enqueued\<close>
  and \<open>tp_started\<close> record, in order, every task passed to \<open>enqueue\<close> and every task begun.
\<close>

record 'a thread_pool =
  tp_workers :: "'a worker list"
  tp_tasks :: "'a list"
  tp_stop :: bool
  tp_notify :: nat
  tp_notify_all :: bool
  tp_terminated :: bool
  tp_enqueued :: "'a list"
  tp_started :: "'a list"

definition ThreadPool :: "nat \<Rightarrow> 'a thread_pool" where
  "ThreadPool threads =
    \<lparr>tp_workers = replicate threads Ready, tp_tasks = [], tp_stop = False, tp_notify = 0,
     tp_notify_all = False, tp_terminated = False, tp_enqueued = [], tp_started = []\<rparr>"

definition tp_push :: "'a \<Rightarrow> 'a thread_pool \<Rightarrow> 'a thread_pool" where
  "tp_push t p = p\<lparr>tp_tasks := tp_tasks p @ [t], tp_enqueued := tp_enqueued p @ [t]\<rparr>"

definition tp_enqueue :: "'a \<Rightarrow> 'a thread_pool \<Rightarrow> 'a thread_pool" where
  "tp_enqueue t p = (let p = tp_push t p in p\<lparr>tp_notify := tp_notify p + 1\<rparr>)"

definition tp_pop :: "'a thread_pool \<Rightarrow> 'a option \<times> 'a thread_pool" where
  "tp_pop p = (case tp_tasks p of [] \<Rightarrow> (None, p)
    | t # ts \<Rightarrow> (Some t, p\<lparr>tp_tasks := ts, tp_started := tp_started p @ [t]\<rparr>))"

interpretation tp: fifo tp_push tp_pop tp_tasks
  by unfold_locales (simp_all add: tp_push_def tp_pop_def)

definition set_worker :: "nat \<Rightarrow> 'a worker \<Rightarrow> 'a thread_pool \<Rightarrow> 'a thread_pool" where
  "set_worker i w p = p\<lparr>tp_workers := (tp_workers p)[i := w]\<rparr>"

text \<open>The section a worker runs under the lock, from the wait predicate on.\<close>

definition worker_check :: "nat \<Rightarrow> 'a thread_pool \<Rightarrow> 'a thread_pool" where
  "worker_check i p =
    (if \<not> (tp_stop p \<or> tp_tasks p \<noteq> []) then set_worker i Asleep p
     else if tp_stop p \<and> tp_tasks p = [] then set_worker i Exited p
     else (case tp_pop p of
        (Some task, p') \<Rightarrow> set_worker i (Running task) p'
      | (None, p') \<Rightarrow> p'))"

definition worker_finish :: "('a \<Rightarrow> bool) \<Rightarrow> nat \<Rightarrow> 'a \<Rightarrow> 'a thread_pool \<Rightarrow> 'a thread_pool" where
  "worker_finish throws i task p =
    (if throws task then p\<lparr>tp_terminated := True\<rparr> else set_worker i Ready p)"

text \<open>The destructor up to the joins: the stop flag, then \<open>notify_all\<close>.\<close>

definition tp_destroy :: "'a thread_pool \<Rightarrow> 'a thread_pool" where
  "tp_destroy p = p\<lparr>tp_stop := True, tp_notify_all := True\<rparr>"

fun rouse :: "'a worker \<Rightarrow> 'a worker" where
  "rouse Asleep = Ready"
| "rouse w = w"

definition tp_wake_all :: "'a thread_pool \<Rightarrow> 'a thread_pool" where
  "tp_wake_all p = p\<lparr>tp_notify_all := False,
     tp_workers := map rouse (tp_workers p)\<rparr>"

text \<open>The destructor's joins return when every worker has.\<close>

definition tp_joined :: "'a thread_pool \<Rightarrow> bool" where
  "tp_joined p \<longleftrightarrow> (\<forall>w \<in> set (tp_workers p). w = Exited)"

inductive pool_step :: "('a \<Rightarrow> bool) \<Rightarrow> 'a thread_pool \<Rightarrow> 'a thread_pool \<Rightarrow> bool" for throws where
  check: "\<not> tp_terminated p \<Longrightarrow> i < length (tp_workers p) \<Longrightarrow> tp_workers p ! i = Ready
    \<Longrightarrow> pool_step throws p (worker_check i p)"
| finish: "\<not> tp_terminated p \<Longrightarrow> i < length (tp_workers p) \<Longrightarrow> tp_workers p ! i = Running t
    \<Longrightarrow> pool_step throws p (worker_finish throws i t p)"
| notified: "\<not> tp_terminated p \<Longrightarrow> tp_notify p = Suc n \<Longrightarrow> i < length (tp_workers p)
    \<Longrightarrow> tp_workers p ! i = Asleep \<Longrightarrow> pool_step throws p (set_worker i Ready (p\<lparr>tp_notify := n\<rparr>))"
| unheard: "\<not> tp_terminated p \<Longrightarrow> tp_notify p = Suc n \<Longrightarrow> Asleep \<notin> set (tp_workers p)
    \<Longrightarrow> pool_step throws p (p\<lparr>tp_notify := n\<rparr>)"
| wake_all: "\<not> tp_terminated p \<Longrightarrow> tp_notify_all p \<Longrightarrow> pool_step throws p (tp_wake_all p)"

text \<open>
  What the rest of the world may do meanwhile: enqueue before the destructor has begun, or
  from inside a running task, destroy the pool once, and wake a sleeper for no reason, which
  \<open>condition_variable::wait\<close> allows (the sleeper checks its condition again).
\<close>

inductive pool_reach :: "('a \<Rightarrow> bool) \<Rightarrow> nat \<Rightarrow> 'a thread_pool \<Rightarrow> bool" for throws threads where
  init: "pool_reach throws threads (ThreadPool threads)"
| step: "pool_reach throws threads p \<Longrightarrow> pool_step throws p p' \<Longrightarrow> pool_reach throws threads p'"
| enqueue: "pool_reach throws threads p \<Longrightarrow> \<not> tp_stop p \<or> (\<exists>t. Running t \<in> set (tp_workers p))
    \<Longrightarrow> pool_reach throws threads (tp_enqueue t p)"
| spurious: "pool_reach throws threads p \<Longrightarrow> i < length (tp_workers p) \<Longrightarrow> tp_workers p ! i = Asleep
    \<Longrightarrow> pool_reach throws threads (set_worker i Ready p)"
| destroy: "pool_reach throws threads p \<Longrightarrow> \<not> tp_stop p \<Longrightarrow> pool_reach throws threads (tp_destroy p)"

end
