(* ===== verification/Server.thy ===== *)
theory Server
  imports Server_Connection Thread_Pool "HOL-Library.AList"
begin

text \<open>
  \<open>server/Server.hpp\<close> and \<open>server/Server.cpp\<close>: routing on the worker threads, the command queue
  through which they reach the epoll thread, and the epoll loop that owns the connections. The
  pool of \<open>Thread_Pool\<close> and the queue of \<open>Concurrent_Queue\<close> are members of the state. The
  unordered parts of an execution (which worker runs when, what the kernel reports) are
  arguments: a worker's number, the events of one \<open>epoll_wait\<close>.
\<close>

section \<open>Data\<close>

datatype CommandType = SEND | CLOSE

record ServerCommand =
  cmd_type :: CommandType
  cmd_connID :: u64
  cmd_frame :: "Frame option"

text \<open>
  A handler is user code: what it asks of the \<open>Responder\<close> it is given, in order, and the
  exception it throws in the end, if it does.
\<close>

datatype responder_call =
    Respond Request bytes u8
  | CloseConn u64
  | ServerPush u64 bytes bytes u8

type_synonym handler = "Request \<Rightarrow> responder_call list \<times> exn option"
type_synonym matcher = "Request \<Rightarrow> bool"

text \<open>
  The members of \<open>Server\<close>. \<open>s_cmdEvFd = None\<close> is the value the member has before \<open>listen\<close>: it
  has no initialiser. \<open>s_onErr = None\<close> is the handler of the constructor. \<open>s_connCount\<close> is the
  static counter of \<open>ClientConnection\<close>, \<open>s_wakeups\<close> the counter of the eventfd, \<open>s_fdsClosed\<close>
  the descriptors \<open>stop\<close> has closed. \<open>s_alive\<close> is false once the destructor has destroyed the
  members declared after the pool.
\<close>

record Server =
  s_privKey :: bytes
  s_port :: int
  s_maxConnections :: int
  s_maxFrameSize :: int
  s_routes :: "(bytes \<times> handler) list"
  s_funcRoutes :: "(matcher \<times> handler) list"
  s_socket :: int
  s_epollFd :: int
  s_running :: bool
  s_tpool :: "Request thread_pool"
  s_commandQueue :: "ServerCommand concurrent_queue"
  s_cmdEvFd :: "int option"
  s_wakeups :: nat
  s_hasOnDisconn :: bool
  s_connections :: "(u64 \<times> ClientConnection) list"
  s_fdToId :: "(int \<times> u64) list"
  s_onErr :: "(u8 \<Rightarrow> string \<Rightarrow> bool) option"
  s_connCount :: u64
  s_alive :: bool
  s_fdsClosed :: "int list"
  s_world :: world

type_synonym 'a server = "(Server, fault, 'a) prog"

definition Server_new :: "int \<Rightarrow> bytes \<Rightarrow> nat \<Rightarrow> int \<Rightarrow> int \<Rightarrow> u64 \<Rightarrow> world \<Rightarrow> Server" where
  "Server_new port privKey workerThreads maxConnections maxFrameSize connCount w =
    \<lparr>s_privKey = privKey, s_port = port, s_maxConnections = maxConnections,
     s_maxFrameSize = maxFrameSize, s_routes = [], s_funcRoutes = [], s_socket = -1,
     s_epollFd = -1, s_running = False, s_tpool = ThreadPool workerThreads,
     s_commandQueue = cq_new, s_cmdEvFd = None, s_wakeups = 0, s_hasOnDisconn = False,
     s_connections = [], s_fdToId = [], s_onErr = None, s_connCount = connCount,
     s_alive = True, s_fdsClosed = [], s_world = w\<rparr>"

section \<open>Routes and errors\<close>

definition route :: "bytes \<Rightarrow> handler \<Rightarrow> Server \<Rightarrow> Server" where
  "route pa handler s = s\<lparr>s_routes := AList.update pa handler (s_routes s)\<rparr>"

definition route_func :: "matcher \<Rightarrow> handler \<Rightarrow> Server \<Rightarrow> Server" where
  "route_func matcher handler s = s\<lparr>s_funcRoutes := s_funcRoutes s @ [(matcher, handler)]\<rparr>"

definition setOnError :: "(u8 \<Rightarrow> string \<Rightarrow> bool) \<Rightarrow> Server \<Rightarrow> Server" where
  "setOnError cb s = s\<lparr>s_onErr := Some cb\<rparr>"

definition defaultErrorHandler :: "u8 \<Rightarrow> string \<Rightarrow> unit server" where
  "defaultErrorHandler code message = failP (Throw (FMXPException code message))"

definition onErr :: "u8 \<Rightarrow> string \<Rightarrow> unit server" where
  "onErr code message = (\<lambda>s.
    (case s_onErr s of
       None \<Rightarrow> defaultErrorHandler code message
     | Some cb \<Rightarrow> if \<not> cb code message then defaultErrorHandler code message else retP ()) s)"

section \<open>Commands\<close>

definition push_command :: "ServerCommand \<Rightarrow> Server \<Rightarrow> Server" where
  "push_command cmd s = s\<lparr>s_commandQueue := cq_push cmd (s_commandQueue s)\<rparr>"

text \<open>\<open>write(_cmdEvFd, ...)\<close>: before \<open>listen\<close> it reads a member never written.\<close>

definition wakeEpoll :: "unit server" where
  "wakeEpoll = (\<lambda>s. case s_cmdEvFd s of
     None \<Rightarrow> (Inl Undefined, s)
   | Some fd \<Rightarrow> (Inr (), s\<lparr>s_wakeups := s_wakeups s + 1\<rparr>))"

definition sendResponse :: "Response \<Rightarrow> unit server" where
  "sendResponse resp = (\<lambda>s.
    (case map_of (s_connections s) (rs_connID resp) of
       None \<Rightarrow> retP ()
     | Some c \<Rightarrow>
        seqP (modP (push_command \<lparr>cmd_type = SEND, cmd_connID = rs_connID resp,
                cmd_frame = Some (makeRespFrame c (rs_path resp) (rs_data resp) (rs_status resp) 0
                  (rs_rid resp))\<rparr>))
          wakeEpoll) s)"

definition closeConnection_cmd :: "u64 \<Rightarrow> unit server" where
  "closeConnection_cmd connectionID =
    seqP (modP (push_command \<lparr>cmd_type = CLOSE, cmd_connID = connectionID, cmd_frame = None\<rparr>))
      wakeEpoll"

section \<open>Requests\<close>

text \<open>The three functions of \<open>_responder\<close>, as the constructor sets them.\<close>

fun responder :: "responder_call \<Rightarrow> unit server" where
  "responder (Respond req d st) = sendResponse (Response_to req d st)"
| "responder (CloseConn connID) = closeConnection_cmd connID"
| "responder (ServerPush connID pa d st) = sendResponse (Response_push connID pa d 0 st)"

text \<open>A use of \<open>_responder\<close> after its destruction is undefined.\<close>

definition call_responder :: "responder_call \<Rightarrow> unit server" where
  "call_responder rc = (\<lambda>s. if s_alive s then responder rc s else (Inl Undefined, s))"

fun responder_calls :: "responder_call list \<Rightarrow> unit server" where
  "responder_calls [] = retP ()"
| "responder_calls (rc # rcs) = seqP (call_responder rc) (responder_calls rcs)"

definition run_handler :: "handler \<Rightarrow> Request \<Rightarrow> unit server" where
  "run_handler handler req =
    (case handler req of (rcs, thrown) \<Rightarrow>
      seqP (responder_calls rcs)
        (case thrown of None \<Rightarrow> retP () | Some e \<Rightarrow> failP (Throw e)))"

fun first_match :: "(matcher \<times> handler) list \<Rightarrow> Request \<Rightarrow> handler option" where
  "first_match [] req = None"
| "first_match ((matcher, handler) # rest) req =
    (if matcher req then Some handler else first_match rest req)"

definition router :: "Request \<Rightarrow> unit server" where
  "router req = (\<lambda>s.
    (case map_of (s_routes s) (rq_path req) of
       Some handler \<Rightarrow> run_handler handler req
     | None \<Rightarrow>
        (case first_match (s_funcRoutes s) req of
           Some handler \<Rightarrow> run_handler handler req
         | None \<Rightarrow> call_responder (Respond req [] STATUS_NOT_FOUND))) s)"

definition onRequest :: "Request \<Rightarrow> Server \<Rightarrow> Server" where
  "onRequest req s = s\<lparr>s_tpool := tp_enqueue req (s_tpool s)\<rparr>"

text \<open>
  One turn of worker \<open>i\<close>: the section under the pool's lock and, when it took a task, the task,
  \<open>_router(req)\<close>. An exception leaves the thread function.
\<close>

definition worker_turn :: "nat \<Rightarrow> unit server" where
  "worker_turn i = (\<lambda>s.
    (let s = s\<lparr>s_tpool := worker_check i (s_tpool s)\<rparr> in
     case tp_workers (s_tpool s) ! i of
       Running req \<Rightarrow>
         (case router req s of
            (Inl e, s) \<Rightarrow> (Inl e, s)
          | (Inr _, s) \<Rightarrow> (Inr (), s\<lparr>s_tpool := worker_finish (\<lambda>_. False) i req (s_tpool s)\<rparr>))
     | _ \<Rightarrow> (Inr (), s)))"

section \<open>Connections\<close>

text \<open>
  Running an operation of the connection \<open>c\<close> that is stored under \<open>connId\<close>. The requests it
  delivers go to \<open>_onRequest\<close>, as \<open>_onNewRequest\<close> was set.
\<close>

definition store_conn :: "u64 \<Rightarrow> ClientConnection \<Rightarrow> ClientConnection \<Rightarrow> world \<Rightarrow> Server \<Rightarrow> Server" where
  "store_conn connId c c' w s =
    fold onRequest (drop (length (c_requests c)) (c_requests c'))
      (s\<lparr>s_connections := AList.update connId c' (s_connections s), s_world := w\<rparr>)"

definition on_conn :: "u64 \<Rightarrow> ClientConnection \<Rightarrow> 'a conn \<Rightarrow> 'a server" where
  "on_conn connId c m s =
    (case m (c, s_world s) of (r, (c', w)) \<Rightarrow> (r, store_conn connId c c' w s))"

definition handleCommand :: "host \<Rightarrow> nat \<Rightarrow> ServerCommand \<Rightarrow> unit server" where
  "handleCommand h depth cmd = (\<lambda>s.
    (case map_of (s_connections s) (cmd_connID cmd) of
       None \<Rightarrow> onErr ERR_CONNECTION (to_string (unat (cmd_connID cmd)) @ '': Connection not found'') s
     | Some c \<Rightarrow>
        (case cmd_type cmd of
           SEND \<Rightarrow>
             (case cmd_frame cmd of
                None \<Rightarrow> (Inl (Throw BadOptionalAccess), s)
              | Some frame \<Rightarrow> on_conn (cmd_connID cmd) c (sendFrame h depth frame) s)
         | CLOSE \<Rightarrow> on_conn (cmd_connID cmd) c (closeConnection h depth NATURAL True) s)))"

text \<open>\<open>delete conn; _connections.erase(it)\<close>.\<close>

definition delete_conn :: "host \<Rightarrow> nat \<Rightarrow> u64 \<Rightarrow> ClientConnection \<Rightarrow> unit server" where
  "delete_conn h depth connId c =
    seqP (on_conn connId c (ClientConnection_delete h depth))
      (modP (\<lambda>s. s\<lparr>s_connections := AList.delete connId (s_connections s)\<rparr>))"

definition accept_one :: "int \<Rightarrow> Server \<Rightarrow> Server" where
  "accept_one clientFd s =
    (case ClientConnection_new (s_connCount s) clientFd (word_of_int (s_maxFrameSize s)) (s_privKey s) of
       (c, n) \<Rightarrow>
        (let c = (if s_hasOnDisconn s then setOnClose c else c) in
         s\<lparr>s_connCount := n, s_connections := AList.update (c_connId c) c (s_connections s),
           s_fdToId := AList.update clientFd (c_connId c) (s_fdToId s)\<rparr>))"

section \<open>The epoll loop\<close>

text \<open>
  One event: its descriptor and flags, what the following \<open>accept\<close> calls return before they
  fail, what the following \<open>recv\<close> calls return.
\<close>

record epoll_ev =
  ev_fd :: int
  ev_hup :: bool
  ev_in :: bool
  ev_accepts :: "int list"
  ev_chunks :: "bytes list"
  ev_end :: recv_end

text \<open>Commands are handled until the queue is empty: at most the number queued, as no handler
  pushes.\<close>

definition drain_commands :: "host \<Rightarrow> nat \<Rightarrow> unit server" where
  "drain_commands h depth s =
    (case drain s_commandQueue (\<lambda>q s. s\<lparr>s_commandQueue := q\<rparr>) (handleCommand h depth)
        (length (cq_queue (s_commandQueue s))) s of
       None \<Rightarrow> (Inl Diverges, s)
     | Some r \<Rightarrow> r)"

definition handle_event :: "host \<Rightarrow> nat \<Rightarrow> epoll_ev \<Rightarrow> unit server" where
  "handle_event h depth ev = (\<lambda>s.
    (if Some (ev_fd ev) = s_cmdEvFd s then
       drain_commands h depth (s\<lparr>s_wakeups := 0\<rparr>)
     else if ev_fd ev = s_socket s then
       (Inr (), fold accept_one (ev_accepts ev) s)
     else case map_of (s_fdToId s) (ev_fd ev) of
         None \<Rightarrow> (Inr (), s)
       | Some connId \<Rightarrow>
          (case map_of (s_connections s) connId of
             None \<Rightarrow> (Inr (), s)
           | Some c \<Rightarrow>
              if ev_hup ev then delete_conn h depth connId c s
              else if ev_in ev then
                bindP (on_conn connId c (readFd h depth (ev_chunks ev) (ev_end ev))) (\<lambda>ok s.
                  case map_of (s_connections s) connId of
                    Some c' \<Rightarrow>
                      if \<not> ok \<or> c_state c' = CLOSED then delete_conn h depth connId c' s
                      else (Inr (), s)
                  | None \<Rightarrow> (Inl Undefined, s)) s
              else (Inr (), s))))"

fun handle_events :: "host \<Rightarrow> nat \<Rightarrow> epoll_ev list \<Rightarrow> unit server" where
  "handle_events h depth [] = retP ()"
| "handle_events h depth (ev # evs) = seqP (handle_event h depth ev) (handle_events h depth evs)"

text \<open>
  The loop on the results of its first calls of \<open>epoll_wait\<close>. Before each, \<open>between\<close> is what the
  other threads did meanwhile.
\<close>

fun epollLoop :: "host \<Rightarrow> nat \<Rightarrow> ((Server \<Rightarrow> Server) \<times> epoll_ev list) list \<Rightarrow> unit server" where
  "epollLoop h depth [] = retP ()"
| "epollLoop h depth ((between, evs) # waits) = (\<lambda>s.
    (if \<not> s_running s then retP () else
     seqP (modP between) (seqP (handle_events h depth evs) (epollLoop h depth waits))) s)"

section \<open>Starting and stopping\<close>

text \<open>What the calls of \<open>listen\<close> return, in their order.\<close>

record listen_calls =
  lc_socket :: int
  lc_bind :: int
  lc_listen :: int
  lc_epoll :: int
  lc_eventfd :: int
  lc_addSocket :: int
  lc_addEvent :: int

definition conn_error :: "string \<Rightarrow> fault" where
  "conn_error msg = Throw (throwErr ERR_CONNECTION msg)"

definition listen_setup :: "listen_calls \<Rightarrow> unit server" where
  "listen_setup l =
    seqP (modP (\<lambda>s. s\<lparr>s_socket := lc_socket l\<rparr>))
    (seqP (checkP (\<not> lc_socket l < 0) (conn_error ''socket creation failed''))
    (seqP (checkP (\<not> lc_bind l < 0) (conn_error ''bind failed''))
    (seqP (checkP (\<not> lc_listen l < 0) (conn_error ''listen failed''))
    (seqP (modP (\<lambda>s. s\<lparr>s_epollFd := lc_epoll l\<rparr>))
    (seqP (checkP (\<not> lc_epoll l < 0) (conn_error ''epoll_create failed''))
    (seqP (modP (\<lambda>s. s\<lparr>s_cmdEvFd := Some (lc_eventfd l)\<rparr>))
    (seqP (checkP (lc_eventfd l \<noteq> -1) (conn_error ''eventfd create failed''))
    (seqP (checkP (lc_addSocket l \<noteq> -1) (conn_error ''epoll socket binding failed''))
    (seqP (checkP (lc_addEvent l \<noteq> -1) (conn_error ''epoll eventfd binding failed''))
      (modP (\<lambda>s. s\<lparr>s_running := True\<rparr>)))))))))))"

definition listen :: "host \<Rightarrow> nat \<Rightarrow> listen_calls \<Rightarrow> ((Server \<Rightarrow> Server) \<times> epoll_ev list) list
    \<Rightarrow> unit server" where
  "listen h depth l waits = seqP (listen_setup l) (epollLoop h depth waits)"

text \<open>\<open>for (auto& p : _connections) delete p.second;\<close> in the order of the map's keys.\<close>

fun delete_all :: "host \<Rightarrow> nat \<Rightarrow> (u64 \<times> ClientConnection) list \<Rightarrow> unit server" where
  "delete_all h depth [] = retP ()"
| "delete_all h depth ((connId, c) # cs) =
    seqP (on_conn connId c (ClientConnection_delete h depth)) (delete_all h depth cs)"

definition close_fd :: "int \<Rightarrow> Server \<Rightarrow> Server" where
  "close_fd fd s = (if fd \<noteq> -1 then s\<lparr>s_fdsClosed := s_fdsClosed s @ [fd]\<rparr> else s)"

definition stop :: "host \<Rightarrow> nat \<Rightarrow> unit server" where
  "stop h depth =
    seqP (modP (\<lambda>s. s\<lparr>s_running := False, s_commandQueue := cq_clear (s_commandQueue s)\<rparr>))
    (seqP wakeEpoll
    (seqP (\<lambda>s. delete_all h depth (sort_key fst (s_connections s)) s)
    (seqP (modP (\<lambda>s. s\<lparr>s_connections := [], s_fdToId := []\<rparr>))
      (modP (\<lambda>s. close_fd (s_epollFd s) (close_fd (s_socket s) s))))))"

text \<open>
  The destructor: \<open>stop\<close>, then the members in the reverse order of their declaration, the
  responder before the pool, whose destructor lets the workers run the tasks still queued.
\<close>

fun run_tasks :: "Request list \<Rightarrow> unit server" where
  "run_tasks [] = retP ()"
| "run_tasks (req # reqs) =
    seqP (modP (\<lambda>s. s\<lparr>s_tpool := snd (tp_pop (s_tpool s))\<rparr>)) (seqP (router req) (run_tasks reqs))"

definition Server_delete :: "host \<Rightarrow> nat \<Rightarrow> unit server" where
  "Server_delete h depth =
    seqP (stop h depth)
    (seqP (modP (\<lambda>s. s\<lparr>s_alive := False, s_tpool := tp_destroy (s_tpool s)\<rparr>))
      (\<lambda>s. run_tasks (if tp_workers (s_tpool s) = [] then [] else tp_tasks (s_tpool s)) s))"

end
