(* ===== verification/Server_Laws.thy ===== *)
theory Server_Laws
  imports Server Server_Stream
begin

text \<open>
  Running the operations of \<open>Server\<close>: what an operation on a connection leaves alone, how an
  event, a command and a request change the state, and the invariant that ties descriptors,
  identifiers and connections together in every state the server reaches.
\<close>

section \<open>What an operation on a connection leaves alone\<close>

declare closeConnection.simps(2) [simp del] sendFrame.simps(2) [simp del] deliver.simps(2) [simp del]

text \<open>
  The identifier is fixed, the descriptor is closed at most, and the requests delivered grow by
  requests that carry the identifier.
\<close>

definition same_peer :: "ClientConnection \<Rightarrow> ClientConnection \<Rightarrow> bool" where
  "same_peer c c' \<longleftrightarrow> c_connId c' = c_connId c \<and> (c_fd c' = c_fd c \<or> c_fd c' = -1)
    \<and> (\<exists>rs. c_requests c' = c_requests c @ rs \<and> (\<forall>r \<in> set rs. rq_connID r = c_connId c))"

lemma same_peerI:
  "c_connId c' = c_connId c \<Longrightarrow> c_fd c' = c_fd c \<or> c_fd c' = -1 \<Longrightarrow> c_requests c' = c_requests c
    \<Longrightarrow> same_peer c c'"
  by (simp add: same_peer_def)

lemma same_peer_fields:
  "c_connId c2 = c_connId c \<Longrightarrow> c_fd c2 = c_fd c \<Longrightarrow> c_requests c2 = c_requests c
    \<Longrightarrow> same_peer c2 c' \<longleftrightarrow> same_peer c c'"
  by (simp add: same_peer_def)

lemma same_peer_refl [simp]: "same_peer c c"
  by (simp add: same_peerI)

lemma same_peer_trans: "same_peer c c' \<Longrightarrow> same_peer c' c'' \<Longrightarrow> same_peer c c''"
  unfolding same_peer_def by (elim conjE exE) fastforce

lemma same_peer_closed: "same_peer c c' \<Longrightarrow> same_peer c (close_mark oc r (c'\<lparr>c_fd := -1\<rparr>))"
  "same_peer c (close_mark oc r c)"
  by (simp_all add: same_peer_def)

text \<open>
  What every operation keeps is shown once, for any relation between the states before and after
  that has the following laws: it allows the steps the operations are made of, and composes.
\<close>

type_synonym conn_state = "ClientConnection \<times> world"

definition keeps :: "(conn_state \<Rightarrow> conn_state \<Rightarrow> bool) \<Rightarrow> 'a conn \<Rightarrow> bool" where
  "keeps R m \<longleftrightarrow> (\<forall>s. R s (snd (m s)))"

locale conserved =
  fixes R :: "conn_state \<Rightarrow> conn_state \<Rightarrow> bool"
  assumes trans: "R s t \<Longrightarrow> R t u \<Longrightarrow> R s u"
    and inside: "c_connId c' = c_connId c \<Longrightarrow> c_fd c' = c_fd c \<Longrightarrow> c_requests c' = c_requests c
      \<Longrightarrow> w_out w' = w_out w \<Longrightarrow> R (c, w) (c', w')"
    and sends: "send_all h (c_fd c) bs w = (ok, w') \<Longrightarrow> R (c, w) (c, w')"
    and closes: "R (c, w) (c\<lparr>c_fd := -1\<rparr>, sys_close (c_fd c) w)"
    and requests: "rq_connID r = c_connId c \<Longrightarrow> R (c, w) (c\<lparr>c_requests := c_requests c @ [r]\<rparr>, w)"
begin

lemma keepsI: "(\<And>c w. R (c, w) (snd (m (c, w)))) \<Longrightarrow> keeps R m"
  by (auto simp: keeps_def)

lemma keepsD: "keeps R m \<Longrightarrow> m s = (r, s') \<Longrightarrow> R s s'"
  unfolding keeps_def by (metis snd_conv)

lemma keeps_at: "keeps R m \<Longrightarrow> R s (snd (m s))"
  unfolding keeps_def by (rule spec)

lemma same: "R s s"
  by (cases s) (simp add: inside)

lemma keeps_ret: "keeps R (retP x)"
  and keeps_lift: "keeps R (liftP f)"
  by (simp_all add: keeps_def prog_simps same)

lemma keeps_crypto: "keeps R (conn_crypto m)"
  by (rule keepsI) (auto simp: conn_crypto_def crypto_io_def inside split: prod.split)

lemma keeps_upd:
  "(\<And>c. c_connId (f c) = c_connId c \<and> c_fd (f c) = c_fd c \<and> c_requests (f c) = c_requests c) \<Longrightarrow> keeps R (upd f)"
  by (rule keepsI) (simp add: upd_def modP_def inside)

lemma keeps_send_on_fd: "keeps R (send_on_fd h bs)"
  by (rule keepsI) (auto simp: send_on_fd_def sends split: prod.split)

lemma keeps_bind:
  assumes "keeps R m" "\<And>x. keeps R (f x)"
  shows "keeps R (bindP m f)"
  unfolding keeps_def
proof
  fix s
  obtain q s1 where m: "m s = (q, s1)" by (cases "m s")
  show "R s (snd (bindP m f s))"
    using keepsD [OF assms(1) m] trans [OF _ keeps_at [OF assms(2)]] by (cases q) (simp_all add: bindP_def m)
qed

lemma keeps_seq: "keeps R m \<Longrightarrow> keeps R k \<Longrightarrow> keeps R (seqP m k)"
  by (simp add: seqP_def keeps_bind)

lemma keeps_if: "keeps R m \<Longrightarrow> keeps R k \<Longrightarrow> keeps R (if b then m else k)"
  by simp

lemma keeps_state: "(\<And>c w. keeps R (g c w)) \<Longrightarrow> keeps R (\<lambda>(c, w). g c w (c, w))"
  by (auto simp: keeps_def)

lemma keeps_catch:
  assumes "keeps R m" "keeps R k"
  shows "keeps R (catch_runtime m k)" "keeps R (catch_both m k)"
proof -
  have one: "m s = (q, s1) \<Longrightarrow> R s s1" and two: "m s = (q, s1) \<Longrightarrow> R s (snd (k s1))" for s q s1
    using keepsD [OF assms(1)] trans [OF _ keeps_at [OF assms(2)]] by blast+
  show "keeps R (catch_runtime m k)" "keeps R (catch_both m k)"
    unfolding keeps_def catch_runtime_def catch_both_def
    using one two by (auto split: prod.split sum.split fault.split)
qed

lemmas keeps_intros = keeps_ret keeps_lift keeps_crypto keeps_upd keeps_send_on_fd keeps_bind keeps_seq
  keeps_if keeps_state keeps_catch

lemma keeps_close_send:
  "(\<forall>reason oc. keeps R (closeConnection h d reason oc)) \<and> (\<forall>f. keeps R (sendFrame h d f))"
proof (induction d)
  case 0
  show ?case by (simp add: keeps_def same)
next
  case (Suc d)
  then have IH: "keeps R (closeConnection h d reason oc)" "keeps R (sendFrame h d f)" for reason oc f by blast+
  have shut: "keeps R (modP (\<lambda>(c, w). (c\<lparr>c_fd := -1\<rparr>, sys_close (c_fd c) w)))"
    by (rule keepsI) (simp add: modP_def closes)
  have "keeps R (closeConnection h (Suc d) reason oc)" for reason oc
  proof (rule keepsI)
    fix c :: ClientConnection and w
    let ?farewell = "if reason \<noteq> NATURAL then sendFrame h d (makeRespFrame c [] [] STATUS_OK 0 0) else retP ()"
    let ?mark = "upd (\<lambda>c. let c = c\<lparr>c_state := CLOSED\<rparr> in if oc \<and> c_hasOnClose c
      then c\<lparr>c_closeCalls := c_closeCalls c @ [(sint (ucast (c_connId c) :: 32 word), reason)]\<rparr> else c)"
    have "keeps R (seqP (if c_fd c \<noteq> -1 then seqP ?farewell (modP (\<lambda>(c, w). (c\<lparr>c_fd := -1\<rparr>, sys_close (c_fd c) w)))
        else retP ()) ?mark)"
      by (intro keeps_intros IH shut) (simp add: Let_def)
    then show "R (c, w) (snd (closeConnection h (Suc d) reason oc (c, w)))"
      by (simp add: closeConnection.simps(2) keeps_def same)
  qed
  moreover have "keeps R (sendFrame h (Suc d) f)" for f
  proof (rule keepsI)
    fix c :: ClientConnection and w
    let ?c = "c\<lparr>c_fid := c_fid c + 1\<rparr>"
    let ?m = "catch_runtime
      (bindP (conn_crypto (encodeFrame (h_ssl h) f True (c_aesKey c) (c_fid c + 1))) (\<lambda>encoded.
       bindP (send_on_fd h encoded) (\<lambda>sent_all.
       if sent_all then retP () else closeConnection h d SOCKET_ERROR True)))
      (closeConnection h d ENCRYPTION_ERROR True)"
    have "keeps R ?m" by (intro keeps_intros IH)
    then have "R (?c, w) (snd (sendFrame h (Suc d) f (c, w)))" by (simp add: sendFrame.simps(2) keeps_def)
    then show "R (c, w) (snd (sendFrame h (Suc d) f (c, w)))" by (rule trans [OF inside, rotated -1]) simp_all
  qed
  ultimately show ?case by blast
qed

lemma keeps_close: "keeps R (closeConnection h d reason oc)"
  and keeps_send: "keeps R (sendFrame h d f)"
  using keeps_close_send by blast+

lemma keeps_return: "keeps R (return_closing h d reason fs)" "keeps R (close_return h d reason)"
  unfolding return_closing_def close_return_def by (intro keeps_intros keeps_close)+

lemma keeps_parse_step: "keeps R (parse_step h d fs)"
  unfolding parse_step_def consume_def Let_def by (intro keeps_intros keeps_return) simp_all

lemma keeps_parseFrames: "keeps R (parseFrames h d fs)"
  unfolding keeps_def
proof
  fix s show "R s (snd (parseFrames h d fs s))"
  proof (induction h d fs s rule: parseFrames.induct)
    case (1 h d fs s)
    obtain q s1 where step: "parse_step h d fs s = (q, s1)" by (cases "parse_step h d fs s")
    show ?case
      using 1 [OF step [symmetric]] keepsD [OF keeps_parse_step step] step trans
      by (auto simp: parseFrames_round [of h d fs s] split: sum.splits)
  qed
qed

lemma keeps_deliver: "keeps R (deliver h d fs)"
proof (induction fs)
  case (Cons f fs)
  have new: "keeps R (upd (\<lambda>c. c\<lparr>c_requests := c_requests c @ [Request_of \<lparr>io_frame = f, io_connectionID = c_connId c\<rparr>]\<rparr>))"
    by (rule keepsI) (simp add: upd_def modP_def requests Request_of_def)
  show ?case unfolding deliver.simps(2) validateFrame_def
    by (intro keeps_intros keeps_close new Cons.IH) simp_all
qed (simp add: keeps_ret)

lemma keeps_accept_handshake: "keeps R (accept_handshake h d enc)"
proof -
  have time: "keeps R (time_of_day h)"
    by (rule keepsI) (auto simp: time_of_day_def getTimestamp_def inside)
  show ?thesis unfolding accept_handshake_def setAesKey_def
    by (intro keeps_intros keeps_return keeps_send time) simp_all
qed

lemma keeps_readFd: "keeps R (readFd h d chunks ending)"
proof -
  have "keeps R (append_chunks bs)" for bs
    by (induction bs) (auto intro!: keeps_ret keeps_seq keeps_upd)
  then show ?thesis unfolding readFd_def handle_frames_def
    by (cases ending) (auto intro!: keeps_intros keeps_return keeps_parseFrames keeps_accept_handshake keeps_deliver)
qed

lemma keeps_delete: "keeps R (ClientConnection_delete h d)"
  unfolding ClientConnection_delete_def by (rule keeps_close)

end

text \<open>One such relation is \<open>same_peer\<close>.\<close>

abbreviation peer_kept :: "conn_state \<Rightarrow> conn_state \<Rightarrow> bool" where
  "peer_kept s t \<equiv> same_peer (fst s) (fst t)"

abbreviation keeps_peer :: "'a conn \<Rightarrow> bool" where
  "keeps_peer \<equiv> keeps peer_kept"

interpretation peer: conserved peer_kept
  by unfold_locales (auto simp: same_peerI same_peer_def)

lemma keeps_peerD: "keeps_peer m \<Longrightarrow> m (c, w) = (r, (c', w')) \<Longrightarrow> same_peer c c'"
  using peer.keepsD by fastforce

text \<open>
  Another says where the bytes go: only the connection's own descriptor, which is closed at most,
  is ever written to.
\<close>

definition own_wire :: "conn_state \<Rightarrow> conn_state \<Rightarrow> bool" where
  "own_wire = (\<lambda>(c, w) (c', w'). (c_fd c' = c_fd c \<or> c_fd c' = -1)
    \<and> (\<forall>fd. fd \<noteq> c_fd c \<longrightarrow> fd \<noteq> -1 \<longrightarrow> wire fd w' = wire fd w))"

lemma wire_sys_send_elsewhere: "fd' \<noteq> fd \<Longrightarrow> sys_send h fd bs w = (sent, w') \<Longrightarrow> wire fd' w' = wire fd' w"
  by (auto simp: sys_send_def Let_def wire_def)

lemma send_all_elsewhere: "send_all h fd bs w = (ok, w') \<Longrightarrow> fd' \<noteq> fd \<Longrightarrow> wire fd' w' = wire fd' w"
proof (induction "length bs" arbitrary: bs w rule: less_induct)
  case less
  obtain sent v where v: "sys_send h fd bs w = (sent, v)" by (cases "sys_send h fd bs w")
  then have "wire fd' v = wire fd' w" using wire_sys_send_elsewhere less.prems(2) by blast
  then show ?case using less.prems less.hyps [of "drop (nat sent) bs" v]
    by (auto simp: send_all_step [OF v] split: if_splits)
qed

interpretation wires: conserved own_wire
proof unfold_locales
  fix s t u assume "own_wire s t" "own_wire t u"
  then show "own_wire s u" by (cases s; cases t; cases u) (auto simp: own_wire_def)
qed (auto simp: own_wire_def wire_def sys_close_def dest: send_all_elsewhere [unfolded wire_def])

text \<open>Destroying a connection sends nothing and always returns.\<close>

lemma ClientConnection_delete_run:
  "ClientConnection_delete h (Suc d) (c, w) =
    (if c_state c = CLOSED then (Inr (), (c, w))
     else if c_fd c = -1 then (Inr (), (close_mark True NATURAL c, w))
     else (Inr (), (close_mark True NATURAL (c\<lparr>c_fd := -1\<rparr>), sys_close (c_fd c) w)))"
  by (simp add: ClientConnection_delete_def closeConnection_Suc)

end
