(* ===== verification/Thread_Pool_Laws.thy ===== *)
theory Thread_Pool_Laws
  imports Thread_Pool
begin

text \<open>
  No wake-up is lost, every task starts in the order of \<open>enqueue\<close>, the workers come to rest, and
  the destructor's joins return with every task begun; a task that throws ends the process.
\<close>

section \<open>Invariant\<close>

definition awake :: "'a worker \<Rightarrow> bool" where
  "awake w \<longleftrightarrow> (case w of Ready \<Rightarrow> True | Running t \<Rightarrow> True | _ \<Rightarrow> False)"

definition pool_ok :: "nat \<Rightarrow> 'a thread_pool \<Rightarrow> bool" where
  "pool_ok n p \<longleftrightarrow> length (tp_workers p) = n \<and> tp_started p @ tp_tasks p = tp_enqueued p
    \<and> (tp_stop p \<longrightarrow> tp_notify_all p \<or> Asleep \<notin> set (tp_workers p))
    \<and> (Exited \<in> set (tp_workers p) \<longrightarrow> tp_stop p)
    \<and> (n > 0 \<longrightarrow> tp_tasks p \<noteq> [] \<longrightarrow> (if tp_stop p then (\<exists>w \<in> set (tp_workers p). w \<noteq> Exited)
         else tp_notify p > 0 \<or> (\<exists>w \<in> set (tp_workers p). awake w)))"

lemma awake_simps [simp]: "awake Ready" "awake (Running t)" "\<not> awake Asleep" "\<not> awake Exited"
  by (simp_all add: awake_def)

lemma awake_iff: "awake w \<longleftrightarrow> w \<noteq> Asleep \<and> w \<noteq> Exited"
  by (cases w) simp_all

lemma rouse_facts:
  "rouse w \<noteq> Asleep" "rouse w = Exited \<longleftrightarrow> w = Exited" "awake w \<Longrightarrow> awake (rouse w)"
  by (cases w; simp)+

lemma rouse_images:
  "Exited \<in> rouse ` A \<longleftrightarrow> Exited \<in> A" "Asleep \<notin> rouse ` A"
  "(\<exists>w \<in> A. awake w) \<Longrightarrow> (\<exists>w \<in> A. awake (rouse w))"
proof -
  show "Exited \<in> rouse ` A \<longleftrightarrow> Exited \<in> A" by (metis imageE imageI rouse_facts(2))
  show "Asleep \<notin> rouse ` A" by (metis imageE rouse_facts(1))
  show "(\<exists>w \<in> A. awake w) \<Longrightarrow> (\<exists>w \<in> A. awake (rouse w))" using rouse_facts(3) by blast
qed

lemma pool_step_ok:
  assumes "pool_step throws p p'" "pool_ok n p"
  shows "pool_ok n p'"
  using assms
proof (induction rule: pool_step.induct)
  case (check p i)
  then obtain as bs where "tp_workers p = as @ Ready # bs" "i = length as"
    by (blast elim: list_at_split)
  with check show ?case
    by (cases "tp_tasks p")
      (auto simp: pool_ok_def worker_check_def set_worker_def tp_pop_def)
next
  case (finish p i t)
  then obtain as bs where "tp_workers p = as @ Running t # bs" "i = length as"
    by (blast elim: list_at_split)
  with finish show ?case by (auto simp: pool_ok_def worker_finish_def set_worker_def)
next
  case (notified p k i)
  then obtain as bs where "tp_workers p = as @ Asleep # bs" "i = length as"
    by (blast elim: list_at_split)
  with notified show ?case by (auto simp: pool_ok_def set_worker_def)
next
  case (unheard p k)
  show ?case
  proof (cases "tp_stop p \<or> n = 0 \<or> tp_tasks p = []")
    case True
    with unheard show ?thesis by (auto simp: pool_ok_def)
  next
    case False
    then obtain w where "w \<in> set (tp_workers p)"
      using unheard.prems by (cases "tp_workers p") (auto simp: pool_ok_def)
    moreover from this have "awake w"
      using unheard False by (auto simp: pool_ok_def awake_iff)
    ultimately show ?thesis using unheard False by (auto simp: pool_ok_def)
  qed
next
  case (wake_all p)
  then show ?case using rouse_images [of "set (tp_workers p)"]
    by (simp add: pool_ok_def tp_wake_all_def rouse_facts split: if_splits) blast
qed

lemma pool_reach_ok: "pool_reach throws n p \<Longrightarrow> pool_ok n p"
proof (induction rule: pool_reach.induct)
  case (step p p')
  then show ?case by (blast intro: pool_step_ok)
next
  case (spurious p i)
  then obtain as bs where "tp_workers p = as @ Asleep # bs" "i = length as"
    by (blast elim: list_at_split)
  with spurious show ?case by (auto simp: pool_ok_def set_worker_def)
next
  case (destroy p)
  show ?case
  proof (cases "tp_workers p")
    case (Cons w ws)
    then have "w \<noteq> Exited" using destroy by (auto simp: pool_ok_def)
    with destroy Cons show ?thesis by (auto simp: pool_ok_def tp_destroy_def)
  qed (use destroy in \<open>auto simp: pool_ok_def tp_destroy_def\<close>)
qed (auto simp: pool_ok_def ThreadPool_def tp_enqueue_def tp_push_def)

section \<open>The workers come to rest\<close>

fun worker_load :: "'a worker \<Rightarrow> nat" where
  "worker_load Ready = 1"
| "worker_load (Running t) = 2"
| "worker_load Asleep = 0"
| "worker_load Exited = 0"

text \<open>
  Every step of a worker or a notification makes this smaller, as long as the process lives;
  waking all sleepers costs at most one per worker, paid for by the flag.
\<close>

definition pool_load :: "'a thread_pool \<Rightarrow> nat" where
  "pool_load p = (\<Sum>w\<leftarrow>tp_workers p. worker_load w) + 2 * length (tp_tasks p) + 2 * tp_notify p
    + (if tp_notify_all p then length (tp_workers p) + 1 else 0) + (if tp_terminated p then 0 else 1)"

lemma wake_all_load:
  "(\<Sum>w\<leftarrow>ws. worker_load (rouse w)) \<le> (\<Sum>w\<leftarrow>ws. worker_load w) + length ws"
proof (induction ws)
  case (Cons w ws)
  then show ?case by (cases w) simp_all
qed simp

lemma pool_step_load: "pool_step throws p p' \<Longrightarrow> pool_load p' < pool_load p"
proof (induction rule: pool_step.induct)
  case (check p i)
  then obtain as bs where "tp_workers p = as @ Ready # bs" "i = length as"
    by (blast elim: list_at_split)
  with check show ?case
    by (cases "tp_tasks p") (auto simp: pool_load_def worker_check_def set_worker_def tp_pop_def)
next
  case (finish p i t)
  then obtain as bs where "tp_workers p = as @ Running t # bs" "i = length as"
    by (blast elim: list_at_split)
  with finish show ?case by (auto simp: pool_load_def worker_finish_def set_worker_def)
next
  case (notified p k i)
  then obtain as bs where "tp_workers p = as @ Asleep # bs" "i = length as"
    by (blast elim: list_at_split)
  with notified show ?case by (auto simp: pool_load_def set_worker_def)
next
  case (unheard p k)
  then show ?case by (simp add: pool_load_def)
next
  case (wake_all p)
  then show ?case
    using wake_all_load [of "tp_workers p"] by (simp add: pool_load_def tp_wake_all_def comp_def)
qed

definition at_rest :: "('a \<Rightarrow> bool) \<Rightarrow> 'a thread_pool \<Rightarrow> bool" where
  "at_rest throws p \<longleftrightarrow> (\<nexists>p'. pool_step throws p p')"

lemma at_rest_workers:
  assumes "at_rest throws p" "\<not> tp_terminated p" "w \<in> set (tp_workers p)"
  shows "w = Asleep \<or> w = Exited"
proof -
  obtain i where i: "i < length (tp_workers p)" "tp_workers p ! i = w"
    using assms(3) by (metis in_set_conv_nth)
  show ?thesis
    using assms(1,2) i pool_step.check [of p i throws] pool_step.finish [of p i _ throws]
    by (cases w) (auto simp: at_rest_def)
qed

lemma at_rest_settled:
  assumes "at_rest throws p" "\<not> tp_terminated p"
  shows "tp_notify p = 0" "\<not> tp_notify_all p"
proof -
  show "\<not> tp_notify_all p" using assms pool_step.wake_all by (auto simp: at_rest_def)
  show "tp_notify p = 0"
  proof (cases "tp_notify p")
    case (Suc k)
    show ?thesis
    proof (cases "Asleep \<in> set (tp_workers p)")
      case True
      then obtain i where "i < length (tp_workers p)" "tp_workers p ! i = Asleep"
        by (metis in_set_conv_nth)
      then show ?thesis
        using assms pool_step.notified [OF assms(2) Suc] by (auto simp: at_rest_def)
    next
      case False
      then show ?thesis
        using assms pool_step.unheard [OF assms(2) Suc] by (auto simp: at_rest_def)
    qed
  qed simp
qed

section \<open>Properties\<close>

text \<open>
  C15: in every interleaving of workers, callers of \<open>enqueue\<close>, spurious wake-ups and the destructor, tasks start in
  the order they were enqueued, none twice and none lost; and when nothing more can happen (no
  task having thrown) every enqueued task has started: no wake-up was lost.
\<close>

theorem pool_runs_every_task:
  assumes "pool_reach throws n p" "0 < n"
  shows "tp_started p @ tp_tasks p = tp_enqueued p
    \<and> (at_rest throws p \<longrightarrow> \<not> tp_terminated p \<longrightarrow> tp_started p = tp_enqueued p)"
proof -
  note ok = pool_reach_ok [OF assms(1)]
  have "tp_tasks p = []" if rest: "at_rest throws p" "\<not> tp_terminated p"
    using ok assms(2) at_rest_workers [OF rest] at_rest_settled [OF rest]
    by (cases "tp_tasks p") (fastforce simp: pool_ok_def split: if_splits)+
  then show ?thesis using ok by (auto simp: pool_ok_def)
qed

lemma pool_step_stop: "pool_step throws p p' \<Longrightarrow> tp_stop p' = tp_stop p"
  by (induction rule: pool_step.induct)
    (auto simp: worker_check_def worker_finish_def set_worker_def tp_pop_def tp_wake_all_def split: list.split)

lemma pool_step_enqueued: "pool_step throws p p' \<Longrightarrow> tp_enqueued p' = tp_enqueued p"
  by (induction rule: pool_step.induct)
    (auto simp: worker_check_def worker_finish_def set_worker_def tp_pop_def tp_wake_all_def split: list.split)

lemma pool_steps_ok:
  "(pool_step throws)\<^sup>*\<^sup>* p q \<Longrightarrow> pool_ok n p \<Longrightarrow> pool_ok n q \<and> tp_stop q = tp_stop p"
  by (induction rule: rtranclp_induct) (auto simp: pool_step_stop intro: pool_step_ok)

lemma rest_joined:
  assumes "pool_ok n p" "tp_stop p" "0 < n" "at_rest throws p" "\<not> tp_terminated p"
  shows "tp_joined p \<and> tp_started p = tp_enqueued p"
proof -
  have joined: "tp_joined p"
    using assms(1,2) at_rest_workers [OF assms(4,5)] at_rest_settled [OF assms(4,5)]
    by (auto simp: pool_ok_def tp_joined_def)
  then have "tp_tasks p = []" using assms(1-3) by (auto simp: pool_ok_def tp_joined_def)
  with joined assms(1) show ?thesis by (simp add: pool_ok_def)
qed

lemma comes_to_rest: "\<exists>q. (pool_step throws)\<^sup>*\<^sup>* p q \<and> at_rest throws q"
proof (induction "pool_load p" arbitrary: p rule: less_induct)
  case less
  show ?case
  proof (cases "at_rest throws p")
    case False
    then obtain p' where "pool_step throws p p'" by (auto simp: at_rest_def)
    with less [OF pool_step_load] show ?thesis by (blast intro: converse_rtranclp_into_rtranclp)
  qed blast
qed

text \<open>Only a task that throws terminates the process.\<close>

lemma pool_step_alive:
  "pool_step throws p p' \<Longrightarrow> \<forall>t. \<not> throws t \<Longrightarrow> \<not> tp_terminated p'"
  by (induction rule: pool_step.induct)
    (auto simp: worker_check_def worker_finish_def set_worker_def tp_pop_def tp_wake_all_def split: list.split)

lemma pool_steps_alive:
  "(pool_step throws)\<^sup>*\<^sup>* p q \<Longrightarrow> \<forall>t. \<not> throws t \<Longrightarrow> \<not> tp_terminated p \<Longrightarrow> \<not> tp_terminated q"
  by (induction rule: rtranclp_induct) (auto dest: pool_step_alive)

text \<open>
  C23: the destructor returns, and not before all work is done. From any state after it began, the
  workers and the notifications can only take a finite number of steps (between spurious wake-ups and
  calls of \<open>enqueue\<close> from running tasks), and come to rest; however they got there, unless a task
  has thrown, every worker has then returned, so that the joins return and no task is still running,
  and every task ever enqueued, before the shutdown or during it, has been taken up, in the order
  of \<open>enqueue\<close>. When no task throws, this is how it ends. All this for a pool of at least one worker:
  with none the tasks are dropped (\<open>no_worker_no_work\<close>).
\<close>

theorem pool_destructor_joins:
  assumes "pool_reach throws n p" "tp_stop p" "0 < n"
  shows "wfp (\<lambda>q' q. pool_step throws q q')
    \<and> (\<forall>q. (pool_step throws)\<^sup>*\<^sup>* p q \<longrightarrow> at_rest throws q \<longrightarrow> \<not> tp_terminated q \<longrightarrow>
        tp_joined q \<and> tp_started q = tp_enqueued q)
    \<and> (\<exists>q. (pool_step throws)\<^sup>*\<^sup>* p q \<and> at_rest throws q
        \<and> ((\<forall>t. \<not> throws t) \<longrightarrow> \<not> tp_terminated p \<longrightarrow> \<not> tp_terminated q))"
proof (intro conjI)
  show "wfp (\<lambda>q' q. pool_step throws q q')"
    by (rule wfp_if_convertible_to_nat [where f = pool_load]) (rule pool_step_load)
  show "\<forall>q. (pool_step throws)\<^sup>*\<^sup>* p q \<longrightarrow> at_rest throws q \<longrightarrow> \<not> tp_terminated q \<longrightarrow>
      tp_joined q \<and> tp_started q = tp_enqueued q"
    using pool_steps_ok [OF _ pool_reach_ok [OF assms(1)]] assms(2,3) rest_joined by blast
  show "\<exists>q. (pool_step throws)\<^sup>*\<^sup>* p q \<and> at_rest throws q
      \<and> ((\<forall>t. \<not> throws t) \<longrightarrow> \<not> tp_terminated p \<longrightarrow> \<not> tp_terminated q)"
    using comes_to_rest [of throws p] pool_steps_alive by blast
qed

text \<open>
  A pool constructed with no worker takes tasks and runs none: its destructor joins nothing and
  drops them.
\<close>

lemma no_worker_no_work:
  assumes "pool_reach throws 0 p"
  shows "tp_joined p \<and> tp_started p = []"
  using assms
proof (induction rule: pool_reach.induct)
  case (step p p')
  then have "tp_workers p = []" using pool_reach_ok [OF step(1)] by (simp add: pool_ok_def)
  with step(2) have "tp_workers p' = [] \<and> tp_started p' = tp_started p"
    by (induction rule: pool_step.induct) (simp_all add: tp_wake_all_def)
  with step.IH show ?case by (simp add: tp_joined_def)
next
  case (spurious p i)
  then show ?case using nth_mem [of i "tp_workers p"] by (auto simp: tp_joined_def)
qed (simp_all add: ThreadPool_def tp_joined_def tp_enqueue_def tp_push_def tp_destroy_def set_worker_def)

text \<open>
  A handler that throws takes the whole server down: from any state in which a worker runs
  a task that throws, one step leads to termination, after which no worker takes a step.
\<close>

lemma throwing_task_terminates:
  assumes "\<not> tp_terminated p" "i < length (tp_workers p)" "tp_workers p ! i = Running t" "throws t"
  shows "\<exists>p'. pool_step throws p p' \<and> tp_terminated p' \<and> at_rest throws p'"
proof (intro exI conjI)
  show "pool_step throws p (worker_finish throws i t p)"
    using assms by (intro pool_step.finish)
  show "tp_terminated (worker_finish throws i t p)"
    using assms(4) by (simp add: worker_finish_def)
  then show "at_rest throws (worker_finish throws i t p)"
    by (auto simp: at_rest_def elim: pool_step.cases)
qed

section \<open>A pool at work\<close>

text \<open>One worker, one task, begun, done, and the pool destroyed.\<close>

definition busy_pool :: "nat thread_pool" where
  "busy_pool = worker_check 0 (tp_enqueue 7 (ThreadPool 1))"

lemma busy_pool_eval: "busy_pool =
  \<lparr>tp_workers = [Running 7], tp_tasks = [], tp_stop = False, tp_notify = 1,
   tp_notify_all = False, tp_terminated = False, tp_enqueued = [7], tp_started = [7]\<rparr>"
  by (simp add: busy_pool_def worker_check_def tp_enqueue_def tp_push_def ThreadPool_def tp_pop_def
      set_worker_def)

lemma busy_pool_reach: "pool_reach throws 1 busy_pool"
  unfolding busy_pool_def
  by (intro pool_reach.step [OF pool_reach.enqueue [OF pool_reach.init] pool_step.check])
    (simp_all add: ThreadPool_def tp_enqueue_def tp_push_def)

definition stopped_pool :: "nat thread_pool" where
  "stopped_pool = tp_destroy (tp_enqueue 8 busy_pool)"

lemma stopped_pool_reach: "pool_reach throws 1 stopped_pool"
  unfolding stopped_pool_def
  by (rule pool_reach.destroy [OF pool_reach.enqueue [OF busy_pool_reach]])
    (simp_all add: busy_pool_eval tp_enqueue_def tp_push_def)

theorem pool_runs_every_task_witness:
  "tp_started busy_pool @ tp_tasks busy_pool = tp_enqueued busy_pool \<and> tp_enqueued busy_pool = [7]"
  using pool_runs_every_task [OF busy_pool_reach] by (simp add: busy_pool_eval)

text \<open>A task is running and another one waits when the destructor begins: both are done when it ends.\<close>

theorem pool_destructor_joins_witness:
  "\<exists>q. (pool_step (\<lambda>t. False))\<^sup>*\<^sup>* stopped_pool q \<and> tp_joined q \<and> tp_started q = [7, 8]"
proof -
  note end_of = pool_destructor_joins [OF stopped_pool_reach, of "\<lambda>t. False"]
  have "tp_stop stopped_pool" "\<not> tp_terminated stopped_pool"
    by (simp_all add: stopped_pool_def tp_destroy_def busy_pool_eval tp_enqueue_def tp_push_def)
  then obtain q where q: "(pool_step (\<lambda>t. False))\<^sup>*\<^sup>* stopped_pool q" "at_rest (\<lambda>t. False) q" "\<not> tp_terminated q"
    and "tp_joined q" "tp_started q = tp_enqueued q"
    using end_of by auto
  moreover have "tp_enqueued q = tp_enqueued stopped_pool" using q(1)
    by (induction rule: rtranclp_induct) (auto dest: pool_step_enqueued)
  moreover have "tp_enqueued stopped_pool = [7, 8]"
    by (simp add: stopped_pool_def tp_destroy_def busy_pool_eval tp_enqueue_def tp_push_def)
  ultimately show ?thesis by auto
qed

end
