(* ===== verification/Server_Events.thy ===== *)
theory Server_Events
  imports Server_Laws Thread_Pool_Laws
begin

text \<open>
  The invariant of \<open>Server\<close>: every connection is stored under its identifier, every open
  descriptor leads back to its connection, and the requests each connection delivered are in
  the pool, once each and in order. It holds in every state that events, workers, and callers of
  the public functions reach.
\<close>

section \<open>Running the operations\<close>

lemma fold_onRequest:
  "fold onRequest rs s = s\<lparr>s_tpool := fold tp_enqueue rs (s_tpool s)\<rparr>"
  by (induction rs arbitrary: s) (simp_all add: onRequest_def)

lemma store_conn_eq:
  "store_conn k c c' w s = s\<lparr>s_connections := AList.update k c' (s_connections s), s_world := w,
     s_tpool := fold tp_enqueue (drop (length (c_requests c)) (c_requests c')) (s_tpool s)\<rparr>"
  by (simp add: store_conn_def fold_onRequest)

lemma on_conn_run:
  assumes "on_conn k c m s = (r, s')"
  obtains c' w where "m (c, s_world s) = (r, (c', w))" "s' = store_conn k c c' w s"
  using assms by (auto simp: on_conn_def split: prod.splits)

lemma onErr_state: "snd (onErr code msg s) = s"
  by (simp add: onErr_def defaultErrorHandler_def retP_def failP_def split: option.split)

lemma handleCommand_queue: "s_commandQueue (snd (handleCommand h d cmd s)) = s_commandQueue s"
  by (auto simp: handleCommand_def onErr_state on_conn_def store_conn_eq
      split: option.split CommandType.split prod.split)

text \<open>Emptying the queue always ends, with the commands queued handled first to last.\<close>

abbreviation set_queue :: "ServerCommand concurrent_queue \<Rightarrow> Server \<Rightarrow> Server" where
  "set_queue q s \<equiv> s\<lparr>s_commandQueue := q\<rparr>"

lemma drain_commands_all:
  "drain_commands h d s =
    handle_all (handleCommand h d) (dequeue s_commandQueue set_queue) (cq_queue (s_commandQueue s)) s"
proof -
  have "drain s_commandQueue set_queue (handleCommand h d) (length (cq_queue (s_commandQueue s))) s
      = Some (handle_all (handleCommand h d) (dequeue s_commandQueue set_queue)
          (cq_queue (s_commandQueue s)) s)"
    by (rule drain_is_handle_all) (simp_all add: handleCommand_queue)
  then show ?thesis by (simp add: drain_commands_def)
qed

section \<open>The invariant\<close>

definition server_ok :: "Server \<Rightarrow> bool" where
  "server_ok s \<longleftrightarrow> (\<forall>k c. map_of (s_connections s) k = Some c \<longrightarrow>
      c_connId c = k \<and> k \<le> s_connCount s \<and> (c_fd c \<noteq> -1 \<longrightarrow> map_of (s_fdToId s) (c_fd c) = Some k)
      \<and> c_requests c = filter (\<lambda>r. rq_connID r = k) (tp_enqueued (s_tpool s)))
    \<and> (\<forall>r \<in> set (tp_enqueued (s_tpool s)). rq_connID r \<le> s_connCount s)"

lemma server_okD:
  assumes "server_ok s" "map_of (s_connections s) k = Some c"
  shows "c_connId c = k" "k \<le> s_connCount s" "c_fd c \<noteq> -1 \<Longrightarrow> map_of (s_fdToId s) (c_fd c) = Some k"
    "c_requests c = filter (\<lambda>r. rq_connID r = k) (tp_enqueued (s_tpool s))"
  using assms by (auto simp: server_ok_def)

text \<open>It reads only these members.\<close>

lemma server_ok_cong:
  "s_connections s' = s_connections s \<Longrightarrow> s_fdToId s' = s_fdToId s \<Longrightarrow> s_connCount s' = s_connCount s
    \<Longrightarrow> tp_enqueued (s_tpool s') = tp_enqueued (s_tpool s) \<Longrightarrow> server_ok s' \<longleftrightarrow> server_ok s"
  by (simp add: server_ok_def)

lemma enqueued_fold: "tp_enqueued (fold tp_enqueue rs p) = tp_enqueued p @ rs"
  by (induction rs arbitrary: p) (simp_all add: tp_enqueue_def tp_push_def Let_def)

lemma store_ok:
  assumes ok: "server_ok s" and c: "map_of (s_connections s) k = Some c" and peer: "same_peer c c'"
  shows "server_ok (store_conn k c c' w s)"
proof -
  obtain rs where rs: "c_requests c' = c_requests c @ rs" "\<forall>r \<in> set rs. rq_connID r = k"
    using peer server_okD(1) [OF ok c] by (auto simp: same_peer_def)
  have others: "k' \<noteq> k \<Longrightarrow> filter (\<lambda>r. rq_connID r = k') rs = []" for k'
    using rs(2) by (auto simp: filter_empty_conv)
  have mine: "filter (\<lambda>r. rq_connID r = k) rs = rs" using rs(2) by simp
  show ?thesis
    using ok c peer rs mine others server_okD [OF ok c]
    by (auto simp: server_ok_def store_conn_eq enqueued_fold update_conv' same_peer_def)
qed

lemma erase_ok:
  "server_ok s \<Longrightarrow> server_ok (s\<lparr>s_connections := AList.delete k (s_connections s)\<rparr>)"
  by (auto simp: server_ok_def delete_conv' split: if_splits)

lemma on_conn_ok:
  assumes "keeps_peer m" "on_conn k c m s = (r, s')"
    and "server_ok s" "map_of (s_connections s) k = Some c"
  shows "server_ok s'" "\<exists>c'. map_of (s_connections s') k = Some c'"
proof -
  obtain c' w where m: "m (c, s_world s) = (r, (c', w))" "s' = store_conn k c c' w s"
    using on_conn_run [OF assms(2)] .
  then have "same_peer c c'" using keeps_peerD [OF assms(1)] by blast
  then show "server_ok s'" using m(2) store_ok assms(3,4) by blast
  show "\<exists>c'. map_of (s_connections s') k = Some c'" using m(2) by (simp add: store_conn_eq update_conv')
qed

lemma delete_conn_ok:
  assumes "delete_conn h d k c s = (r, s')" "server_ok s" "map_of (s_connections s) k = Some c"
  shows "server_ok s'"
proof -
  obtain q s1 where run: "on_conn k c (ClientConnection_delete h d) s = (q, s1)"
    by (cases "on_conn k c (ClientConnection_delete h d) s")
  then have "server_ok s1" using on_conn_ok(1) [OF peer.keeps_delete] assms(2,3) by blast
  then show ?thesis using assms(1) run erase_ok
    by (auto simp: delete_conn_def bindP_def prog_simps split: sum.splits)
qed

lemma handleCommand_ok:
  assumes "server_ok s" "handleCommand h d cmd s = (r, s')"
  shows "server_ok s'"
proof (cases "map_of (s_connections s) (cmd_connID cmd)")
  case None
  then show ?thesis using assms onErr_state by (auto simp: handleCommand_def dest: arg_cong [where f = snd])
next
  case (Some c)
  show ?thesis
  proof (cases "cmd_type cmd")
    case SEND
    with assms Some show ?thesis
      using on_conn_ok(1) [OF peer.keeps_send] by (auto simp: handleCommand_def split: option.splits)
  next
    case CLOSE
    with assms Some show ?thesis
      using on_conn_ok(1) [OF peer.keeps_close] by (auto simp: handleCommand_def)
  qed
qed

lemma handle_all_ok:
  "handle_all (handleCommand h d) (dequeue s_commandQueue set_queue) cmds s = (r, s') \<Longrightarrow>
    server_ok s \<Longrightarrow> server_ok s'"
proof (induction cmds arbitrary: s)
  case (Cons cmd cmds)
  let ?s = "dequeue s_commandQueue set_queue cmd s"
  obtain q s1 where one: "handleCommand h d cmd ?s = (q, s1)" by (cases "handleCommand h d cmd ?s")
  have "server_ok ?s" using Cons.prems(2) by (simp add: dequeue_def server_ok_def)
  then have "server_ok s1" using one handleCommand_ok by blast
  then show ?case using Cons one by (auto split: sum.splits)
qed simp

section \<open>Accepting\<close>

text \<open>
  What the kernel promises of the descriptors \<open>accept\<close> returns: none is in use. And the 64-bit
  counter of connections does not wrap.
\<close>

definition fresh_fds :: "int list \<Rightarrow> Server \<Rightarrow> bool" where
  "fresh_fds fds s \<longleftrightarrow> distinct fds \<and> (\<forall>fd \<in> set fds. fd \<noteq> -1 \<and>
      (\<forall>k c. map_of (s_connections s) k = Some c \<longrightarrow> c_fd c \<noteq> fd))
    \<and> unat (s_connCount s) + length fds < 2 ^ 64"

lemma accept_one_fields:
  "s_connections (accept_one fd s) = AList.update (s_connCount s + 1)
     (let c = fst (ClientConnection_new (s_connCount s) fd (word_of_int (s_maxFrameSize s)) (s_privKey s))
      in if s_hasOnDisconn s then setOnClose c else c) (s_connections s)"
  "s_fdToId (accept_one fd s) = AList.update fd (s_connCount s + 1) (s_fdToId s)"
  "s_connCount (accept_one fd s) = s_connCount s + 1"
  "s_tpool (accept_one fd s) = s_tpool s"
  by (simp_all add: accept_one_def ClientConnection_new_def setOnClose_def Let_def)

lemma accept_one_ok:
  assumes "server_ok s" "fresh_fds (fd # fds) s"
  shows "server_ok (accept_one fd s)" "fresh_fds fds (accept_one fd s)"
proof -
  let ?n = "s_connCount s + 1"
  have n: "unat ?n = unat (s_connCount s) + 1"
    using assms(2) by (simp add: fresh_fds_def unat_word_ariths)
  then have new: "k \<le> s_connCount s \<Longrightarrow> k \<le> ?n \<and> k \<noteq> ?n" for k
    by (auto simp: word_le_nat_alt)
  then have none: "filter (\<lambda>r. rq_connID r = ?n) (tp_enqueued (s_tpool s)) = []"
    using assms(1) by (auto simp: server_ok_def filter_empty_conv)
  show "server_ok (accept_one fd s)"
    using assms new none
    by (auto simp: server_ok_def accept_one_fields update_conv' fresh_fds_def
        ClientConnection_new_def setOnClose_def Let_def split: if_splits)
  show "fresh_fds fds (accept_one fd s)"
    using assms(2) n
    by (auto simp: fresh_fds_def accept_one_fields update_conv' ClientConnection_new_def
        setOnClose_def Let_def split: if_splits)
qed

lemma accept_all_ok:
  "server_ok s \<Longrightarrow> fresh_fds fds s \<Longrightarrow> server_ok (fold accept_one fds s)"
  by (induction fds arbitrary: s) (auto simp: accept_one_ok)

section \<open>An event\<close>

lemma handle_event_ok:
  assumes "server_ok s" "ev_fd ev = s_socket s \<longrightarrow> fresh_fds (ev_accepts ev) s"
    and run: "handle_event h d ev s = (r, s')"
  shows "server_ok s'"
proof -
  consider (cmds) "Some (ev_fd ev) = s_cmdEvFd s"
    | (accept) "Some (ev_fd ev) \<noteq> s_cmdEvFd s" "ev_fd ev = s_socket s"
    | (nothing) "s' = s"
    | (conn) k c where "Some (ev_fd ev) \<noteq> s_cmdEvFd s" "ev_fd ev \<noteq> s_socket s"
        "map_of (s_fdToId s) (ev_fd ev) = Some k" "map_of (s_connections s) k = Some c"
    using run by (fastforce simp: handle_event_def split: if_splits option.splits)
  then show ?thesis
  proof cases
    case cmds
    then have "drain_commands h d (s\<lparr>s_wakeups := 0\<rparr>) = (r, s')"
      using run by (simp add: handle_event_def)
    moreover have "server_ok (s\<lparr>s_wakeups := 0\<rparr>)" using assms(1) by (simp add: server_ok_def)
    ultimately show ?thesis unfolding drain_commands_all using handle_all_ok by blast
  next
    case accept
    then show ?thesis using assms accept_all_ok by (auto simp: handle_event_def)
  next
    case conn
    show ?thesis
    proof (cases "ev_hup ev \<or> \<not> ev_in ev")
      case True
      then show ?thesis using run conn assms(1) delete_conn_ok
        by (auto simp: handle_event_def split: if_splits)
    next
      case False
      obtain q s1 where rd: "on_conn k c (readFd h d (ev_chunks ev) (ev_end ev)) s = (q, s1)"
        by (cases "on_conn k c (readFd h d (ev_chunks ev) (ev_end ev)) s")
      note after = on_conn_ok [OF peer.keeps_readFd rd assms(1) conn(4)]
      then show ?thesis using run conn False rd delete_conn_ok
        by (auto simp: handle_event_def bindP_def split: if_splits sum.splits option.splits)
    qed
  qed (use assms in simp)
qed

end
