(* ===== verification/Server_Reach.thy ===== *)
theory Server_Reach
  imports Server_Events
begin

text \<open>
  The states a \<open>Server\<close> reaches between its constructor and its destructor, under any
  interleaving of epoll events, turns of the workers and calls of the public functions, and the
  invariant in all of them.
\<close>

section \<open>What the workers change\<close>

text \<open>Requests and the public functions touch only the command queue and the eventfd.\<close>

definition queues_only :: "Server \<Rightarrow> Server \<Rightarrow> bool" where
  "queues_only s s' \<longleftrightarrow> (\<exists>q n. s' = s\<lparr>s_commandQueue := q, s_wakeups := n\<rparr>)"

lemma queues_only_refl [simp]: "queues_only s s"
  unfolding queues_only_def by (rule exI [of _ "s_commandQueue s"], rule exI [of _ "s_wakeups s"]) simp

lemma queues_only_trans: "queues_only s s' \<Longrightarrow> queues_only s' s'' \<Longrightarrow> queues_only s s''"
  unfolding queues_only_def by (elim exE, simp, intro exI, rule refl)

lemma queues_only_fields:
  assumes "queues_only s s'"
  shows "s_connections s' = s_connections s" "s_fdToId s' = s_fdToId s" "s_connCount s' = s_connCount s"
    "s_tpool s' = s_tpool s" "s_world s' = s_world s" "s_alive s' = s_alive s"
    "s_running s' = s_running s" "s_cmdEvFd s' = s_cmdEvFd s" "s_socket s' = s_socket s"
  using assms by (auto simp: queues_only_def)

lemma wakeEpoll_queues: "queues_only s (snd (wakeEpoll s))"
proof (cases "s_cmdEvFd s")
  case None
  then show ?thesis by (simp add: wakeEpoll_def)
next
  case (Some fd)
  then show ?thesis unfolding queues_only_def wakeEpoll_def
    by (intro exI [of _ "s_commandQueue s"] exI [of _ "Suc (s_wakeups s)"]) simp
qed

lemma push_wake_queues: "queues_only s (snd (seqP (modP (push_command cmd)) wakeEpoll s))"
  using wakeEpoll_queues [of "push_command cmd s"]
  by (auto simp: queues_only_def push_command_def bindP_def prog_simps)

lemma sendResponse_queues: "queues_only s (snd (sendResponse resp s))"
  using push_wake_queues by (auto simp: sendResponse_def retP_def split: option.split)

lemma closeConnection_queues: "queues_only s (snd (closeConnection_cmd k s))"
  using push_wake_queues by (auto simp: closeConnection_cmd_def)

lemma responder_queues: "queues_only s (snd (call_responder rc s))"
  using sendResponse_queues closeConnection_queues by (cases rc) (auto simp: call_responder_def)

lemma responder_calls_queues: "queues_only s (snd (responder_calls rcs s))"
proof (induction rcs arbitrary: s)
  case (Cons rc rcs)
  then show ?case
    using responder_queues [of s rc] queues_only_trans
    by (cases "call_responder rc s") (auto simp: bindP_def prog_simps split: sum.split)
qed (simp add: retP_def)

lemma run_handler_queues: "queues_only s (snd (run_handler handler req s))"
proof -
  obtain rcs thrown where hd: "handler req = (rcs, thrown)" by (cases "handler req")
  obtain q s1 where "responder_calls rcs s = (q, s1)" by (cases "responder_calls rcs s")
  then show ?thesis using responder_calls_queues [of s rcs] hd
    by (auto simp: run_handler_def bindP_def prog_simps split: sum.split option.split)
qed

lemma router_queues: "queues_only s (snd (router req s))"
  using run_handler_queues responder_queues by (simp add: router_def split: option.split)

section \<open>A worker's turn is a step of the pool\<close>

abbreviation never :: "Request \<Rightarrow> bool" where
  "never \<equiv> \<lambda>_. False"

lemma pool_alive: "pool_reach never n p \<Longrightarrow> \<not> tp_terminated p"
proof (induction rule: pool_reach.induct)
  case (step p p')
  from step.hyps(2) step.IH show ?case
    by (cases rule: pool_step.cases)
      (auto simp: worker_check_def worker_finish_def set_worker_def tp_pop_def tp_wake_all_def
        split: list.splits)
qed (simp_all add: ThreadPool_def tp_enqueue_def tp_push_def tp_destroy_def set_worker_def Let_def)

lemma worker_check_enqueued: "tp_enqueued (worker_check i p) = tp_enqueued p"
  "length (tp_workers (worker_check i p)) = length (tp_workers p)"
  "tp_stop (worker_check i p) = tp_stop p"
  by (auto simp: worker_check_def set_worker_def tp_pop_def split: list.splits)

section \<open>The pool under the epoll thread\<close>

text \<open>The epoll thread changes the pool by \<open>enqueue\<close> only.\<close>

definition enqueues_only :: "Server \<Rightarrow> Server \<Rightarrow> bool" where
  "enqueues_only s s' \<longleftrightarrow> (\<exists>rs. s_tpool s' = fold tp_enqueue rs (s_tpool s))"

lemma enqueues_only_refl [simp]: "s_tpool s' = s_tpool s \<Longrightarrow> enqueues_only s s'"
  unfolding enqueues_only_def by (rule exI [of _ "[]"]) simp

lemma enqueues_only_trans: "enqueues_only s s' \<Longrightarrow> enqueues_only s' s'' \<Longrightarrow> enqueues_only s s''"
  unfolding enqueues_only_def by (metis comp_apply fold_append)

lemma on_conn_enqueues: "on_conn k c m s = (r, s') \<Longrightarrow> enqueues_only s s'"
  by (auto simp: on_conn_def store_conn_eq enqueues_only_def split: prod.splits)

lemma delete_conn_enqueues: "delete_conn h d k c s = (r, s') \<Longrightarrow> enqueues_only s s'"
  using on_conn_enqueues [of k c "ClientConnection_delete h d" s]
  by (cases "on_conn k c (ClientConnection_delete h d) s")
    (auto simp: delete_conn_def bindP_def prog_simps enqueues_only_def split: sum.splits)

lemma handleCommand_enqueues: "enqueues_only s (snd (handleCommand h d cmd s))"
  using on_conn_enqueues [of "cmd_connID cmd" _ _ s]
  by (fastforce simp: handleCommand_def onErr_state split: option.split CommandType.split
      intro: on_conn_enqueues prod.collapse [symmetric])

lemma handle_all_enqueues:
  "enqueues_only s (snd (handle_all (handleCommand h d) (dequeue s_commandQueue set_queue) cmds s))"
proof (induction cmds arbitrary: s)
  case (Cons cmd cmds)
  let ?s = "dequeue s_commandQueue set_queue cmd s"
  have "enqueues_only s ?s" by (simp add: dequeue_def)
  moreover have "enqueues_only ?s (snd (handleCommand h d cmd ?s))" by (rule handleCommand_enqueues)
  ultimately show ?case using Cons.IH enqueues_only_trans
    by (cases "handleCommand h d cmd ?s") (fastforce split: sum.split)
qed simp

lemma accepts_keep_pool: "s_tpool (fold accept_one fds s) = s_tpool s"
  by (induction fds arbitrary: s) (simp_all add: accept_one_fields)

lemma handle_event_enqueues: "handle_event h d ev s = (r, s') \<Longrightarrow> enqueues_only s s'"
proof -
  assume run: "handle_event h d ev s = (r, s')"
  have cmds: "enqueues_only s (snd (drain_commands h d (s\<lparr>s_wakeups := n\<rparr>)))" for n
    using handle_all_enqueues [of "s\<lparr>s_wakeups := n\<rparr>"] by (simp add: drain_commands_all enqueues_only_def)
  consider (cmds) "Some (ev_fd ev) = s_cmdEvFd s"
    | (accept) "Some (ev_fd ev) \<noteq> s_cmdEvFd s" "ev_fd ev = s_socket s"
    | (nothing) "s' = s"
    | (conn) k c where "Some (ev_fd ev) \<noteq> s_cmdEvFd s" "ev_fd ev \<noteq> s_socket s"
        "map_of (s_fdToId s) (ev_fd ev) = Some k" "map_of (s_connections s) k = Some c"
    using run by (fastforce simp: handle_event_def split: if_splits option.splits)
  then show ?thesis
  proof cases
    case cmds
    then show ?thesis using run \<open>\<And>n. enqueues_only s (snd (drain_commands h d (s\<lparr>s_wakeups := n\<rparr>)))\<close> [of 0]
      by (simp add: handle_event_def)
  next
    case accept
    then show ?thesis using run by (auto simp: handle_event_def accepts_keep_pool)
  next
    case (conn k c)
    show ?thesis
    proof (cases "ev_hup ev \<or> \<not> ev_in ev")
      case True
      then show ?thesis using run conn delete_conn_enqueues
        by (auto simp: handle_event_def split: if_splits)
    next
      case False
      obtain q s1 where rd: "on_conn k c (readFd h d (ev_chunks ev) (ev_end ev)) s = (q, s1)"
        by (cases "on_conn k c (readFd h d (ev_chunks ev) (ev_end ev)) s")
      have "s' = s1 \<or> (\<exists>c'. delete_conn h d k c' s1 = (r, s'))"
        using run conn False rd
        by (auto simp: handle_event_def bindP_def split: if_splits sum.splits option.splits)
      then show ?thesis
        using on_conn_enqueues [OF rd] delete_conn_enqueues enqueues_only_trans by blast
    qed
  qed simp
qed

lemma enqueues_pool:
  assumes "enqueues_only s s'" "pool_reach never n (s_tpool s)" "\<not> tp_stop (s_tpool s)"
  shows "pool_reach never n (s_tpool s')" "\<not> tp_stop (s_tpool s')"
proof -
  have live: "tp_stop (tp_enqueue r p) = tp_stop p" for r p
    by (simp add: tp_enqueue_def tp_push_def Let_def)
  have "pool_reach never n p \<Longrightarrow> \<not> tp_stop p \<Longrightarrow>
      pool_reach never n (fold tp_enqueue rs p) \<and> \<not> tp_stop (fold tp_enqueue rs p)" for rs p
    by (induction rs arbitrary: p) (simp_all add: live pool_reach.enqueue)
  then show "pool_reach never n (s_tpool s')" "\<not> tp_stop (s_tpool s')"
    using assms by (auto simp: enqueues_only_def)
qed

section \<open>Stopping\<close>

lemma delete_keeps_pool:
  assumes "on_conn k c (ClientConnection_delete h d) s = (Inr u, s')"
  shows "s_tpool s' = s_tpool s" "s_connCount s' = s_connCount s"
proof -
  obtain c' w where del: "ClientConnection_delete h d (c, s_world s) = (Inr u, (c', w))"
    and s': "s' = store_conn k c c' w s" using on_conn_run [OF assms] .
  have "c_requests c' = c_requests c"
    using closes_same [of h d NATURAL True c "s_world s" u c' w] del
    by (simp add: ClientConnection_delete_def same_session_def)
  then show "s_tpool s' = s_tpool s" "s_connCount s' = s_connCount s"
    by (simp_all add: s' store_conn_eq)
qed

lemma delete_all_keeps_pool:
  "delete_all h d cs s = (Inr u, s') \<Longrightarrow> s_tpool s' = s_tpool s \<and> s_connCount s' = s_connCount s"
proof (induction cs arbitrary: s)
  case (Cons kc cs)
  obtain k c where kc: "kc = (k, c)" by (cases kc)
  obtain q s1 where one: "on_conn k c (ClientConnection_delete h d) s = (q, s1)"
    by (cases "on_conn k c (ClientConnection_delete h d) s")
  show ?case
  proof (cases q)
    case (Inr v)
    then show ?thesis
      using Cons one kc delete_keeps_pool [of k c h d s v s1] by (simp add: bindP_def seqP_def)
  qed (use Cons.prems one kc in \<open>simp add: bindP_def seqP_def\<close>)
qed (simp add: retP_def)

lemma close_fd_fields:
  "s_connections (close_fd fd s) = s_connections s" "s_tpool (close_fd fd s) = s_tpool s"
  "s_connCount (close_fd fd s) = s_connCount s" "s_fdToId (close_fd fd s) = s_fdToId s"
  "s_socket (close_fd fd s) = s_socket s" "s_epollFd (close_fd fd s) = s_epollFd s"
  by (simp_all add: close_fd_def)

lemma stop_empties:
  assumes "stop h d s = (Inr u, s')"
  shows "s_connections s' = []" "s_tpool s' = s_tpool s" "s_connCount s' = s_connCount s"
proof -
  let ?s = "s\<lparr>s_running := False, s_commandQueue := cq_clear (s_commandQueue s)\<rparr>"
  obtain q s1 where wake: "wakeEpoll ?s = (q, s1)" by (cases "wakeEpoll ?s")
  then have only: "queues_only ?s s1" using wakeEpoll_queues [of ?s] by simp
  obtain q2 s2 where del: "delete_all h d (sort_key fst (s_connections s1)) s1 = (q2, s2)"
    by (cases "delete_all h d (sort_key fst (s_connections s1)) s1")
  have q: "q \<noteq> Inl e" "q2 \<noteq> Inl e" for e
    using assms wake del by (auto simp: stop_def bindP_def prog_simps split: sum.splits)
  then obtain v v2 where "q = Inr v" "q2 = Inr v2" by (metis sumE)
  then show "s_connections s' = []" "s_tpool s' = s_tpool s" "s_connCount s' = s_connCount s"
    using assms wake del queues_only_fields [OF only] delete_all_keeps_pool [of h d _ s1 v2 s2]
    by (auto simp: stop_def bindP_def prog_simps close_fd_fields)
qed

section \<open>Reachable states\<close>

text \<open>
  One step of a server whose handlers do not throw: what an application does to it, one event of
  the epoll thread, a worker's section under the lock, and, from a handler or from anywhere, a call
  of a public function. A handler's calls are such steps, so that they interleave with everything
  else (\<open>worker_turn_steps\<close>). An event that throws ends the epoll loop, but not the server, whose
  functions can still be called. The kernel's part is that \<open>accept\<close> returns unused descriptors.
\<close>

inductive server_step :: "host \<Rightarrow> nat \<Rightarrow> Server \<Rightarrow> Server \<Rightarrow> bool" for h d where
  add_route: "server_step h d s (route pa handler s)"
| add_matcher: "server_step h d s (route_func matcher handler s)"
| on_error: "server_step h d s (setOnError cb s)"
| listening: "listen_setup l s = (r, s') \<Longrightarrow> server_step h d s s'"
| event: "(ev_fd ev = s_socket s \<longrightarrow> fresh_fds (ev_accepts ev) s)
    \<Longrightarrow> handle_event h d ev s = (Inr u, s') \<Longrightarrow> server_step h d s s'"
| thrown: "(ev_fd ev = s_socket s \<longrightarrow> fresh_fds (ev_accepts ev) s)
    \<Longrightarrow> handle_event h d ev s = (Inl (Throw x), s') \<Longrightarrow> server_step h d s s'"
| take: "i < length (tp_workers (s_tpool s)) \<Longrightarrow> tp_workers (s_tpool s) ! i = Ready
    \<Longrightarrow> server_step h d s (s\<lparr>s_tpool := worker_check i (s_tpool s)\<rparr>)"
| finish: "i < length (tp_workers (s_tpool s)) \<Longrightarrow> tp_workers (s_tpool s) ! i = Running req
    \<Longrightarrow> server_step h d s (s\<lparr>s_tpool := worker_finish never i req (s_tpool s)\<rparr>)"
| wake: "tp_notify (s_tpool s) = Suc m
    \<Longrightarrow> i < length (tp_workers (s_tpool s)) \<Longrightarrow> tp_workers (s_tpool s) ! i = Asleep
    \<Longrightarrow> server_step h d s (s\<lparr>s_tpool := set_worker i Ready (s_tpool s\<lparr>tp_notify := m\<rparr>)\<rparr>)"
| spurious: "i < length (tp_workers (s_tpool s)) \<Longrightarrow> tp_workers (s_tpool s) ! i = Asleep
    \<Longrightarrow> server_step h d s (s\<lparr>s_tpool := set_worker i Ready (s_tpool s)\<rparr>)"
| unheard: "tp_notify (s_tpool s) = Suc m \<Longrightarrow> Asleep \<notin> set (tp_workers (s_tpool s))
    \<Longrightarrow> server_step h d s (s\<lparr>s_tpool := s_tpool s\<lparr>tp_notify := m\<rparr>\<rparr>)"
| respond: "sendResponse resp s = (Inr u, s') \<Longrightarrow> server_step h d s s'"
| close: "closeConnection_cmd k s = (Inr u, s') \<Longrightarrow> server_step h d s s'"
| stopping: "stop h d s = (Inr u, s') \<Longrightarrow> server_step h d s s'"

text \<open>\<open>server_reach h d n s\<close>: a server of \<open>n\<close> workers can be in the state \<open>s\<close>.\<close>

inductive server_reach :: "host \<Rightarrow> nat \<Rightarrow> nat \<Rightarrow> Server \<Rightarrow> bool" for h d n where
  construct: "server_reach h d n (Server_new port privKey n maxConnections maxFrameSize count w)"
| step: "server_reach h d n s \<Longrightarrow> server_step h d s s' \<Longrightarrow> server_reach h d n s'"

text \<open>A turn of a worker is a run of these steps: it takes a task, calls the responder, is done.\<close>

lemma responder_step:
  assumes "call_responder rc s = (Inr u, s')"
  shows "server_step h d s s'"
  using assms
  by (cases rc) (auto simp: call_responder_def split: if_splits intro: server_step.respond server_step.close)

lemma responder_calls_steps:
  "responder_calls rcs s = (Inr u, s') \<Longrightarrow> (server_step h d)\<^sup>*\<^sup>* s s'"
proof (induction rcs arbitrary: s)
  case (Cons rc rcs)
  then obtain s1 where "call_responder rc s = (Inr (), s1)" "responder_calls rcs s1 = (Inr u, s')"
    by (auto simp: bindP_def seqP_def split: prod.splits sum.splits)
  with Cons.IH show ?case by (meson converse_rtranclp_into_rtranclp responder_step)
qed (simp add: retP_def)

lemma router_steps:
  assumes "router req s = (Inr u, s')"
  shows "(server_step h d)\<^sup>*\<^sup>* s s'"
proof -
  have "(server_step h d)\<^sup>*\<^sup>* s s'" if run: "run_handler handler req s = (Inr u, s')" for handler
  proof (cases "handler req")
    case (Pair rcs thrown)
    then have "responder_calls rcs s = (Inr (), s')"
      using run by (auto simp: run_handler_def bindP_def prog_simps split: prod.splits sum.splits option.splits)
    then show ?thesis by (rule responder_calls_steps)
  qed
  then show ?thesis using assms responder_step
    by (fastforce simp: router_def split: option.splits)
qed

lemma worker_turn_steps:
  assumes "worker_turn i s = (Inr u, s')" "i < length (tp_workers (s_tpool s))"
    and "tp_workers (s_tpool s) ! i = Ready"
  shows "(server_step h d)\<^sup>*\<^sup>* s s'"
proof -
  let ?s = "s\<lparr>s_tpool := worker_check i (s_tpool s)\<rparr>"
  have take: "(server_step h d)\<^sup>*\<^sup>* s ?s" using server_step.take [OF assms(2,3)] by blast
  show ?thesis
  proof (cases "\<exists>req. tp_workers (s_tpool ?s) ! i = Running req")
    case True
    then obtain req s1 where req: "tp_workers (s_tpool ?s) ! i = Running req"
      and run: "router req ?s = (Inr (), s1)"
      and s': "s' = s1\<lparr>s_tpool := worker_finish never i req (s_tpool s1)\<rparr>"
      using assms(1) by (auto simp: worker_turn_def Let_def split: prod.splits sum.splits)
    have "s_tpool s1 = s_tpool ?s"
      using router_queues [of ?s req] run queues_only_fields(4) by fastforce
    then have "server_step h d s1 s'"
      unfolding s' using req assms(2) by (intro server_step.finish) (simp_all add: worker_check_enqueued)
    then show ?thesis using take router_steps [OF run, of h d] by (meson rtranclp.rtrancl_into_rtrancl rtranclp_trans)
  next
    case False
    then have "s' = ?s" using assms(1) by (auto simp: worker_turn_def Let_def split: worker.splits)
    then show ?thesis using take by simp
  qed
qed

definition server_inv :: "nat \<Rightarrow> Server \<Rightarrow> bool" where
  "server_inv n s \<longleftrightarrow> server_ok s \<and> pool_reach never n (s_tpool s) \<and> \<not> tp_stop (s_tpool s)"

lemma server_inv_same:
  "server_inv n s \<Longrightarrow> s_connections s' = s_connections s \<Longrightarrow> s_fdToId s' = s_fdToId s \<Longrightarrow>
    s_connCount s' = s_connCount s \<Longrightarrow> s_tpool s' = s_tpool s \<Longrightarrow> server_inv n s'"
  by (simp add: server_inv_def server_ok_def)

lemma listen_setup_keeps:
  assumes "listen_setup l s = (r, s')"
  shows "s_connections s' = s_connections s" "s_fdToId s' = s_fdToId s"
    "s_connCount s' = s_connCount s" "s_tpool s' = s_tpool s"
  using assms by (auto simp: listen_setup_def bindP_def prog_simps split: if_splits)

lemma server_inv_pool:
  "server_inv n s \<Longrightarrow> pool_step never (s_tpool s) p \<Longrightarrow> tp_enqueued p = tp_enqueued (s_tpool s) \<Longrightarrow>
    tp_stop p = tp_stop (s_tpool s) \<Longrightarrow> server_inv n (s\<lparr>s_tpool := p\<rparr>)"
  by (auto simp: server_inv_def server_ok_def intro: pool_reach.step)

lemma server_step_inv:
  assumes "server_inv n s" "server_step h d s s'"
  shows "server_inv n s'"
proof -
  have alive: "\<not> tp_terminated (s_tpool s)" using assms(1) pool_alive by (auto simp: server_inv_def)
  note pool = server_inv_pool [OF assms(1)]
  have handled: "server_inv n s'"
    if ev: "ev_fd ev = s_socket s \<longrightarrow> fresh_fds (ev_accepts ev) s" "handle_event h d ev s = (r, s')" for ev r
  proof -
    have "server_ok s" using assms(1) by (simp add: server_inv_def)
    from handle_event_ok [OF this ev] have "server_ok s'" .
    moreover have "pool_reach never n (s_tpool s')" "\<not> tp_stop (s_tpool s')"
      using enqueues_pool [OF handle_event_enqueues [OF ev(2)], of n] assms(1)
      by (simp_all add: server_inv_def)
    ultimately show ?thesis by (simp add: server_inv_def)
  qed
  show ?thesis using assms(2)
  proof (cases rule: server_step.cases)
    case (listening l r)
    show ?thesis by (rule server_inv_same [OF assms(1) listen_setup_keeps [OF listening]])
  next
    case (event ev u)
    then show ?thesis using handled by blast
  next
    case (thrown ev x)
    then show ?thesis using handled by blast
  next
    case (take i)
    then show ?thesis using pool [OF pool_step.check [OF alive]] by (simp add: worker_check_enqueued)
  next
    case (finish i req)
    then show ?thesis using pool [OF pool_step.finish [OF alive]] by (simp add: worker_finish_def set_worker_def)
  next
    case (wake m i)
    then show ?thesis using pool [OF pool_step.notified [OF alive]] by (simp add: set_worker_def)
  next
    case (spurious i)
    then show ?thesis using assms(1) by (auto simp: server_inv_def server_ok_def set_worker_def intro: pool_reach.spurious [unfolded set_worker_def])
  next
    case (unheard m)
    then show ?thesis using pool [OF pool_step.unheard [OF alive]] by simp
  next
    case (respond resp u)
    then have "queues_only s s'" using sendResponse_queues [of s resp] by simp
    then show ?thesis using server_inv_same [OF assms(1)] queues_only_fields by blast
  next
    case (close k u)
    then have "queues_only s s'" using closeConnection_queues [of s k] by simp
    then show ?thesis using server_inv_same [OF assms(1)] queues_only_fields by blast
  next
    case (stopping u)
    then show ?thesis using stop_empties [OF stopping] assms(1) by (simp add: server_inv_def server_ok_def)
  qed (use assms(1) in \<open>auto elim: server_inv_same simp: route_def route_func_def setOnError_def\<close>)
qed

lemma server_reach_inv: "server_reach h d n s \<Longrightarrow> server_inv n s"
proof (induction rule: server_reach.induct)
  case (construct port privKey maxConnections maxFrameSize count w)
  show ?case
    by (simp add: server_inv_def server_ok_def Server_new_def pool_reach.init)
      (simp add: ThreadPool_def)
qed (rule server_step_inv)

section \<open>Properties\<close>

text \<open>
  C7: in every state a server reaches, whatever the events, workers and callers do: each
  connection is stored under its own identifier; the descriptor of an open one leads back to it
  and to no other; the requests it delivered were put into the pool once each and in order; and
  the workers began the tasks of the pool in that order, none lost or repeated.
\<close>

theorem server_invariant:
  assumes "server_reach h d n s"
  shows "(\<forall>k c. map_of (s_connections s) k = Some c \<longrightarrow> c_connId c = k
      \<and> (c_fd c \<noteq> -1 \<longrightarrow> map_of (s_fdToId s) (c_fd c) = Some k)
      \<and> c_requests c = filter (\<lambda>r. rq_connID r = k) (tp_enqueued (s_tpool s)))
    \<and> tp_started (s_tpool s) @ tp_tasks (s_tpool s) = tp_enqueued (s_tpool s)"
proof -
  have inv: "server_inv n s" using server_reach_inv [OF assms] .
  then have "server_ok s" by (simp add: server_inv_def)
  moreover have "pool_ok n (s_tpool s)" using inv pool_reach_ok by (auto simp: server_inv_def)
  ultimately show ?thesis by (auto simp: server_ok_def pool_ok_def)
qed

end
