(* ===== verification/Server_Service.thy ===== *)
theory Server_Service
  imports Server_Reach
begin

text \<open>
  What the server does for its clients and its users: which handler a request gets, how it is
  answered, in what order commands are carried out, whom an event concerns; and what goes wrong
  when commands come late, descriptors are reused, or the server is stopped.
\<close>

section \<open>Routing\<close>

text \<open>
  The calls of the two \<open>route\<close> functions, in the order they were made, and the handler a request
  should get: the last registered for exactly its path, else the first whose matcher accepts it,
  else the built-in answer \<open>STATUS_NOT_FOUND\<close>.
\<close>

datatype registration = Exact bytes handler | Match matcher handler

fun register :: "registration \<Rightarrow> Server \<Rightarrow> Server" where
  "register (Exact pa handler) s = route pa handler s"
| "register (Match matcher handler) s = route_func matcher handler s"

definition not_found :: handler where
  "not_found req = ([Respond req [] STATUS_NOT_FOUND], None)"

fun last_exact :: "registration list \<Rightarrow> bytes \<Rightarrow> handler option" where
  "last_exact [] pa = None"
| "last_exact (Exact pa' handler # regs) pa =
    (case last_exact regs pa of Some h \<Rightarrow> Some h
     | None \<Rightarrow> if pa' = pa then Some handler else None)"
| "last_exact (Match matcher handler # regs) pa = last_exact regs pa"

fun first_accepting :: "registration list \<Rightarrow> Request \<Rightarrow> handler option" where
  "first_accepting [] req = None"
| "first_accepting (Exact pa handler # regs) req = first_accepting regs req"
| "first_accepting (Match matcher handler # regs) req =
    (if matcher req then Some handler else first_accepting regs req)"

definition chosen :: "registration list \<Rightarrow> Request \<Rightarrow> handler" where
  "chosen regs req = (case last_exact regs (rq_path req) of Some h \<Rightarrow> h
    | None \<Rightarrow> (case first_accepting regs req of Some h \<Rightarrow> h | None \<Rightarrow> not_found))"

lemma first_match_append:
  "first_match (xs @ ys) req = (case first_match xs req of Some h \<Rightarrow> Some h | None \<Rightarrow> first_match ys req)"
  by (induction xs req rule: first_match.induct) auto

lemma registered_routes:
  "map_of (s_routes (fold register regs s)) pa =
    (case last_exact regs pa of Some h \<Rightarrow> Some h | None \<Rightarrow> map_of (s_routes s) pa)"
proof (induction regs arbitrary: s)
  case (Cons reg regs)
  then show ?case by (cases reg) (auto simp: route_def route_func_def update_conv' split: option.split)
qed simp

lemma registered_matchers:
  "first_match (s_funcRoutes (fold register regs s)) req =
    (case first_match (s_funcRoutes s) req of Some h \<Rightarrow> Some h | None \<Rightarrow> first_accepting regs req)"
proof (induction regs arbitrary: s)
  case (Cons reg regs)
  then show ?case
    by (cases reg) (auto simp: route_def route_func_def first_match_append split: option.split)
qed (simp split: option.split)

lemma run_not_found:
  "run_handler not_found req s = call_responder (Respond req [] STATUS_NOT_FOUND) s"
  by (auto simp: run_handler_def not_found_def bindP_def prog_simps split: prod.split sum.split)

text \<open>
  C12: after any sequence of calls of \<open>route\<close> on a new server, \<open>_router\<close> runs exactly one handler on a
  request, the one the registrations choose; a request nothing matches is answered, not dropped.
\<close>

theorem router_chooses:
  assumes "s_routes s = []" "s_funcRoutes s = []"
  shows "router req (fold register regs s) = run_handler (chosen regs req) req (fold register regs s)"
  using assms
  by (simp add: router_def registered_routes registered_matchers chosen_def run_not_found
      split: option.split)

section \<open>Answering\<close>

lemma responder_sends:
  assumes "s_alive s" "s_cmdEvFd s = Some e" "map_of (s_connections s) (rq_connID req) = Some c"
  shows "call_responder (Respond req dt st) s =
    (Inr (), s\<lparr>s_commandQueue := cq_push \<lparr>cmd_type = SEND, cmd_connID = rq_connID req,
        cmd_frame = Some (makeRespFrame c (rq_path req) dt st 0 (rq_rid req))\<rparr> (s_commandQueue s),
      s_wakeups := s_wakeups s + 1\<rparr>)"
  using assms
  by (simp add: call_responder_def sendResponse_def Response_to_def wakeEpoll_def push_command_def
      bindP_def prog_simps)

text \<open>The handler a request gets responds to it with \<open>dt\<close> and \<open>st\<close>, and does nothing else.\<close>

definition answers :: "Server \<Rightarrow> Request \<Rightarrow> bytes \<Rightarrow> u8 \<Rightarrow> bool" where
  "answers s req dt st =
    (case map_of (s_routes s) (rq_path req) of
       Some handler \<Rightarrow> handler req = ([Respond req dt st], None)
     | None \<Rightarrow>
        (case first_match (s_funcRoutes s) req of
           Some handler \<Rightarrow> handler req = ([Respond req dt st], None)
         | None \<Rightarrow> dt = [] \<and> st = STATUS_NOT_FOUND))"

lemma answers_cong:
  "s_routes s' = s_routes s \<Longrightarrow> s_funcRoutes s' = s_funcRoutes s \<Longrightarrow> answers s' = answers s"
  by (intro ext) (simp add: answers_def cong: option.case_cong)

lemma answers_router:
  assumes "answers s req dt st"
  shows "router req s = call_responder (Respond req dt st) s"
proof -
  have "run_handler handler req s = call_responder (Respond req dt st) s"
    if "handler req = ([Respond req dt st], None)" for handler
    using that by (auto simp: run_handler_def bindP_def prog_simps split: prod.split sum.split)
  then show ?thesis
    using assms by (simp add: answers_def router_def split: option.splits)
qed

text \<open>What serving requests leaves as it was.\<close>

definition same_setup :: "Server \<Rightarrow> Server \<Rightarrow> bool" where
  "same_setup s s' \<longleftrightarrow> s_routes s' = s_routes s \<and> s_funcRoutes s' = s_funcRoutes s \<and> s_fdToId s' = s_fdToId s
    \<and> s_cmdEvFd s' = s_cmdEvFd s \<and> s_socket s' = s_socket s \<and> s_alive s' = s_alive s
    \<and> length (tp_workers (s_tpool s')) = length (tp_workers (s_tpool s))"

text \<open>What a worker's turn does with the first task, when the route answers it.\<close>

lemma worker_answers:
  assumes "s_alive s" "s_cmdEvFd s = Some e" "map_of (s_connections s) (rq_connID req) = Some c"
    and "tp_tasks (s_tpool s) = req # reqs" "i < length (tp_workers (s_tpool s))"
    and route: "answers s req dt st"
  shows "\<exists>p. worker_turn i s = (Inr (), s\<lparr>s_tpool := p,
      s_commandQueue := cq_push \<lparr>cmd_type = SEND, cmd_connID = rq_connID req,
        cmd_frame = Some (makeRespFrame c (rq_path req) dt st 0 (rq_rid req))\<rparr> (s_commandQueue s),
      s_wakeups := s_wakeups s + 1\<rparr>) \<and> tp_tasks p = reqs
    \<and> length (tp_workers p) = length (tp_workers (s_tpool s))"
proof -
  let ?p = "worker_check i (s_tpool s)"
  have p: "tp_workers ?p ! i = Running req" "tp_tasks ?p = reqs"
    using assms(4,5) by (simp_all add: worker_check_def tp_pop_def set_worker_def)
  have "router req (s\<lparr>s_tpool := ?p\<rparr>) = call_responder (Respond req dt st) (s\<lparr>s_tpool := ?p\<rparr>)"
    by (rule answers_router) (use route answers_cong [of "s\<lparr>s_tpool := ?p\<rparr>" s] in simp)
  also have "\<dots> = (Inr (), s\<lparr>s_tpool := ?p,
      s_commandQueue := cq_push \<lparr>cmd_type = SEND, cmd_connID = rq_connID req,
        cmd_frame = Some (makeRespFrame c (rq_path req) dt st 0 (rq_rid req))\<rparr> (s_commandQueue s),
      s_wakeups := s_wakeups s + 1\<rparr>)"
    using assms(1-3) by (subst responder_sends) simp_all
  finally show ?thesis using p
    by (intro exI [of _ "worker_finish never i req ?p"])
      (simp add: worker_turn_def Let_def worker_finish_def set_worker_def worker_check_enqueued)
qed

lemma drain_one:
  assumes "cq_queue (s_commandQueue s) = [cmd]"
  shows "drain_commands h d s = handleCommand h d cmd (set_queue (s_commandQueue s\<lparr>cq_queue := []\<rparr>) s)"
  using assms
  by (simp add: drain_commands_all dequeue_def cq_tryPop_def split: prod.split sum.split)

lemma answer_on_wire:
  assumes "s_alive s" "s_cmdEvFd s = Some e" "cq_queue (s_commandQueue s) = []"
    and conn: "map_of (s_connections s) (rq_connID req) = Some c" "can_send h c"
    and pool: "tp_tasks (s_tpool s) = req # reqs" "i < length (tp_workers (s_tpool s))"
    and route: "answers s req dt st"
    and size: "length (rq_path req) < 2 ^ 16" "length (rq_path req) + length dt + 20 < 2 ^ 31"
    and ev: "ev_fd ev = e"
  obtains s1 s2 enc k k' where "worker_turn i s = (Inr (), s1)" "handle_event h (Suc d) ev s1 = (Inr (), s2)"
    "wire (c_fd c) (s_world s2) = wire (c_fd c) (s_world s) @ enc"
    "encodeFrame (h_ssl h) (makeRespFrame c (rq_path req) dt st 0 (rq_rid req)) True (c_aesKey c)
       (c_fid c + 1) k = (Inr enc, k')"
    "map_of (s_connections s2) (rq_connID req) = Some (c\<lparr>c_fid := c_fid c + 1\<rparr>)"
    "same_setup s s2" "cq_queue (s_commandQueue s2) = []" "tp_tasks (s_tpool s2) = reqs"
proof -
  let ?f = "makeRespFrame c (rq_path req) dt st 0 (rq_rid req)"
  let ?cmd = "\<lparr>cmd_type = SEND, cmd_connID = rq_connID req, cmd_frame = Some ?f\<rparr>"
  obtain p where turn: "worker_turn i s = (Inr (), s\<lparr>s_tpool := p,
      s_commandQueue := cq_push ?cmd (s_commandQueue s), s_wakeups := s_wakeups s + 1\<rparr>)"
    and p: "tp_tasks p = reqs" "length (tp_workers p) = length (tp_workers (s_tpool s))"
    using worker_answers [OF assms(1,2) conn(1) pool route] by blast
  let ?s1 = "s\<lparr>s_tpool := p, s_commandQueue := cq_push ?cmd (s_commandQueue s),
    s_wakeups := s_wakeups s + 1\<rparr>"
  have f: "length (path ?f) < 2 ^ 16" "length (path ?f) + length (data ?f) + 20 < 2 ^ 31"
    using size by (simp_all add: makeRespFrame_def makeFrame_def)
  obtain enc k w' where
    enc: "encodeFrame (h_ssl h) ?f True (c_aesKey c) (c_fid c + 1) (w_crypto (s_world s)) = (Inr enc, k)"
    and run: "sendFrame h (Suc d) ?f (c, s_world s) = (Inr (), (c\<lparr>c_fid := c_fid c + 1\<rparr>, w'))"
    and out: "wire (c_fd c) w' = wire (c_fd c) (s_world s) @ enc"
    by (rule sendFrame_sends [OF conn(2) f])
  let ?s3 = "?s1\<lparr>s_wakeups := 0, s_commandQueue := s_commandQueue s\<lparr>cq_queue := []\<rparr>\<rparr>"
  have "handle_event h (Suc d) ev ?s1 = handleCommand h (Suc d) ?cmd ?s3"
    using assms(2,3) ev by (simp add: handle_event_def drain_one cq_push_def)
  also have "\<dots> = (Inr (), store_conn (rq_connID req) c (c\<lparr>c_fid := c_fid c + 1\<rparr>) w' ?s3)"
    using conn(1) run by (simp add: handleCommand_def on_conn_def)
  finally show thesis
    using that [OF turn _ _ enc] out p by (simp add: store_conn_eq update_conv' same_setup_def)
qed

text \<open>
  A request gets its answer onto the wire. When the route of the request at the head of the
  pool's queue responds, one turn of a free worker and the eventfd's event put exactly one frame
  on the descriptor of the requesting connection, encrypted under its key, with the request's path
  and identifier, the session identifier, and the handler's status and data.
\<close>

lemma request_is_answered:
  assumes "s_alive s" "s_cmdEvFd s = Some e" "cq_queue (s_commandQueue s) = []"
    and conn: "map_of (s_connections s) (rq_connID req) = Some c" "can_send h c"
    and pool: "tp_tasks (s_tpool s) = req # reqs" "i < length (tp_workers (s_tpool s))"
    and route: "answers s req dt st"
    and size: "length (rq_path req) < 2 ^ 16" "length (rq_path req) + length dt + 20 < 2 ^ 31"
    and ev: "ev_fd ev = e"
  shows "\<exists>s1 s2 enc k k' fd'. worker_turn i s = (Inr (), s1) \<and> handle_event h (Suc d) ev s1 = (Inr (), s2)
    \<and> wire (c_fd c) (s_world s2) = wire (c_fd c) (s_world s) @ enc
    \<and> encodeFrame (h_ssl h) (makeFrame fd' st 0 (rq_path req) dt (rq_rid req) (c_ssid c)) True
        (c_aesKey c) (c_fid c + 1) k = (Inr enc, k')"
  using answer_on_wire [OF assms, of d] by (fastforce simp: makeRespFrame_def)

section \<open>Events\<close>

lemma delete_conn_open:
  assumes "c_state c \<noteq> CLOSED" "c_fd c \<noteq> -1"
  shows "\<exists>s'. delete_conn h (Suc d) k c s = (Inr (), s')
    \<and> map_of (s_connections s') = (map_of (s_connections s))(k := None)
    \<and> real_closes (s_world s') = real_closes (s_world s) @ [c_fd c] \<and> s_tpool s' = s_tpool s
    \<and> s_fdToId s' = s_fdToId s \<and> s_commandQueue s' = s_commandQueue s \<and> s_onErr s' = s_onErr s
    \<and> s_cmdEvFd s' = s_cmdEvFd s \<and> s_running s' = s_running s \<and> s_socket s' = s_socket s
    \<and> s_connCount s' = s_connCount s"
proof -
  let ?c = "close_mark True NATURAL (c\<lparr>c_fd := -1\<rparr>)"
  have "on_conn k c (ClientConnection_delete h (Suc d)) s
      = (Inr (), store_conn k c ?c (sys_close (c_fd c) (s_world s)) s)"
    using assms by (simp add: on_conn_def ClientConnection_delete_run)
  then have "delete_conn h (Suc d) k c s = (Inr (),
      (\<lambda>s. s\<lparr>s_connections := AList.delete k (s_connections s)\<rparr>)
        (store_conn k c ?c (sys_close (c_fd c) (s_world s)) s))"
    by (simp add: delete_conn_def bindP_def prog_simps)
  then show ?thesis using assms(2)
    by (simp add: store_conn_eq delete_conv' update_conv' real_closes_def sys_close_def)
qed

lemma on_conn_others:
  "on_conn k c m s = (r, s') \<Longrightarrow> k' \<noteq> k \<Longrightarrow> map_of (s_connections s') k' = map_of (s_connections s) k'"
  by (auto simp: on_conn_def store_conn_eq update_conv' split: prod.splits)

lemma delete_conn_others:
  "delete_conn h d k c s = (r, s') \<Longrightarrow> k' \<noteq> k \<Longrightarrow> map_of (s_connections s') k' = map_of (s_connections s) k'"
  using on_conn_others [of k c "ClientConnection_delete h d" s _ _ k']
  by (cases "on_conn k c (ClientConnection_delete h d) s")
    (auto simp: delete_conn_def bindP_def prog_simps delete_conv' split: sum.splits)

lemma event_others:
  assumes "handle_event h d ev s = (r, s')" "Some (ev_fd ev) \<noteq> s_cmdEvFd s" "ev_fd ev \<noteq> s_socket s"
    and "map_of (s_fdToId s) (ev_fd ev) \<noteq> Some k'"
  shows "map_of (s_connections s') k' = map_of (s_connections s) k'"
proof (cases "\<exists>k c. map_of (s_fdToId s) (ev_fd ev) = Some k \<and> map_of (s_connections s) k = Some c")
  case False
  then show ?thesis using assms(1-3) by (auto simp: handle_event_def split: option.splits)
next
  case True
  then obtain k c where kc: "map_of (s_fdToId s) (ev_fd ev) = Some k" "map_of (s_connections s) k = Some c"
    by blast
  with assms(4) have k': "k' \<noteq> k" by auto
  show ?thesis
  proof (cases "ev_hup ev \<or> \<not> ev_in ev")
    case True
    then show ?thesis using assms(1-3) kc delete_conn_others [OF _ k']
      by (auto simp: handle_event_def split: if_splits)
  next
    case False
    obtain q s1 where rd: "on_conn k c (readFd h d (ev_chunks ev) (ev_end ev)) s = (q, s1)"
      by (cases "on_conn k c (readFd h d (ev_chunks ev) (ev_end ev)) s")
    have "s' = s1 \<or> (\<exists>c'. delete_conn h d k c' s1 = (r, s'))"
      using assms(1-3) kc False rd
      by (auto simp: handle_event_def bindP_def split: if_splits sum.splits option.splits)
    then show ?thesis using on_conn_others [OF rd k'] delete_conn_others [OF _ k'] by metis
  qed
qed

text \<open>
  An event concerns the connection whose descriptor it names, and no other: whatever arrives
  or happens on the descriptor of an open connection, every other connection is untouched; and a
  hang-up removes the connection, closes its descriptor once, and always succeeds.
\<close>

lemma event_reaches_owner:
  assumes "server_reach h d' n s" "map_of (s_connections s) k = Some c"
    and "c_fd c \<noteq> -1" "c_state c \<noteq> CLOSED" "ev_fd ev = c_fd c"
    and "Some (c_fd c) \<noteq> s_cmdEvFd s" "c_fd c \<noteq> s_socket s"
    and run: "handle_event h (Suc d) ev s = (r, s')"
  shows "(\<forall>k'. k' \<noteq> k \<longrightarrow> map_of (s_connections s') k' = map_of (s_connections s) k')
    \<and> (ev_hup ev \<longrightarrow> r = Inr () \<and> map_of (s_connections s') k = None
        \<and> real_closes (s_world s') = real_closes (s_world s) @ [c_fd c])"
proof
  have "server_ok s" using server_reach_inv [OF assms(1)] by (simp add: server_inv_def)
  then have own: "map_of (s_fdToId s) (ev_fd ev) = Some k"
    using assms(2,3,5) server_okD(3) by metis
  then show "\<forall>k'. k' \<noteq> k \<longrightarrow> map_of (s_connections s') k' = map_of (s_connections s) k'"
    using event_others [OF run] assms(5-7) by auto
  show "ev_hup ev \<longrightarrow> r = Inr () \<and> map_of (s_connections s') k = None
        \<and> real_closes (s_world s') = real_closes (s_world s) @ [c_fd c]"
    using delete_conn_open [OF assms(4,3), of h d k s] run own assms(2,5-7)
    by (auto simp: handle_event_def)
qed

section \<open>Commands\<close>

text \<open>
  The eventfd's event carries out all commands queued, oldest first, up to the first that
  throws, and always ends; in particular responses leave in the order they were queued.
\<close>

lemma commands_in_order:
  assumes "ev_fd ev = e" "s_cmdEvFd s = Some e"
  shows "handle_event h d ev s =
    handle_all (handleCommand h d) (dequeue s_commandQueue set_queue) (cq_queue (s_commandQueue s))
      (s\<lparr>s_wakeups := 0\<rparr>)"
  using assms by (simp add: handle_event_def drain_commands_all)

lemma late_command:
  assumes "map_of (s_connections s) (cmd_connID cmd) = None" "s_onErr s = None"
  shows "handleCommand h d cmd s = (Inl (Throw (FMXPException ERR_CONNECTION
    (to_string (unat (cmd_connID cmd)) @ '': Connection not found''))), s)"
  using assms by (simp add: handleCommand_def onErr_def defaultErrorHandler_def failP_def)

text \<open>
  C36: a response that comes too late ends the server: when a client hangs up while a command for
  it is queued, and the user has set no error handler, the exception of the default handler
  leaves the epoll loop and so \<open>listen\<close>.
\<close>

theorem late_command_ends_loop:
  assumes "s_running s" "s_onErr s = None" "s_cmdEvFd s = Some e"
    and conn: "map_of (s_fdToId s) fd = Some k" "map_of (s_connections s) k = Some c"
      "c_state c \<noteq> CLOSED" "c_fd c \<noteq> -1"
    and "fd \<noteq> e" "fd \<noteq> s_socket s" "cq_queue (s_commandQueue s) = cmd # cmds" "cmd_connID cmd = k"
    and evs: "ev_fd ev1 = fd" "ev_hup ev1" "ev_fd ev2 = e"
  shows "fst (epollLoop h (Suc d) ((id, ev1 # ev2 # evs) # waits) s)
    = Inl (Throw (FMXPException ERR_CONNECTION (to_string (unat k) @ '': Connection not found'')))"
proof -
  obtain s1 where del: "handle_event h (Suc d) ev1 s = (Inr (), s1)"
    and s1: "map_of (s_connections s1) k = None" "s_commandQueue s1 = s_commandQueue s"
      "s_onErr s1 = None" "s_cmdEvFd s1 = Some e"
    using delete_conn_open [OF conn(3,4), of h d k s] conn evs assms(2,3,8,9)
    by (auto simp: handle_event_def)
  let ?s = "dequeue s_commandQueue set_queue cmd (s1\<lparr>s_wakeups := 0\<rparr>)"
  have "handleCommand h (Suc d) cmd ?s = (Inl (Throw (FMXPException ERR_CONNECTION
      (to_string (unat (cmd_connID cmd)) @ '': Connection not found''))), ?s)"
    by (rule late_command) (use s1 assms(11) in \<open>simp_all add: dequeue_def\<close>)
  then have "fst (handle_event h (Suc d) ev2 s1)
      = Inl (Throw (FMXPException ERR_CONNECTION (to_string (unat k) @ '': Connection not found'')))"
    using s1 evs(3) assms(10,11) by (simp add: handle_event_def drain_commands_all)
  then show ?thesis using assms(1) del
    by (cases "handle_event h (Suc d) ev2 s1") (simp add: bindP_def prog_simps)
qed


end
