(* ===== verification/Server_Shutdown.thy ===== *)
theory Server_Shutdown
  imports Server_Service
begin

text \<open>
  Stopping and destroying the server, and a descriptor the kernel hands out again within one
  batch of events; then a small server on which all properties of the server are tried out.
\<close>

section \<open>Stopping\<close>

definition is_open :: "ClientConnection \<Rightarrow> bool" where
  "is_open c \<longleftrightarrow> c_state c \<noteq> CLOSED \<and> c_fd c \<noteq> -1"

text \<open>The members that deleting a connection leaves alone.\<close>

definition shell :: "Server \<Rightarrow> Server \<Rightarrow> bool" where
  "shell s s' \<longleftrightarrow> s_fdsClosed s' = s_fdsClosed s \<and> s_socket s' = s_socket s \<and> s_epollFd s' = s_epollFd s
    \<and> s_commandQueue s' = s_commandQueue s \<and> s_running s' = s_running s \<and> s_tpool s' = s_tpool s
    \<and> s_cmdEvFd s' = s_cmdEvFd s \<and> s_routes s' = s_routes s \<and> s_funcRoutes s' = s_funcRoutes s"

lemma delete_on_conn:
  "\<exists>s'. on_conn k c (ClientConnection_delete h (Suc d)) s = (Inr (), s')
    \<and> real_closes (s_world s') = real_closes (s_world s) @ (if is_open c then [c_fd c] else [])
    \<and> shell s s'"
  by (simp add: on_conn_def ClientConnection_delete_run store_conn_eq is_open_def real_closes_def
      sys_close_def shell_def)

lemma delete_all_runs:
  "\<exists>s'. delete_all h (Suc d) cs s = (Inr (), s')
    \<and> real_closes (s_world s') = real_closes (s_world s) @ map c_fd (filter is_open (map snd cs))
    \<and> shell s s'"
proof (induction cs arbitrary: s)
  case Nil
  then show ?case by (simp add: retP_def shell_def)
next
  case (Cons kc cs)
  obtain k c where kc: "kc = (k, c)" by (cases kc)
  obtain s1 where one: "on_conn k c (ClientConnection_delete h (Suc d)) s = (Inr (), s1)"
    and s1: "real_closes (s_world s1) = real_closes (s_world s) @ (if is_open c then [c_fd c] else [])"
    and f1: "shell s s1"
    using delete_on_conn [of k c h d s] by blast
  obtain s2 where "delete_all h (Suc d) cs s1 = (Inr (), s2)" "shell s1 s2"
    "real_closes (s_world s2) = real_closes (s_world s1) @ map c_fd (filter is_open (map snd cs))"
    using Cons.IH [of s1] by blast
  with one s1 f1 show ?case
    by (intro exI [of _ s2]) (cases "is_open c"; simp add: kc bindP_def seqP_def shell_def)
qed

lemma stop_runs:
  assumes "s_cmdEvFd s = Some e"
  shows "\<exists>s'. stop h (Suc d) s = (Inr (), s')
    \<and> real_closes (s_world s') = real_closes (s_world s)
        @ map c_fd (filter is_open (map snd (sort_key fst (s_connections s))))
    \<and> s_connections s' = [] \<and> s_fdToId s' = [] \<and> cq_queue (s_commandQueue s') = []
    \<and> \<not> s_running s' \<and> s_socket s' = s_socket s \<and> s_epollFd s' = s_epollFd s
    \<and> s_fdsClosed s' = s_fdsClosed s @ filter (\<lambda>fd. fd \<noteq> -1) [s_socket s, s_epollFd s]
    \<and> s_tpool s' = s_tpool s \<and> s_cmdEvFd s' = Some e
    \<and> s_routes s' = s_routes s \<and> s_funcRoutes s' = s_funcRoutes s"
proof -
  let ?s = "s\<lparr>s_running := False, s_commandQueue := cq_clear (s_commandQueue s), s_wakeups := s_wakeups s + 1\<rparr>"
  obtain s1 where "delete_all h (Suc d) (sort_key fst (s_connections s)) ?s = (Inr (), s1)"
    and "real_closes (s_world s1) = real_closes (s_world ?s)
        @ map c_fd (filter is_open (map snd (sort_key fst (s_connections s))))"
    and "shell ?s s1"
    using delete_all_runs [of h d "sort_key fst (s_connections s)" ?s] by blast
  then show ?thesis using assms
    by (simp add: stop_def wakeEpoll_def bindP_def prog_simps close_fd_def cq_clear_def
        shell_def)
qed

text \<open>
  \<open>stop\<close> on a server that has listened always returns; it closes the descriptor of every open
  connection once, in the order of the identifiers, and leaves no connection and no command.
  It does not forget the sockets: stopping again, as the destructor does, closes the listening
  and the epoll descriptor a second time, whoever owns those numbers by then.
\<close>

lemma stop_closes_everything:
  assumes "s_cmdEvFd s = Some e"
  shows "\<exists>s1 s2. stop h (Suc d) s = (Inr (), s1) \<and> stop h (Suc d) s1 = (Inr (), s2)
    \<and> s_connections s1 = [] \<and> cq_queue (s_commandQueue s1) = [] \<and> \<not> s_running s1
    \<and> real_closes (s_world s1) = real_closes (s_world s)
        @ map c_fd (filter is_open (map snd (sort_key fst (s_connections s))))
    \<and> real_closes (s_world s2) = real_closes (s_world s1)
    \<and> s_fdsClosed s2 = s_fdsClosed s @ filter (\<lambda>fd. fd \<noteq> -1)
        [s_socket s, s_epollFd s, s_socket s, s_epollFd s]"
proof -
  obtain s1 where 1: "stop h (Suc d) s = (Inr (), s1)"
    "real_closes (s_world s1) = real_closes (s_world s)
        @ map c_fd (filter is_open (map snd (sort_key fst (s_connections s))))"
    "s_connections s1 = []" "cq_queue (s_commandQueue s1) = []" "\<not> s_running s1"
    "s_socket s1 = s_socket s" "s_epollFd s1 = s_epollFd s" "s_cmdEvFd s1 = Some e"
    "s_fdsClosed s1 = s_fdsClosed s @ filter (\<lambda>fd. fd \<noteq> -1) [s_socket s, s_epollFd s]"
    using stop_runs [OF assms, of h d] by blast
  obtain s2 where 2: "stop h (Suc d) s1 = (Inr (), s2)"
    "real_closes (s_world s2) = real_closes (s_world s1)"
    "s_fdsClosed s2 = s_fdsClosed s1 @ filter (\<lambda>fd. fd \<noteq> -1) [s_socket s1, s_epollFd s1]"
    using stop_runs [OF 1(8), of h d] 1(3) by auto
  show ?thesis
    by (rule exI [of _ s1], rule exI [of _ s2], intro conjI)
      (use 1 2 in \<open>simp_all only: filter.simps append.simps append_assoc split: if_splits, simp_all\<close>)
qed

text \<open>
  A server that never listened cannot be destroyed: its destructor calls \<open>stop\<close>, which writes
  to the eventfd, a member that nothing has initialised.
\<close>

lemma unused_server_destructor_undefined:
  "fst (Server_delete h d (Server_new port privKey n maxConnections maxFrameSize count w)) = Inl Undefined"
  by (simp add: Server_delete_def stop_def wakeEpoll_def Server_new_def bindP_def prog_simps)

text \<open>
  Destroying a server with requests still in the pool is undefined behaviour: the pool is a
  member declared before the responder, so it is destroyed after it, and its destructor lets the
  workers run the remaining requests, whose responses go through the destroyed responder.
\<close>

lemma destructor_serves_requests_undefined:
  assumes "s_cmdEvFd s = Some e" "tp_tasks (s_tpool s) = req # reqs" "tp_workers (s_tpool s) \<noteq> []"
    and "answers s req dt st"
  shows "fst (Server_delete h (Suc d) s) = Inl Undefined"
proof -
  obtain s1 where s1: "stop h (Suc d) s = (Inr (), s1)" "s_tpool s1 = s_tpool s"
    "s_routes s1 = s_routes s" "s_funcRoutes s1 = s_funcRoutes s"
    using stop_runs [OF assms(1), of h d] by blast
  let ?p = "tp_destroy (s_tpool s)"
  let ?s2 = "s1\<lparr>s_alive := False, s_tpool := snd (tp_pop ?p)\<rparr>"
  have "router req ?s2 = call_responder (Respond req dt st) ?s2"
    by (rule answers_router) (use assms(4) s1 answers_cong [of ?s2 s] in simp)
  then have "router req ?s2 = (Inl Undefined, ?s2)" by (simp add: call_responder_def)
  then show ?thesis
    using s1 assms(2,3) by (simp add: Server_delete_def bindP_def prog_simps tp_destroy_def)
qed

section \<open>A descriptor used twice in one batch\<close>

text \<open>
  C37: an event of an old connection can hit a new one. When one batch holds the eventfd's event
  with a CLOSE command for a connection, a new connection, and the old client's hang-up, the
  command closes descriptor \<open>f\<close>, \<open>accept\<close> returns the same number for the new client, and the stale
  event destroys the new client's connection.
\<close>

theorem reused_descriptor_drops_client:
  assumes "s_cmdEvFd s = Some e" "s_socket s = l" "e \<noteq> l" "e \<noteq> f" "l \<noteq> f" "f \<noteq> -1"
    and conn: "map_of (s_connections s) k = Some c" "c_fd c = f" "c_state c \<noteq> CLOSED"
    and queue: "cq_queue (s_commandQueue s) = [\<lparr>cmd_type = CLOSE, cmd_connID = k, cmd_frame = None\<rparr>]"
    and evs: "ev_fd ev1 = e" "ev_fd ev2 = l" "ev_accepts ev2 = [f]" "ev_fd ev3 = f" "ev_hup ev3"
  shows "\<exists>s'. handle_events h (Suc d) [ev1, ev2, ev3] s = (Inr (), s')
    \<and> map_of (s_connections s') (s_connCount s + 1) = None
    \<and> real_closes (s_world s') = real_closes (s_world s) @ [f, f]"
proof -
  let ?n = "s_connCount s + 1"
  let ?c = "close_mark True NATURAL (c\<lparr>c_fd := -1\<rparr>)"
  let ?s0 = "s\<lparr>s_wakeups := 0, s_commandQueue := s_commandQueue s\<lparr>cq_queue := []\<rparr>\<rparr>"
  let ?s1 = "store_conn k c ?c (sys_close f (s_world s)) ?s0"
  have ev1: "handle_event h (Suc d) ev1 s = (Inr (), ?s1)"
    using assms(1,6) conn queue evs(1)
    by (simp add: handle_event_def drain_one handleCommand_def on_conn_def closeConnection_Suc)
  let ?s2 = "accept_one f ?s1"
  have ev2: "handle_event h (Suc d) ev2 ?s1 = (Inr (), ?s2)"
    using assms(1-3) evs(2,3) by (simp add: handle_event_def store_conn_eq)
  obtain c2 where c2: "map_of (s_connections ?s2) ?n = Some c2" "c_state c2 \<noteq> CLOSED" "c_fd c2 = f"
    by (simp add: accept_one_fields store_conn_eq update_conv' ClientConnection_new_def setOnClose_def
        Let_def)
  have s2: "s_cmdEvFd ?s2 = Some e" "s_socket ?s2 = l" "map_of (s_fdToId ?s2) f = Some ?n"
    "real_closes (s_world ?s2) = real_closes (s_world s) @ [f]"
    using assms(1,2,6)
    by (simp_all add: accept_one_def ClientConnection_new_def store_conn_eq update_conv' real_closes_def
        sys_close_def setOnClose_def Let_def)
  obtain s3 where "delete_conn h (Suc d) ?n c2 ?s2 = (Inr (), s3)"
    "map_of (s_connections s3) = (map_of (s_connections ?s2))(?n := None)"
    "real_closes (s_world s3) = real_closes (s_world ?s2) @ [c_fd c2]"
    using delete_conn_open [of c2 h d ?n ?s2] c2 assms(6) by auto
  moreover from this(1) have "handle_event h (Suc d) ev3 ?s2 = (Inr (), s3)"
    using c2(1) s2(1-3) evs(4,5) assms(4,5) by (simp add: handle_event_def)
  ultimately show ?thesis using ev1 ev2 c2(3) s2(4)
    by (intro exI [of _ s3]) (simp add: bindP_def prog_simps)
qed

section \<open>A small server\<close>

text \<open>One worker, the listening socket 3, epoll 4, eventfd 6, and one client on descriptor 5.\<close>

definition sample_listen :: listen_calls where
  "sample_listen = \<lparr>lc_socket = 3, lc_bind = 0, lc_listen = 0, lc_epoll = 4, lc_eventfd = 6,
     lc_addSocket = 0, lc_addEvent = 0\<rparr>"

definition listening_server :: Server where
  "listening_server =
    snd (listen_setup sample_listen (Server_new 9000 (lit ''PRIV'') 1 16 65536 0 sample_world))"

definition sample_event :: "int \<Rightarrow> epoll_ev" where
  "sample_event fd = \<lparr>ev_fd = fd, ev_hup = True, ev_in = False, ev_accepts = [5], ev_chunks = [],
     ev_end = Disconnect\<rparr>"

definition one_client :: Server where
  "one_client = accept_one 5 listening_server"

definition active_server :: Server where
  "active_server = one_client\<lparr>s_connections := [(1, sample_active)]\<rparr>"

definition close_1 :: ServerCommand where
  "close_1 = \<lparr>cmd_type = CLOSE, cmd_connID = 1, cmd_frame = None\<rparr>"

definition sample_request :: Request where
  "sample_request = \<lparr>rq_connID = 1, rq_path = lit ''/a'', rq_data = [], rq_rid = 9\<rparr>"

lemma listening_server_eval:
  "listening_server = (Server_new 9000 (lit ''PRIV'') 1 16 65536 0 sample_world)
     \<lparr>s_socket := 3, s_epollFd := 4, s_cmdEvFd := Some 6, s_running := True\<rparr>"
  by (simp add: listening_server_def listen_setup_def sample_listen_def bindP_def prog_simps)

lemma one_client_fields [simp]:
  "s_cmdEvFd one_client = Some 6" "s_socket one_client = 3" "s_epollFd one_client = 4"
  "s_running one_client" "s_onErr one_client = None" "s_connCount one_client = 1"
  "s_fdToId one_client = [(5, 1)]" "s_connections one_client = [(1, sample_conn)]"
  "cq_queue (s_commandQueue one_client) = []" "s_routes one_client = []"
  "s_funcRoutes one_client = []" "s_alive one_client" "s_tpool one_client = ThreadPool 1"
  "s_world one_client = sample_world" "s_fdsClosed one_client = []"
  by (simp_all add: one_client_def accept_one_def listening_server_eval Server_new_def cq_new_def
      ClientConnection_new_def sample_conn_def Let_def)

lemma sample_states [simp]: "c_state sample_conn = HANDSHAKE" "c_state sample_active = ACTIVE"
  "c_fd sample_active = 5" "c_connId sample_active = 1" "real_closes sample_world = []"
  by (simp_all add: sample_active_def sample_conn_def ClientConnection_new_def sample_world_def
      real_closes_def Let_def)

lemma sample_event_fields [simp]: "ev_fd (sample_event fd) = fd" "ev_hup (sample_event fd)"
  "ev_accepts (sample_event fd) = [5]"
  by (simp_all add: sample_event_def)

lemma one_client_reach: "server_reach h d 1 one_client"
proof -
  have "server_reach h d 1 listening_server"
    unfolding listening_server_def
    by (rule server_reach.step [OF server_reach.construct server_step.listening [OF surjective_pairing]])
  moreover have "handle_event h d (sample_event 3) listening_server = (Inr (), one_client)"
    by (simp add: handle_event_def listening_server_eval one_client_def)
  moreover have "fresh_fds (ev_accepts (sample_event 3)) listening_server"
    by (simp add: fresh_fds_def listening_server_eval Server_new_def)
  ultimately show ?thesis by (blast intro: server_reach.step server_step.event)
qed

theorem router_chooses_witness:
  "router sample_request (fold register [Exact (lit ''/a'') (\<lambda>r. ([], None)),
      Exact (lit ''/a'') (\<lambda>r. ([CloseConn 1], None))] one_client)
    = run_handler (\<lambda>r. ([CloseConn 1], None)) sample_request
        (fold register [Exact (lit ''/a'') (\<lambda>r. ([], None)),
          Exact (lit ''/a'') (\<lambda>r. ([CloseConn 1], None))] one_client)"
  by (subst router_chooses) (simp_all add: chosen_def sample_request_def)

theorem server_invariant_witness:
  "map_of (s_connections one_client) 1 = Some sample_conn \<and> map_of (s_fdToId one_client) 5 = Some 1"
  using server_invariant [OF one_client_reach [of sample_host 1]] by simp

theorem late_command_ends_loop_witness:
  "fst (epollLoop sample_host 1 [(id, [sample_event 5, sample_event 6])] (push_command close_1 one_client))
    = Inl (Throw (FMXPException ERR_CONNECTION (to_string 1 @ '': Connection not found'')))"
  using late_command_ends_loop [of "push_command close_1 one_client" 6 5 1 sample_conn close_1 "[]"
      "sample_event 5" "sample_event 6" sample_host 0 "[]" "[]"]
  by (simp add: push_command_def cq_push_def close_1_def)


theorem reused_descriptor_drops_client_witness:
  "\<exists>s'. handle_events sample_host 1 [sample_event 6, sample_event 3, sample_event 5]
      (push_command close_1 one_client) = (Inr (), s')
    \<and> map_of (s_connections s') 2 = None \<and> real_closes (s_world s') = [5, 5]"
  using reused_descriptor_drops_client [of "push_command close_1 one_client" 6 3 5 1 sample_conn
      "sample_event 6" "sample_event 3" "sample_event 5" sample_host 0]
  by (simp add: push_command_def cq_push_def close_1_def)

end
