(* ===== verification/Server_Refinement.thy ===== *)
theory Server_Refinement
  imports Server_Shutdown
begin

text \<open>
  What a \<open>Server\<close> promises, without descriptors, frames, queues or threads: clients join under
  fresh identifiers and leave, their requests arrive, wait in one line and are begun in the order
  of their arrival. Every step of the server is a run of such steps.
\<close>

section \<open>The service\<close>

record service =
  sv_last :: u64
  sv_clients :: "u64 set"
  sv_waiting :: "Request list"
  sv_begun :: "Request list"

definition service_start :: "u64 \<Rightarrow> service" where
  "service_start n = \<lparr>sv_last = n, sv_clients = {}, sv_waiting = [], sv_begun = []\<rparr>"

inductive service_step :: "service \<Rightarrow> service \<Rightarrow> bool" where
  join: "unat (sv_last a) + 1 < 2 ^ 64 \<Longrightarrow>
    service_step a (a\<lparr>sv_last := sv_last a + 1, sv_clients := insert (sv_last a + 1) (sv_clients a)\<rparr>)"
| arrive: "rq_connID r \<in> sv_clients a \<Longrightarrow> service_step a (a\<lparr>sv_waiting := sv_waiting a @ [r]\<rparr>)"
| start: "sv_waiting a = r # rs \<Longrightarrow> service_step a (a\<lparr>sv_waiting := rs, sv_begun := sv_begun a @ [r]\<rparr>)"
| leave: "service_step a (a\<lparr>sv_clients := sv_clients a - {k}\<rparr>)"

inductive_cases service_stepE: "service_step a b"

text \<open>A client that has left does not come back, and nothing more of it arrives.\<close>

definition requests_of :: "u64 \<Rightarrow> service \<Rightarrow> Request list" where
  "requests_of k a = filter (\<lambda>r. rq_connID r = k) (sv_begun a @ sv_waiting a)"

definition has_left :: "u64 \<Rightarrow> service \<Rightarrow> bool" where
  "has_left k a \<longleftrightarrow> k \<le> sv_last a \<and> k \<notin> sv_clients a"

lemma step_has_left:
  assumes "service_step a b" "has_left k a"
  shows "has_left k b" "requests_of k b = requests_of k a"
proof -
  have up: "k \<le> sv_last a + 1 \<and> k \<noteq> sv_last a + 1" if "unat (sv_last a) + 1 < 2 ^ 64"
  proof -
    have "unat (sv_last a + 1) = unat (sv_last a) + 1" using that by (simp add: unat_word_ariths)
    then show ?thesis using assms(2) by (auto simp: has_left_def word_le_nat_alt)
  qed
  show "has_left k b" "requests_of k b = requests_of k a"
    using assms up by (auto elim!: service_stepE simp: has_left_def requests_of_def)
qed

lemma run_has_left:
  "service_step\<^sup>*\<^sup>* a b \<Longrightarrow> has_left k a \<Longrightarrow> has_left k b \<and> requests_of k b = requests_of k a"
  by (induction rule: rtranclp_induct) (auto simp: step_has_left)

section \<open>Runs of the service\<close>

lemma arrive_all:
  "\<forall>r \<in> set rs. rq_connID r \<in> sv_clients a \<Longrightarrow> service_step\<^sup>*\<^sup>* a (a\<lparr>sv_waiting := sv_waiting a @ rs\<rparr>)"
proof (induction rs arbitrary: a)
  case (Cons r rs)
  let ?a = "a\<lparr>sv_waiting := sv_waiting a @ [r]\<rparr>"
  have "service_step a ?a" using Cons.prems by (simp add: service_step.arrive)
  moreover have "service_step\<^sup>*\<^sup>* ?a (a\<lparr>sv_waiting := sv_waiting a @ r # rs\<rparr>)"
    using Cons.IH [of ?a] Cons.prems by simp
  ultimately show ?case by (rule converse_rtranclp_into_rtranclp)
qed simp

lemma leave_all: "finite K \<Longrightarrow> service_step\<^sup>*\<^sup>* a (a\<lparr>sv_clients := sv_clients a - K\<rparr>)"
proof (induction arbitrary: a rule: finite_induct)
  case (insert k K)
  have "service_step\<^sup>*\<^sup>* a (a\<lparr>sv_clients := sv_clients a - K\<rparr>)" by (rule insert.IH)
  moreover have "service_step (a\<lparr>sv_clients := sv_clients a - K\<rparr>) (a\<lparr>sv_clients := sv_clients a - insert k K\<rparr>)"
    using service_step.leave [of "a\<lparr>sv_clients := sv_clients a - K\<rparr>" k]
    by (simp add: Diff_insert [symmetric] del: Diff_insert)
  ultimately show ?case by (rule rtranclp.rtrancl_into_rtrancl)
qed simp

section \<open>The server implements it\<close>

definition service_of :: "Server \<Rightarrow> service" where
  "service_of s = \<lparr>sv_last = s_connCount s, sv_clients = dom (map_of (s_connections s)),
     sv_waiting = tp_tasks (s_tpool s), sv_begun = tp_started (s_tpool s)\<rparr>"

abbreviation serves :: "Server \<Rightarrow> Server \<Rightarrow> bool" where
  "serves s s' \<equiv> service_step\<^sup>*\<^sup>* (service_of s) (service_of s')"

lemma service_of_same:
  "s_connCount s' = s_connCount s \<Longrightarrow> s_connections s' = s_connections s \<Longrightarrow>
    tp_tasks (s_tpool s') = tp_tasks (s_tpool s) \<Longrightarrow> tp_started (s_tpool s') = tp_started (s_tpool s) \<Longrightarrow>
    service_of s' = service_of s"
  by (simp add: service_of_def)

lemma enqueue_all: "tp_tasks (fold tp_enqueue rs p) = tp_tasks p @ rs" "tp_started (fold tp_enqueue rs p) = tp_started p"
  by (induction rs arbitrary: p) (simp_all add: tp_enqueue_def tp_push_def Let_def)

lemma on_conn_serves:
  assumes "keeps_peer m" "on_conn k c m s = (r, s')" "server_ok s" "map_of (s_connections s) k = Some c"
  shows "serves s s'"
proof -
  obtain c' w where m: "m (c, s_world s) = (r, (c', w))" and s': "s' = store_conn k c c' w s"
    using on_conn_run [OF assms(2)] .
  obtain rs where rs: "c_requests c' = c_requests c @ rs" "\<forall>r \<in> set rs. rq_connID r = k"
    using keeps_peerD [OF assms(1) m] server_okD(1) [OF assms(3,4)] by (auto simp: same_peer_def)
  have "dom (map_of (s_connections s')) = dom (map_of (s_connections s))"
    using s' assms(4) by (auto simp: store_conn_eq update_conv')
  then have "service_of s' = (service_of s)\<lparr>sv_waiting := sv_waiting (service_of s) @ rs\<rparr>"
    using s' rs(1) by (simp add: service_of_def store_conn_eq enqueue_all)
  moreover have "\<forall>r \<in> set rs. rq_connID r \<in> sv_clients (service_of s)"
    using rs(2) assms(4) by (auto simp: service_of_def)
  ultimately show ?thesis using arrive_all by metis
qed

lemma delete_conn_serves:
  assumes "delete_conn h d k c s = (r, s')" "server_ok s" "map_of (s_connections s) k = Some c"
  shows "serves s s'"
proof -
  obtain q s1 where run: "on_conn k c (ClientConnection_delete h d) s = (q, s1)"
    by (cases "on_conn k c (ClientConnection_delete h d) s")
  then have one: "serves s s1" using on_conn_serves [OF peer.keeps_delete] assms(2,3) by blast
  have "service_of (s1\<lparr>s_connections := AList.delete k (s_connections s1)\<rparr>)
      = (service_of s1)\<lparr>sv_clients := sv_clients (service_of s1) - {k}\<rparr>"
    by (simp add: service_of_def delete_conv')
  then have "service_step (service_of s1) (service_of (s1\<lparr>s_connections := AList.delete k (s_connections s1)\<rparr>))"
    using service_step.leave by metis
  then show ?thesis using one assms(1) run
    by (auto simp: delete_conn_def bindP_def prog_simps split: sum.splits)
qed

lemma handleCommand_serves:
  assumes "server_ok s" "handleCommand h d cmd s = (r, s')"
  shows "serves s s'"
proof (cases "map_of (s_connections s) (cmd_connID cmd)")
  case None
  then have "s' = s" using assms onErr_state by (auto simp: handleCommand_def dest: arg_cong [where f = snd])
  then show ?thesis by simp
next
  case (Some c)
  with assms show ?thesis
    using on_conn_serves [OF peer.keeps_send _ assms(1) Some] on_conn_serves [OF peer.keeps_close _ assms(1) Some]
    by (auto simp: handleCommand_def split: option.splits CommandType.splits)
qed

lemma handle_all_serves:
  "handle_all (handleCommand h d) (dequeue s_commandQueue set_queue) cmds s = (r, s') \<Longrightarrow>
    server_ok s \<Longrightarrow> serves s s'"
proof (induction cmds arbitrary: s)
  case (Cons cmd cmds)
  let ?s = "dequeue s_commandQueue set_queue cmd s"
  obtain q s1 where one: "handleCommand h d cmd ?s = (q, s1)" by (cases "handleCommand h d cmd ?s")
  have ok: "server_ok ?s" "service_of ?s = service_of s"
    using Cons.prems(2) by (simp_all add: dequeue_def server_ok_def service_of_def)
  then have "serves s s1" "server_ok s1" using one handleCommand_serves handleCommand_ok by metis+
  then show ?case using Cons one rtranclp_trans by (cases q) fastforce+
qed simp

lemma accept_all_serves:
  "server_ok s \<Longrightarrow> fresh_fds fds s \<Longrightarrow> serves s (fold accept_one fds s)"
proof (induction fds arbitrary: s)
  case (Cons fd fds)
  have "service_of (accept_one fd s) = (service_of s)\<lparr>sv_last := sv_last (service_of s) + 1,
      sv_clients := insert (sv_last (service_of s) + 1) (sv_clients (service_of s))\<rparr>"
    by (simp add: service_of_def accept_one_fields update_conv')
  moreover have "unat (sv_last (service_of s)) + 1 < 2 ^ 64"
    using Cons.prems(2) by (simp add: fresh_fds_def service_of_def)
  ultimately have "service_step (service_of s) (service_of (accept_one fd s))"
    using service_step.join by metis
  moreover have "serves (accept_one fd s) (fold accept_one fds (accept_one fd s))"
    using Cons.IH accept_one_ok [OF Cons.prems] by blast
  ultimately show ?case by (simp add: converse_rtranclp_into_rtranclp)
qed simp

lemma handle_event_serves:
  assumes "server_ok s" "ev_fd ev = s_socket s \<longrightarrow> fresh_fds (ev_accepts ev) s"
    and run: "handle_event h d ev s = (r, s')"
  shows "serves s s'"
proof -
  consider (cmds) "drain_commands h d (s\<lparr>s_wakeups := 0\<rparr>) = (r, s')"
    | (accept) "ev_fd ev = s_socket s" "s' = fold accept_one (ev_accepts ev) s"
    | (nothing) "s' = s"
    | (delete) k c where "map_of (s_connections s) k = Some c" "delete_conn h d k c s = (r, s')"
    | (read) k c q s1 where "map_of (s_connections s) k = Some c"
        "on_conn k c (readFd h d (ev_chunks ev) (ev_end ev)) s = (q, s1)"
        "s' = s1 \<or> (\<exists>c'. map_of (s_connections s1) k = Some c' \<and> delete_conn h d k c' s1 = (r, s'))"
    using run by (fastforce simp: handle_event_def bindP_def split: if_splits option.splits prod.splits sum.splits)
  then show ?thesis
  proof cases
    case cmds
    have "server_ok (s\<lparr>s_wakeups := 0\<rparr>)" "service_of (s\<lparr>s_wakeups := 0\<rparr>) = service_of s"
      using assms(1) by (simp_all add: server_ok_def service_of_def)
    then show ?thesis using cmds unfolding drain_commands_all by (metis handle_all_serves)
  next
    case accept
    then show ?thesis using assms(1,2) accept_all_serves by blast
  next
    case delete
    then show ?thesis using delete_conn_serves assms(1) by blast
  next
    case (read k c q s1)
    then have "serves s s1" "server_ok s1"
      using on_conn_serves [OF peer.keeps_readFd] on_conn_ok(1) [OF peer.keeps_readFd] assms(1) by blast+
    then show ?thesis using read(3) delete_conn_serves rtranclp_trans by metis
  qed simp
qed

lemma check_serves: "serves s (s\<lparr>s_tpool := worker_check i (s_tpool s)\<rparr>)"
proof (cases "tp_tasks (s_tpool s)")
  case Nil
  then have "service_of (s\<lparr>s_tpool := worker_check i (s_tpool s)\<rparr>) = service_of s"
    by (intro service_of_same) (simp_all add: worker_check_def set_worker_def tp_pop_def)
  then show ?thesis by simp
next
  case (Cons r rs)
  then have "service_of (s\<lparr>s_tpool := worker_check i (s_tpool s)\<rparr>)
      = (service_of s)\<lparr>sv_waiting := rs, sv_begun := sv_begun (service_of s) @ [r]\<rparr>"
    by (simp add: service_of_def worker_check_def set_worker_def tp_pop_def)
  moreover have "sv_waiting (service_of s) = r # rs" using Cons by (simp add: service_of_def)
  ultimately show ?thesis using service_step.start by (metis r_into_rtranclp)
qed

lemma server_step_serves:
  assumes "server_inv n s" "server_step h d s s'"
  shows "serves s s'"
  using assms(2)
proof (cases rule: server_step.cases)
  case (listening l r)
  then show ?thesis using service_of_same listen_setup_keeps by (metis rtranclp.rtrancl_refl)
next
  case (event ev u)
  then show ?thesis using handle_event_serves assms(1) by (auto simp: server_inv_def)
next
  case (thrown ev x)
  then show ?thesis using handle_event_serves assms(1) by (auto simp: server_inv_def)
next
  case (take i)
  then show ?thesis using check_serves by simp
next
  case (respond resp u)
  then have "queues_only s s'" using sendResponse_queues [of s resp] by simp
  then have "service_of s' = service_of s" using queues_only_fields by (simp add: service_of_def)
  then show ?thesis by simp
next
  case (close k u)
  then have "queues_only s s'" using closeConnection_queues [of s k] by simp
  then have "service_of s' = service_of s" using queues_only_fields by (simp add: service_of_def)
  then show ?thesis by simp
next
  case (stopping u)
  then have "service_of s' = (service_of s)\<lparr>sv_clients := sv_clients (service_of s) - sv_clients (service_of s)\<rparr>"
    using stop_empties [OF stopping] by (simp add: service_of_def)
  moreover have "finite (sv_clients (service_of s))" by (simp add: service_of_def finite_dom_map_of)
  ultimately show ?thesis using leave_all by metis
qed (simp_all add: service_of_def route_def route_func_def setOnError_def worker_finish_def set_worker_def)

lemma server_run_inv: "(server_step h d)\<^sup>*\<^sup>* s s' \<Longrightarrow> server_inv n s \<Longrightarrow> server_inv n s' \<and> serves s s'"
proof (induction rule: rtranclp_induct)
  case (step s1 s2)
  then show ?case using server_step_inv server_step_serves rtranclp_trans by metis
qed simp

lemma server_reach_serves: "server_reach h d n s \<Longrightarrow> \<exists>count. service_step\<^sup>*\<^sup>* (service_start count) (service_of s)"
proof (induction rule: server_reach.induct)
  case (construct port privKey maxConnections maxFrameSize count w)
  have "service_of (Server_new port privKey n maxConnections maxFrameSize count w) = service_start count"
    by (simp add: service_of_def Server_new_def service_start_def ThreadPool_def)
  then show ?case by (metis rtranclp.rtrancl_refl)
next
  case (step s s')
  then show ?case using server_step_serves [OF server_reach_inv] rtranclp_trans by metis
qed

section \<open>Properties\<close>

text \<open>
  C6: the server implements the service. Whatever it has been through, its clients, waiting and
  begun requests are a state the service reaches; and each of its steps, an event with any bytes,
  a command, a worker's section, a call from any thread or \<open>stop\<close>, is a run of the service: clients
  join under fresh identifiers, requests arrive from present clients only and start in their order.
\<close>

theorem server_refines_service:
  assumes "server_reach h d n s"
  shows "(\<exists>count. service_step\<^sup>*\<^sup>* (service_start count) (service_of s))
    \<and> (\<forall>s'. server_step h d s s' \<longrightarrow> service_step\<^sup>*\<^sup>* (service_of s) (service_of s'))"
  using server_reach_serves [OF assms] server_step_serves [OF server_reach_inv [OF assms]] by blast

text \<open>
  C16: a connection that has gone stays gone. Once no connection is stored under an identifier
  given out before, none ever is again, and no further request with that identifier reaches the
  pool, whatever events, reused descriptors, threads and calls follow.
\<close>

theorem gone_for_good:
  assumes "server_reach h d n s" "(server_step h d)\<^sup>*\<^sup>* s s'"
    and "k \<le> s_connCount s" "map_of (s_connections s) k = None"
  shows "map_of (s_connections s') k = None
    \<and> filter (\<lambda>r. rq_connID r = k) (tp_enqueued (s_tpool s')) = filter (\<lambda>r. rq_connID r = k) (tp_enqueued (s_tpool s))"
proof -
  have inv: "server_inv n s" "server_inv n s'" and run: "serves s s'"
    using server_reach_inv [OF assms(1)] server_run_inv [OF assms(2)] by blast+
  have "has_left k (service_of s)" using assms(3,4) by (auto simp: has_left_def service_of_def)
  then have "has_left k (service_of s')" "requests_of k (service_of s') = requests_of k (service_of s)"
    using run_has_left [OF run] by blast+
  moreover have "tp_started (s_tpool t) @ tp_tasks (s_tpool t) = tp_enqueued (s_tpool t)" if "server_inv n t" for t
    using that pool_reach_ok by (auto simp: server_inv_def pool_ok_def)
  ultimately show ?thesis using inv by (auto simp: has_left_def requests_of_def service_of_def)
qed

section \<open>A client comes and goes\<close>

definition stopped_server :: "host \<Rightarrow> Server \<Rightarrow> Server" where
  "stopped_server h s = snd (stop h 1 s)"

theorem server_refines_service_witness:
  "(\<exists>count. service_step\<^sup>*\<^sup>* (service_start count) (service_of one_client))
    \<and> service_step\<^sup>*\<^sup>* (service_of one_client) (service_of (stopped_server sample_host one_client))"
proof -
  have "\<exists>u. stop sample_host 1 one_client = (Inr u, stopped_server sample_host one_client)"
    using stop_runs [of one_client 6 sample_host 0] by (auto simp: stopped_server_def is_open_def)
  then have "server_step sample_host 1 one_client (stopped_server sample_host one_client)"
    by (blast intro: server_step.stopping)
  then show ?thesis using server_refines_service [OF one_client_reach [of sample_host 1]] by blast
qed

theorem gone_for_good_witness:
  "\<exists>s s'. handle_event sample_host 1 (sample_event 5) one_client = (Inr (), s)
    \<and> handle_event sample_host 1 (sample_event 3) s = (Inr (), s')
    \<and> map_of (s_connections s') 1 = None \<and> map_of (s_connections s') 2 \<noteq> None"
proof -
  obtain s where gone: "handle_event sample_host 1 (sample_event 5) one_client = (Inr (), s)"
    and s: "map_of (s_connections s) = (map_of (s_connections one_client))(1 := None)"
      "s_connCount s = 1" "s_socket s = 3" "s_cmdEvFd s = Some 6"
    using delete_conn_open [of sample_conn sample_host 0 1 one_client]
    by (auto simp: handle_event_def)
  let ?s = "accept_one 5 s"
  have again: "handle_event sample_host 1 (sample_event 3) s = (Inr (), ?s)"
    using s by (simp add: handle_event_def)
  have reach: "server_reach sample_host 1 1 s"
    using gone by (intro server_reach.step [OF one_client_reach] server_step.event [of "sample_event 5"]) simp_all
  moreover have "server_step sample_host 1 s ?s"
    using again s by (intro server_step.event [of "sample_event 3"]) (simp_all add: fresh_fds_def)
  ultimately have "map_of (s_connections ?s) 1 = None"
    using gone_for_good [of sample_host 1 1 s ?s 1] s by auto
  moreover have "map_of (s_connections ?s) 2 \<noteq> None" using s(2) by (simp add: accept_one_fields update_conv')
  ultimately show ?thesis using gone again by blast
qed

end
