(* ===== verification/End_To_End.thy ===== *)
theory End_To_End
  imports Server_Shutdown Client_Service
begin

text \<open>
  Client and server together: the bytes the one puts on the wire are the bytes the other reads.
  Both may cut them into chunks as they like.
\<close>

section \<open>The handshake\<close>

text \<open>The key is drawn and encrypted with the time; what is left is the command to send.\<close>

lemma doHandshake_prepares:
  assumes "gcm_laws (h_ssl h)" "gcm_reliable (h_ssl h)" "rsa_pair (h_ssl h) (k_pubKey k) priv"
  obtains key enc w' where
    "doHandshake h (k, w) = handleClientCommand h (sending (makeFrame (k_fid k) STATUS_REQ 0 [] enc (k_rid k + 1) (k_ssid k)))
      (k\<lparr>k_aesKey := key, k_rid := k_rid k + 1\<rparr>, w')"
    "length key = 32" "length enc = 256" "w_out w' = w_out w"
    "\<forall>s2. \<exists>s3. rsaDecrypt (h_ssl h) enc priv s2 = (Inr (key @ u32ToStr (fst (getTimestamp h w))), s3)"
proof -
  let ?ts = "fst (getTimestamp h w)"
  obtain key where key: "RAND_bytes (h_ssl h) (calls (w_crypto w)) 32 = Some key"
    using gcm_reliableD(1) [OF assms(2)] by blast
  have len: "length key = 32" using gcm_lawsD(1) [OF assms(1) key] .
  let ?w1 = "w\<lparr>w_crypto := (w_crypto w)\<lparr>calls := Suc (calls (w_crypto w))\<rparr>\<rparr>"
  have gen: "crypto_io (generateAESKey (h_ssl h)) w = (Inr key, ?w1)"
    using key by (simp add: crypto_io_def generateAESKey_def call_val_def)
  obtain w2 where time: "getTimestamp h ?w1 = (?ts, w2)" and w2: "w_out w2 = w_out w"
    by (simp add: getTimestamp_def)
  have "length (key @ u32ToStr ?ts) \<le> 190" using len by (simp add: u32.enc_length)
  from rsa_decrypts_encrypted [OF assms(3) this, of "w_crypto w2"]
  obtain enc t where enc: "rsaEncrypt (h_ssl h) (key @ u32ToStr ?ts) (k_pubKey k) (w_crypto w2) = (Inr enc, t)"
    "length enc = 256"
    and dec: "\<forall>s2. \<exists>s3. rsaDecrypt (h_ssl h) enc priv s2 = (Inr (key @ u32ToStr ?ts), s3)"
    by blast
  have "crypto_io (rsaEncrypt (h_ssl h) (key @ u32ToStr ?ts) (k_pubKey k)) w2 = (Inr enc, w2\<lparr>w_crypto := t\<rparr>)"
    using enc(1) by (simp add: crypto_io_def)
  then have "doHandshake h (k, w) = handleClientCommand h
      (sending (makeFrame (k_fid k) STATUS_REQ 0 [] enc (k_rid k + 1) (k_ssid k)))
      (k\<lparr>k_aesKey := key, k_rid := k_rid k + 1\<rparr>, w2\<lparr>w_crypto := t\<rparr>)"
    using gen time by (simp add: doHandshake_def client_run client_time_def makeReqFrame_def sending_def)
  then show thesis using that len enc(2) dec w2 by auto
qed

lemma doHandshake_sends:
  assumes "gcm_laws (h_ssl h)" "gcm_reliable (h_ssl h)" "rsa_pair (h_ssl h) (k_pubKey k) priv"
    and "takes h (\<lambda>n. n)" "k_state k = Handshaking" "\<not> k_handshakeSent k"
  obtains key enc w' where
    "doHandshake h (k, w) = (Inr (), (k\<lparr>k_aesKey := key, k_rid := k_rid k + 1, k_handshakeSent := True\<rparr>, w'))"
    "length key = 32" "length enc = 256"
    "\<forall>s2. \<exists>s3. rsaDecrypt (h_ssl h) enc priv s2 = (Inr (key @ u32ToStr (fst (getTimestamp h w))), s3)"
    "wire (k_socket k) w' = wire (k_socket k) w @
      header_of (length (encodeBody (makeFrame (k_fid k) STATUS_REQ 0 [] enc (k_rid k + 1) (k_ssid k)) 0))
      @ encodeBody (makeFrame (k_fid k) STATUS_REQ 0 [] enc (k_rid k + 1) (k_ssid k)) 0"
proof -
  obtain key enc w1 where
    run: "doHandshake h (k, w) = handleClientCommand h (sending (makeFrame (k_fid k) STATUS_REQ 0 [] enc (k_rid k + 1) (k_ssid k)))
      (k\<lparr>k_aesKey := key, k_rid := k_rid k + 1\<rparr>, w1)"
    and P: "length key = 32" "length enc = 256" "w_out w1 = w_out w"
      "\<forall>s2. \<exists>s3. rsaDecrypt (h_ssl h) enc priv s2 = (Inr (key @ u32ToStr (fst (getTimestamp h w))), s3)"
    by (rule doHandshake_prepares [OF assms(1-3)])
  let ?f = "makeFrame (k_fid k) STATUS_REQ 0 [] enc (k_rid k + 1) (k_ssid k)"
  let ?e = "header_of (length (encodeBody ?f 0)) @ encodeBody ?f 0"
  let ?k = "k\<lparr>k_aesKey := key, k_rid := k_rid k + 1, k_handshakeSent := True\<rparr>"
  obtain w2 where snd: "send_once h ?e (?k, w1) = (Inr (), (?k, w2))"
    and out: "wire (k_socket k) w2 = wire (k_socket k) w1 @ ?e"
    using send_once_wire [OF assms(4), of ?e ?k w1] by auto
  have "crypto_io (encodeFrame (h_ssl h) ?f False [] 0) w1 = (Inr ?e, w1)"
    by (simp add: crypto_io_def encodeFrame_plain)
  then have "doHandshake h (k, w) = (Inr (), (?k, w2))"
    using run snd assms(5,6) by (simp add: sending_def handleClientCommand_def client_run)
  moreover have "wire (k_socket k) w1 = wire (k_socket k) w" using P(3) by (simp add: wire_def)
  ultimately show thesis using that P out by auto
qed

text \<open>
  A user thread that calls \<open>close()\<close> before the epoll thread has begun: the state is no longer that of
  the handshake, and the frame that should bring the key to the server is encrypted with that key.
\<close>

lemma late_handshake:
  assumes "gcm_laws (h_ssl h)" "gcm_reliable (h_ssl h)" "rsa_pair (h_ssl h) (k_pubKey k) priv"
    and "takes h t" "k_state k \<noteq> Handshaking"
  obtains key enc w' e where
    "doHandshake h (k, w) = (Inr (), (k\<lparr>k_aesKey := key, k_rid := k_rid k + 1, k_fid := k_fid k + 1\<rparr>, w'))"
    "length key = 32"
    "written h key (makeFrame (k_fid k + 1) STATUS_REQ 0 [] enc (k_rid k + 1) (k_ssid k)) e"
    "wire (k_socket k) w' = wire (k_socket k) w @ take (t (length e)) e"
proof -
  obtain key enc w1 where
    run: "doHandshake h (k, w) = handleClientCommand h (sending (makeFrame (k_fid k) STATUS_REQ 0 [] enc (k_rid k + 1) (k_ssid k)))
      (k\<lparr>k_aesKey := key, k_rid := k_rid k + 1\<rparr>, w1)"
    and P: "length key = 32" "length enc = 256" "w_out w1 = w_out w"
    by (rule doHandshake_prepares [OF assms(1-3)])
  let ?f = "makeFrame (k_fid k) STATUS_REQ 0 [] enc (k_rid k + 1) (k_ssid k)"
  let ?k = "k\<lparr>k_aesKey := key, k_rid := k_rid k + 1\<rparr>"
  have ready: "client_ready h ?k" using assms(1,2) P(1) by (simp add: client_ready_def)
  have "k_state ?k \<noteq> Handshaking" "encodable ?f" using assms(5) P(2) by (simp_all add: encodable_def makeFrame_def)
  then obtain w2 e where "handleClientCommand h (sending ?f) (?k, w1) = (Inr (), (?k\<lparr>k_fid := k_fid ?k + 1\<rparr>, w2))"
    "written h (k_aesKey ?k) (?f\<lparr>fid := k_fid ?k + 1\<rparr>) e"
    "wire (k_socket ?k) w2 = wire (k_socket ?k) w1 @ take (t (length e)) e"
    using frame_on_wire [OF ready _ assms(4)] by metis
  then show thesis using that [of key w2 enc e] run P by (simp add: wire_def makeFrame_def)
qed

text \<open>The client takes the frame that ends the handshake.\<close>

lemma client_secured:
  assumes "client_ready h k" "k_state k = Handshaking" "k_frameBuffer k = []"
    and "sealed_for h k f e" "data f = lit ''Connection secured''" "concat chunks = e"
  shows "\<exists>w'. client_receive h chunks WouldBlock (k, w) =
    (Inr (), (k\<lparr>k_state := Connected, k_ssid := ssid f\<rparr>, w'))"
proof -
  let ?k0 = "k\<lparr>k_frameBuffer := e\<rparr>"
  let ?k1 = "k\<lparr>k_state := Connected, k_ssid := ssid f\<rparr>"
  have "client_ready h ?k0" using assms(1) by (simp add: client_ready_def)
  then obtain w1 where "client_parse_step h [] (?k0, w) = (Inr (Inr []), (?k1, w1))"
    using handshake_frame_taken [of h ?k0 f e "[]" "[]" w] assms(2-5) by auto
  moreover have "client_parse_step h [] (?k1, w1) = (Inr (Inl []), (?k1, w1))"
    using assms(3) by (simp add: client_parse_step_eq Let_def)
  ultimately have "client_parseFrames h [] (?k0, w) = (Inr [], (?k1, w1))"
    by (simp add: client_parse_round [of h "[]" "(?k0, w)"] client_parse_round [of h "[]" "(?k1, w1)"])
  then show ?thesis using assms(3,6) by (simp add: client_receive_run retP_def)
qed

text \<open>What the handshake changes of a connection besides the session, and what it does not.\<close>

definition begun :: "ClientConnection \<Rightarrow> ClientConnection \<Rightarrow> bool" where
  "begun c c' \<longleftrightarrow> c_state c' = ACTIVE \<and> c_inFrameBuffer c' = [] \<and> c_fid c' = c_fid c + 1
    \<and> c_connId c' = c_connId c \<and> c_fd c' = c_fd c \<and> c_maxFrameSize c' = c_maxFrameSize c
    \<and> c_lastCliFid c' = c_lastCliFid c \<and> c_requests c' = c_requests c"

lemma handshake_done:
  assumes lib: "h_ssl hs = h_ssl hc" "gcm_laws (h_ssl hc)" "gcm_reliable (h_ssl hc)"
      "rsa_pair (h_ssl hc) (k_pubKey k) (c_rsaPrivKey c)"
    and net: "takes hc (\<lambda>n. n)" "sends_succeed hs"
    and client: "k_state k = Handshaking" "\<not> k_handshakeSent k" "k_frameBuffer k = []"
      "75 \<le> unat (k_maxFrameSize k)"
    and server: "fresh_conn c" "c_inFrameBuffer c = []" "285 \<le> unat (c_maxFrameSize c)"
    and clocks: "\<not> fst (getTimestamp hc wk) - fst (getTimestamp hs ws) > 60"
  shows "\<exists>wk1 hi key. doHandshake hc (k, wk)
      = (Inr (), (k\<lparr>k_aesKey := key, k_rid := k_rid k + 1, k_handshakeSent := True\<rparr>, wk1)) \<and> length key = 32
    \<and> wire (k_socket k) wk1 = wire (k_socket k) wk @ hi
    \<and> (\<forall>chunks. concat chunks = hi \<longrightarrow>
        (\<exists>c' ws' e. readFd hs (Suc d) chunks WouldBlock (c, ws) = (Inr True, (c', ws'))
          \<and> begun c c' \<and> c_aesKey c' = key \<and> wire (c_fd c) ws' = wire (c_fd c) ws @ e
          \<and> (\<forall>chunks' wk2. concat chunks' = e \<longrightarrow>
              (\<exists>wk3. client_receive hc chunks' WouldBlock
                  (k\<lparr>k_aesKey := key, k_rid := k_rid k + 1, k_handshakeSent := True\<rparr>, wk2)
                = (Inr (), (k\<lparr>k_aesKey := key, k_rid := k_rid k + 1, k_handshakeSent := True,
                    k_state := Connected, k_ssid := c_ssid c'\<rparr>, wk3))))))"
proof -
  obtain key enc wk1 where run: "doHandshake hc (k, wk)
      = (Inr (), (k\<lparr>k_aesKey := key, k_rid := k_rid k + 1, k_handshakeSent := True\<rparr>, wk1))"
    and len: "length key = 32" "length enc = 256"
    and dec: "\<forall>s2. \<exists>s3. rsaDecrypt (h_ssl hc) enc (c_rsaPrivKey c) s2
      = (Inr (key @ u32ToStr (fst (getTimestamp hc wk))), s3)"
    and out: "wire (k_socket k) wk1 = wire (k_socket k) wk @
      header_of (length (encodeBody (makeFrame (k_fid k) STATUS_REQ 0 [] enc (k_rid k + 1) (k_ssid k)) 0))
      @ encodeBody (makeFrame (k_fid k) STATUS_REQ 0 [] enc (k_rid k + 1) (k_ssid k)) 0"
    by (rule doHandshake_sends [OF lib(2-4) net(1) client(1,2)])
  let ?k1 = "k\<lparr>k_aesKey := key, k_rid := k_rid k + 1, k_handshakeSent := True\<rparr>"
  let ?f = "makeFrame (k_fid k) STATUS_REQ 0 [] enc (k_rid k + 1) (k_ssid k)"
  let ?hi = "header_of (length (encodeBody ?f 0)) @ encodeBody ?f 0"
  have f: "path ?f = []" "data ?f = enc" by (simp_all add: makeFrame_def)
  have hello: "hello hs c ?f key (fst (getTimestamp hc wk))"
    using len dec lib(1) server(3) f by (simp add: hello_def)
  have ssl: "gcm_laws (h_ssl hs)" "gcm_reliable (h_ssl hs)" using lib by simp_all
  have "\<exists>c' ws' e. readFd hs (Suc d) chunks WouldBlock (c, ws) = (Inr True, (c', ws'))
      \<and> begun c c' \<and> c_aesKey c' = key \<and> wire (c_fd c) ws' = wire (c_fd c) ws @ e
      \<and> (\<forall>chunks' wk2. concat chunks' = e \<longrightarrow>
          (\<exists>wk3. client_receive hc chunks' WouldBlock (?k1, wk2)
            = (Inr (), (?k1\<lparr>k_state := Connected, k_ssid := c_ssid c'\<rparr>, wk3))))"
    if chunks: "concat chunks = ?hi" for chunks
  proof -
    obtain c' ws' e s s' where srv: "readFd hs (Suc d) chunks WouldBlock (c, ws) = (Inr True, (c', ws'))"
      and c': "c_state c' = ACTIVE" "c_aesKey c' = key" "c_lastCliFid c' = c_lastCliFid c" "c_fid c' = c_fid c + 1"
        "c_fd c' = c_fd c" "c_requests c' = c_requests c" "c_inFrameBuffer c' = []"
        "c_maxFrameSize c' = c_maxFrameSize c" "wire (c_fd c) ws' = wire (c_fd c) ws @ e"
      and e: "encodeFrame (h_ssl hs) (makeFrame (c_fid c) STATUS_OK 0 [] (lit ''Connection secured'') 0 (c_ssid c'))
         True key (c_fid c + 1) s = (Inr e, s')"
      by (rule hello_accepted [OF server(1,2) hello chunks ssl net(2) clocks])
    let ?g = "renumber (c_fid c + 1) (makeFrame (c_fid c) STATUS_OK 0 [] (lit ''Connection secured'') 0 (c_ssid c'))"
    have g: "path ?g = []" "data ?g = lit ''Connection secured''" "ssid ?g = c_ssid c'"
      by (simp_all add: makeFrame_def)
    have sealed: "sealed (h_ssl hc) key (k_maxFrameSize k) ?g e"
      using e client(4) lib(1) g by (auto simp: sealed_def encodeFrame_renumber [where r = "c_fid c + 1"])
    have "client_ready hc ?k1" using lib len by (simp add: client_ready_def)
    then have "\<exists>wk3. client_receive hc chunks' WouldBlock (?k1, wk2)
        = (Inr (), (?k1\<lparr>k_state := Connected, k_ssid := ssid ?g\<rparr>, wk3))" if "concat chunks' = e" for chunks' wk2
      by (rule client_secured) (use sealed client g that in simp_all)
    moreover have "begun c c'"
      using c' keeps_peerD [OF peer.keeps_readFd srv] by (simp add: begun_def same_peer_def)
    ultimately show ?thesis using srv c'(2,9) g(3) by metis
  qed
  then show ?thesis using run out len(1) by blast
qed

text \<open>
  The two ends agree. With a key pair, a working library, sockets that take what they are
  given, and clocks that agree within the window, the handshake bytes of a new client make a new
  connection of the server active, the server's answer makes the client connected, and both then
  hold the same 32-byte AES key and the same session identifier, however the bytes are cut.
\<close>

lemma handshake_completes:
  assumes lib: "h_ssl hs = h_ssl hc" "gcm_laws (h_ssl hc)" "gcm_reliable (h_ssl hc)"
      "rsa_pair (h_ssl hc) (k_pubKey k) (c_rsaPrivKey c)"
    and net: "takes hc (\<lambda>n. n)" "sends_succeed hs"
    and client: "k_state k = Handshaking" "\<not> k_handshakeSent k" "k_frameBuffer k = []"
      "75 \<le> unat (k_maxFrameSize k)"
    and server: "fresh_conn c" "c_inFrameBuffer c = []" "285 \<le> unat (c_maxFrameSize c)"
    and clocks: "\<not> fst (getTimestamp hc wk) - fst (getTimestamp hs ws) > 60"
  shows "\<exists>k1 wk1 hi. doHandshake hc (k, wk) = (Inr (), (k1, wk1))
    \<and> wire (k_socket k) wk1 = wire (k_socket k) wk @ hi
    \<and> (\<forall>chunks. concat chunks = hi \<longrightarrow>
        (\<exists>c' ws' e. readFd hs (Suc d) chunks WouldBlock (c, ws) = (Inr True, (c', ws'))
          \<and> c_state c' = ACTIVE \<and> wire (c_fd c) ws' = wire (c_fd c) ws @ e
          \<and> (\<forall>chunks' wk2. concat chunks' = e \<longrightarrow>
              (\<exists>k2 wk3. client_receive hc chunks' WouldBlock (k1, wk2) = (Inr (), (k2, wk3))
                \<and> k_state k2 = Connected \<and> k_aesKey k2 = c_aesKey c' \<and> length (k_aesKey k2) = 32
                \<and> k_ssid k2 = c_ssid c' \<and> k_responses k2 = k_responses k))))"
  using handshake_done [OF assms, of d]
  by (elim exE conjE) (intro exI conjI, assumption, assumption, fastforce simp: begun_def)

section \<open>A request and its response\<close>

text \<open>The two ends of one session between messages.\<close>

definition paired :: "Connection \<Rightarrow> ClientConnection \<Rightarrow> bool" where
  "paired k c \<longleftrightarrow> k_state k = Connected \<and> c_state c = ACTIVE \<and> k_aesKey k = c_aesKey c
    \<and> length (c_aesKey c) = 32 \<and> k_ssid k = c_ssid c \<and> k_frameBuffer k = [] \<and> c_inFrameBuffer c = []"

text \<open>What a well-behaved client queue and event put on the wire.\<close>

lemma request_on_wire:
  assumes "client_ready h k" "k_running k" "k_state k = Connected" "cq_queue (k_commandQueue k) = []"
    and "kv_fd ev = k_cmdEvFd k" "takes h (\<lambda>n. n)"
    and "length pa < 2 ^ 16" "57 + length pa + length d \<le> unat mx" "57 + length pa + length d < 2 ^ 31"
  obtains k1 k2 w2 e where "queue_request pa d (k, w) = (Inr True, (k1, w))"
    "handle_client_event h ev (k1, w) = (Inr (), (k2, w2))"
    "sealed (h_ssl h) (k_aesKey k) mx (makeFrame (k_fid k + 1) STATUS_REQ 0 pa d (k_rid k + 1) (k_ssid k)) e"
    "wire (k_socket k) w2 = wire (k_socket k) w @ e"
    "k2 = k\<lparr>k_rid := k_rid k + 1, k_wakeups := 0, k_commandQueue := k_commandQueue k\<lparr>cq_queue := []\<rparr>,
      k_fid := k_fid k + 1\<rparr>"
proof -
  have ne: "k_state k \<noteq> Closed" using assms(3) by simp
  obtain k1 where q: "queue_request pa d (k, w) = (Inr True, (k1, w))"
    using assms(2) ne by (simp add: queue_request_run)
  show thesis using request_sent [OF assms q] that [OF q] by auto
qed

lemma server_reads_one:
  assumes "can_decode h c" "c_state c = ACTIVE" "c_inFrameBuffer c = []" "encodes h c f e"
    and "concat chunks = e" "ssid f = c_ssid c" "c_lastCliFid c < fid f"
  obtains w' where "readFd h d chunks WouldBlock (c, w) = (Inr True, (server_record f c, w'))"
    "w_out w' = w_out w"
proof -
  have "server_admits c f" using assms(6,7) by (simp add: server_admits_def not_le)
  moreover have "(server_record f c)\<lparr>c_inFrameBuffer := []\<rparr> = server_record f c"
    using assms(3) by (simp add: server_record_def)
  ultimately show thesis
    using ss.read_stream [of h c "[]" "[f]" "[e]" chunks d w] assms(1-5) that by auto
qed

lemma client_reads_one:
  assumes "client_ready h k" "k_state k = Connected" "k_frameBuffer k = []" "sealed_for h k f e"
    and "concat chunks = e" "ssid f = k_ssid k" "k_lastSrvFid k < fid f" "polite k"
  shows "\<exists>w'. client_receive h chunks WouldBlock (k, w) = (Inr (), (client_record f k, w'))"
proof -
  have "client_admits k f" using assms(6,7) by (simp add: client_admits_def not_le)
  moreover have "(client_record f k)\<lparr>k_frameBuffer := []\<rparr> = client_record f k"
    using assms(3) client_record_buffer [where k = k and b = "[]" and f = f] by simp
  ultimately show ?thesis
    using ks.read_stream [of h k "[]" "[f]" "[e]" chunks w] assms(1-5,8) by auto
qed

text \<open>The event of the request at the server: the request is in the pool, the connection goes on.\<close>

lemma server_event_handled:
  assumes "map_of (s_connections s) (c_connId c) = Some c" "map_of (s_fdToId s) (c_fd c) = Some (c_connId c)"
    and "Some (c_fd c) \<noteq> s_cmdEvFd s" "c_fd c \<noteq> s_socket s"
    and "ev_fd ev = c_fd c" "\<not> ev_hup ev" "ev_in ev" "ev_end ev = WouldBlock"
    and "readFd h d (ev_chunks ev) WouldBlock (c, s_world s) = (Inr True, (c', w'))" "c_state c' = ACTIVE"
  shows "handle_event h d ev s = (Inr (), store_conn (c_connId c) c c' w' s)"
  using assms by (simp add: handle_event_def bindP_def on_conn_def store_conn_eq update_conv')

lemma server_event_reads:
  assumes "map_of (s_connections s) (c_connId c) = Some c" "map_of (s_fdToId s) (c_fd c) = Some (c_connId c)"
    and "Some (c_fd c) \<noteq> s_cmdEvFd s" "c_fd c \<noteq> s_socket s"
    and "ev_fd ev = c_fd c" "\<not> ev_hup ev" "ev_in ev" "ev_end ev = WouldBlock"
    and "readFd h d (ev_chunks ev) WouldBlock (c, s_world s) = (Inr True, (server_record f c, w'))"
    and "c_state c = ACTIVE"
  shows "handle_event h d ev s = (Inr (), s\<lparr>s_connections := AList.update (c_connId c) (server_record f c)
      (s_connections s), s_world := w', s_tpool := tp_enqueue (request_of c f) (s_tpool s)\<rparr>)"
  using server_event_handled [OF assms(1-9)] assms(10) by (simp add: store_conn_eq server_record_def)

text \<open>An event that brings bytes, in any chunks, on a descriptor.\<close>

definition brings :: "int \<Rightarrow> bytes \<Rightarrow> epoll_ev \<Rightarrow> bool" where
  "brings fd bs ev \<longleftrightarrow> ev_fd ev = fd \<and> \<not> ev_hup ev \<and> ev_in ev \<and> ev_end ev = WouldBlock
    \<and> concat (ev_chunks ev) = bs"

text \<open>A server at rest that knows the connection \<open>c\<close>; \<open>e\<close> is its eventfd, \<open>i\<close> a worker.\<close>

definition serving :: "int \<Rightarrow> nat \<Rightarrow> ClientConnection \<Rightarrow> Server \<Rightarrow> bool" where
  "serving e i c s \<longleftrightarrow> map_of (s_connections s) (c_connId c) = Some c
    \<and> map_of (s_fdToId s) (c_fd c) = Some (c_connId c) \<and> s_cmdEvFd s = Some e \<and> c_fd c \<noteq> e
    \<and> c_fd c \<noteq> s_socket s \<and> s_alive s \<and> cq_queue (s_commandQueue s) = []
    \<and> tp_tasks (s_tpool s) = [] \<and> i < length (tp_workers (s_tpool s))"

text \<open>The server's three steps: reading the request, the worker's turn, sending the answer.\<close>

lemma server_serves:
  assumes can: "can_send hs c" "c_state c = ACTIVE" "c_inFrameBuffer c = []"
    and frame: "encodes hs c f rq" "ssid f = c_ssid c" "c_lastCliFid c < fid f" "brings (c_fd c) rq sev"
    and server: "serving e i c s"
    and route: "answers s (request_of c f) dt st" "length (path f) < 2 ^ 16"
      "length (path f) + length dt + 20 < 2 ^ 31" "ev_fd wev = e"
  obtains s1 s2 s3 rp t t' where "handle_event hs (Suc n) sev s = (Inr (), s1)"
    "worker_turn i s1 = (Inr (), s2)" "handle_event hs (Suc n) wev s2 = (Inr (), s3)"
    "wire (c_fd c) (s_world s3) = wire (c_fd c) (s_world s) @ rp"
    "encodeFrame (h_ssl hs) (makeRespFrame c (path f) dt st 0 (rid f)) True (c_aesKey c) (c_fid c + 1) t
       = (Inr rp, t')"
    "serving e i ((server_record f c)\<lparr>c_fid := c_fid c + 1\<rparr>) s3" "same_setup s s3"
proof -
  let ?req = "request_of c f" and ?c = "server_record f c"
  note server = server [unfolded serving_def]
  have req: "rq_connID ?req = c_connId c" "rq_path ?req = path f" "rq_rid ?req = rid f"
    by (simp_all add: request_of_def Request_of_def)
  have dec: "can_decode hs c" using can(1) by (simp add: can_send_def can_decode_def)
  have ev: "ev_fd sev = c_fd c" "\<not> ev_hup sev" "ev_in sev" "ev_end sev = WouldBlock"
    "concat (ev_chunks sev) = rq"
    using frame(4) by (simp_all add: brings_def)
  obtain w' where rd: "readFd hs (Suc n) (ev_chunks sev) WouldBlock (c, s_world s) = (Inr True, (?c, w'))"
    and w': "w_out w' = w_out (s_world s)"
    by (rule server_reads_one [OF dec can(2,3) frame(1) ev(5) frame(2,3)])
  let ?s1 = "s\<lparr>s_connections := AList.update (c_connId c) ?c (s_connections s), s_world := w',
    s_tpool := tp_enqueue ?req (s_tpool s)\<rparr>"
  have e1: "handle_event hs (Suc n) sev s = (Inr (), ?s1)"
    by (rule server_event_reads [OF _ _ _ _ ev(1-4) rd can(2)]) (use server in simp_all)
  have send: "can_send hs ?c" using can(1) by (simp add: can_send_def server_record_def)
  have srv: "s_alive ?s1" "s_cmdEvFd ?s1 = Some e" "cq_queue (s_commandQueue ?s1) = []"
    "map_of (s_connections ?s1) (rq_connID ?req) = Some ?c" "tp_tasks (s_tpool ?s1) = [?req]"
    "i < length (tp_workers (s_tpool ?s1))"
    using server req by (simp_all add: update_conv' tp_enqueue_def tp_push_def Let_def)
  have ans: "answers ?s1 ?req dt st" using route(1) answers_cong [of ?s1 s] by simp
  obtain s2 s3 rp t t' where "worker_turn i ?s1 = (Inr (), s2)"
    "handle_event hs (Suc n) wev s2 = (Inr (), s3)"
    "wire (c_fd ?c) (s_world s3) = wire (c_fd ?c) (s_world ?s1) @ rp"
    "encodeFrame (h_ssl hs) (makeRespFrame ?c (rq_path ?req) dt st 0 (rq_rid ?req)) True (c_aesKey ?c)
       (c_fid ?c + 1) t = (Inr rp, t')"
    and s3: "map_of (s_connections s3) (rq_connID ?req) = Some (?c\<lparr>c_fid := c_fid ?c + 1\<rparr>)" "same_setup ?s1 s3"
      "cq_queue (s_commandQueue s3) = []" "tp_tasks (s_tpool s3) = []"
    by (rule answer_on_wire [OF srv(1-4) send srv(5,6) ans _ _ route(4), of n])
      (use route(2,3) req in simp_all)
  moreover have "wire fd w' = wire fd (s_world s)" for fd using w' by (simp add: wire_def)
  moreover have "same_setup s s3"
    using s3(2) by (simp add: same_setup_def tp_enqueue_def tp_push_def Let_def)
  moreover have "serving e i (?c\<lparr>c_fid := c_fid c + 1\<rparr>) s3"
    using s3 server req \<open>same_setup s s3\<close> by (simp add: serving_def same_setup_def server_record_def)
  ultimately show thesis
    using that [OF e1] req by (simp add: server_record_def makeRespFrame_def)
qed

text \<open>The client's step: the bytes of an answer become one response.\<close>

lemma response_received:
  assumes "client_ready hc k" "k_state k = Connected" "k_frameBuffer k = []"
    and "encodeFrame (h_ssl hc) (makeRespFrame c pa dt st 0 ri) True (k_aesKey k) (c_fid c + 1) t = (Inr rp, t')"
    and "c_ssid c = k_ssid k" "k_lastSrvFid k < c_fid c + 1" "length pa < 2 ^ 16"
    and "57 + length pa + length dt \<le> unat (k_maxFrameSize k)" "57 + length pa + length dt < 2 ^ 31"
    and "concat chunks = rp" "polite k"
  defines "g \<equiv> renumber (c_fid c + 1) (makeRespFrame c pa dt st 0 ri)"
  shows "\<exists>w'. client_receive hc chunks WouldBlock (k, w) = (Inr (), (client_record g k, w'))"
    "fid g = c_fid c + 1" "ClientResponse_of g = \<lparr>cr_path = pa, cr_data = dt, cr_status = st\<rparr>"
proof -
  let ?g = g
  have nz: "c_fid c + 1 \<noteq> 0" using assms(6) by (auto simp: word_less_nat_alt)
  then have g: "path ?g = pa" "data ?g = dt" "ssid ?g = k_ssid k" "status ?g = st" "k_lastSrvFid k < fid ?g"
    using assms(5,6) by (simp_all add: g_def makeRespFrame_def makeFrame_def renumber_def)
  have sealed: "sealed_for hc k ?g rp"
    using assms(4,7-9) g by (auto simp: g_def sealed_def encodeFrame_renumber [where r = "c_fid c + 1"])
  show "\<exists>w'. client_receive hc chunks WouldBlock (k, w) = (Inr (), (client_record ?g k, w'))"
    by (rule client_reads_one [OF assms(1-3) sealed assms(10) g(3,5) assms(11)])
  show "fid g = c_fid c + 1" using nz by (simp add: g_def renumber_def)
  show "ClientResponse_of g = \<lparr>cr_path = pa, cr_data = dt, cr_status = st\<rparr>"
    using g by (simp add: ClientResponse_of_def)
qed

text \<open>One request, all the way, with the states in which it leaves the two ends.\<close>

lemma round_trip:
  assumes lib: "h_ssl hs = h_ssl hc" "gcm_laws (h_ssl hc)" "gcm_reliable (h_ssl hc)"
    and net: "takes hc (\<lambda>n. n)" "sends_succeed hs"
    and pair: "paired k c" "polite k" "k_running k" "cq_queue (k_commandQueue k) = []"
      "c_lastCliFid c < k_fid k + 1" "k_lastSrvFid k < c_fid c + 1"
    and server: "serving e i c s"
    and route: "answers s \<lparr>rq_connID = c_connId c, rq_path = pa, rq_data = d, rq_rid = k_rid k + 1\<rparr> dt st"
    and size: "length pa < 2 ^ 16" "57 + length pa + length d \<le> unat (c_maxFrameSize c)"
      "57 + length pa + length d < 2 ^ 31" "57 + length pa + length dt \<le> unat (k_maxFrameSize k)"
      "57 + length pa + length dt < 2 ^ 31"
    and events: "kv_fd cev = k_cmdEvFd k" "ev_fd wev = e"
  defines "k2 \<equiv> k\<lparr>k_rid := k_rid k + 1, k_wakeups := 0, k_commandQueue := k_commandQueue k\<lparr>cq_queue := []\<rparr>,
      k_fid := k_fid k + 1\<rparr>"
    and "c2 \<equiv> (server_record (makeFrame (k_fid k + 1) STATUS_REQ 0 pa d (k_rid k + 1) (k_ssid k)) c)\<lparr>c_fid := c_fid c + 1\<rparr>"
  shows "\<exists>k1 w2 rq. queue_request pa d (k, w) = (Inr True, (k1, w))
    \<and> handle_client_event hc cev (k1, w) = (Inr (), (k2, w2))
    \<and> wire (k_socket k) w2 = wire (k_socket k) w @ rq
    \<and> (\<forall>sev. brings (c_fd c) rq sev \<longrightarrow>
        (\<exists>s1 s2 s3 rp g. handle_event hs (Suc n) sev s = (Inr (), s1) \<and> worker_turn i s1 = (Inr (), s2)
          \<and> handle_event hs (Suc n) wev s2 = (Inr (), s3)
          \<and> wire (c_fd c) (s_world s3) = wire (c_fd c) (s_world s) @ rp
          \<and> serving e i c2 s3 \<and> same_setup s s3 \<and> fid g = c_fid c + 1
          \<and> ClientResponse_of g = \<lparr>cr_path = pa, cr_data = dt, cr_status = st\<rparr>
          \<and> (\<forall>chunks w3. concat chunks = rp \<longrightarrow>
              (\<exists>w4. client_receive hc chunks WouldBlock (k2, w3) = (Inr (), (client_record g k2, w4))))))"
proof -
  note P = pair(1) [unfolded paired_def]
  have ready: "client_ready hc k" using lib P by (simp add: client_ready_def)
  have conn: "k_state k = Connected" using P by simp
  obtain k1 k2' w2 rq where q: "queue_request pa d (k, w) = (Inr True, (k1, w))"
    and ce: "handle_client_event hc cev (k1, w) = (Inr (), (k2', w2))"
    and rq: "sealed (h_ssl hc) (k_aesKey k) (c_maxFrameSize c)
      (makeFrame (k_fid k + 1) STATUS_REQ 0 pa d (k_rid k + 1) (k_ssid k)) rq"
    and out: "wire (k_socket k) w2 = wire (k_socket k) w @ rq"
    and k2': "k2' = k\<lparr>k_rid := k_rid k + 1, k_wakeups := 0, k_commandQueue := k_commandQueue k\<lparr>cq_queue := []\<rparr>,
      k_fid := k_fid k + 1\<rparr>"
    by (rule request_on_wire [OF ready pair(3) conn pair(4) events(1) net(1) size(1-3)])
  have k2: "k2' = k2" by (simp add: k2' k2_def)
  let ?f = "makeFrame (k_fid k + 1) STATUS_REQ 0 pa d (k_rid k + 1) (k_ssid k)"
  have f: "encodes hs c ?f rq" "ssid ?f = c_ssid c" "c_lastCliFid c < fid ?f" "path ?f = pa" "rid ?f = k_rid k + 1"
    "request_of c ?f = \<lparr>rq_connID = c_connId c, rq_path = pa, rq_data = d, rq_rid = k_rid k + 1\<rparr>"
    using lib P rq pair(5) by (simp_all add: encodes_def makeFrame_def request_of_def Request_of_def)
  have short: "length (path ?f) < 2 ^ 16" "length (path ?f) + length dt + 20 < 2 ^ 31" using size f(4) by simp_all
  have can: "can_send hs c" "c_state c = ACTIVE" "c_inFrameBuffer c = []"
    using lib net P by (simp_all add: can_send_def)
  have "\<exists>s1 s2 s3 rp g. handle_event hs (Suc n) sev s = (Inr (), s1) \<and> worker_turn i s1 = (Inr (), s2)
          \<and> handle_event hs (Suc n) wev s2 = (Inr (), s3)
          \<and> wire (c_fd c) (s_world s3) = wire (c_fd c) (s_world s) @ rp
          \<and> serving e i c2 s3 \<and> same_setup s s3 \<and> fid g = c_fid c + 1
          \<and> ClientResponse_of g = \<lparr>cr_path = pa, cr_data = dt, cr_status = st\<rparr>
          \<and> (\<forall>chunks w3. concat chunks = rp \<longrightarrow>
              (\<exists>w4. client_receive hc chunks WouldBlock (k2, w3) = (Inr (), (client_record g k2, w4))))"
    if sev: "brings (c_fd c) rq sev" for sev
  proof -
    obtain s1 s2 s3 rp t t' where srv: "handle_event hs (Suc n) sev s = (Inr (), s1)"
      "worker_turn i s1 = (Inr (), s2)" "handle_event hs (Suc n) wev s2 = (Inr (), s3)"
      "wire (c_fd c) (s_world s3) = wire (c_fd c) (s_world s) @ rp"
      and enc: "encodeFrame (h_ssl hs) (makeRespFrame c (path ?f) dt st 0 (rid ?f)) True (c_aesKey c)
        (c_fid c + 1) t = (Inr rp, t')"
      and rest: "serving e i c2 s3" "same_setup s s3" unfolding c2_def
      by (rule server_serves [OF can f(1-3) sev server _ short events(2), where n = n]) (use f route in simp)
    have ends: "client_ready hc k2" "k_state k2 = Connected" "k_frameBuffer k2 = []" "polite k2"
      "c_ssid c = k_ssid k2" "k_lastSrvFid k2 < c_fid c + 1" "57 + length pa + length dt \<le> unat (k_maxFrameSize k2)"
      using ready P pair(2,6) size(4) by (simp_all add: k2_def client_ready_def polite_def)
    have "encodeFrame (h_ssl hc) (makeRespFrame c pa dt st 0 (k_rid k + 1)) True (k_aesKey k2) (c_fid c + 1) t = (Inr rp, t')"
      using enc f lib P by (simp add: k2_def)
    note received = response_received [OF ends(1-3) this ends(5,6) size(1) ends(7) size(5) _ ends(4)]
    have one: "concat [rp] = rp" by simp
    show ?thesis using srv rest received(1) received(2,3) [OF one] by blast
  qed
  then show ?thesis using q ce out k2 by blast
qed

text \<open>
  A request makes the round trip. Between the two ends of an established session, a request
  the user queues is encrypted and sent by the client's epoll thread; the server's epoll thread
  reads it, whatever the chunks, and puts it into the pool; a worker's turn runs the route; the
  epoll thread sends the answer; and the client delivers, whatever the chunks, exactly one
  response, with the request's path and the status and data the route gave.
\<close>

lemma request_round_trip:
  assumes lib: "h_ssl hs = h_ssl hc" "gcm_laws (h_ssl hc)" "gcm_reliable (h_ssl hc)"
    and net: "takes hc (\<lambda>n. n)" "sends_succeed hs"
    and pair: "paired k c" "polite k" "k_running k" "cq_queue (k_commandQueue k) = []"
      "c_lastCliFid c < k_fid k + 1" "k_lastSrvFid k < c_fid c + 1"
    and server: "serving e i c s"
    and route: "answers s \<lparr>rq_connID = c_connId c, rq_path = pa, rq_data = d, rq_rid = k_rid k + 1\<rparr> dt st"
    and size: "length pa < 2 ^ 16" "57 + length pa + length d \<le> unat (c_maxFrameSize c)"
      "57 + length pa + length d < 2 ^ 31" "57 + length pa + length dt \<le> unat (k_maxFrameSize k)"
      "57 + length pa + length dt < 2 ^ 31"
    and events: "kv_fd cev = k_cmdEvFd k" "ev_fd wev = e"
  shows "\<exists>k1 k2 w2 rq. queue_request pa d (k, w) = (Inr True, (k1, w))
    \<and> handle_client_event hc cev (k1, w) = (Inr (), (k2, w2))
    \<and> wire (k_socket k) w2 = wire (k_socket k) w @ rq
    \<and> (\<forall>sev. brings (c_fd c) rq sev \<longrightarrow>
        (\<exists>s1 s2 s3 rp. handle_event hs (Suc n) sev s = (Inr (), s1) \<and> worker_turn i s1 = (Inr (), s2)
          \<and> handle_event hs (Suc n) wev s2 = (Inr (), s3)
          \<and> wire (c_fd c) (s_world s3) = wire (c_fd c) (s_world s) @ rp
          \<and> (\<forall>chunks w3. concat chunks = rp \<longrightarrow>
              (\<exists>k3 w4. client_receive hc chunks WouldBlock (k2, w3) = (Inr (), (k3, w4))
                \<and> k_responses k3 = k_responses k @ [\<lparr>cr_path = pa, cr_data = dt, cr_status = st\<rparr>]))))"
proof -
  note R = round_trip [OF assms, where n = n and w = w]
  show ?thesis using R by (elim exE conjE) (intro exI conjI, assumption, assumption, assumption, fastforce)
qed

section \<open>A client's life, by example\<close>

text \<open>The user closes before the epoll thread has made its handshake.\<close>

theorem client_lifecycle_witness:
  "\<exists>k w k' w'. close_begin (sample_client, sample_world) = (Inr (), (k, w)) \<and> k_state k = Closed \<and> k_aesKey k = []
    \<and> doHandshake sample_host (k, w) = (Inr (), (k', w')) \<and> k_state k' = Closed \<and> length (k_aesKey k') = 32
    \<and> k_state sample_client \<le> k_state k' \<and> prefix (k_responses sample_client) (k_responses k')"
proof -
  have "calm sample_client" "k_state sample_client \<noteq> Closed" by (simp_all add: calm_def)
  then obtain k1 where cb: "close_begin (sample_client, sample_world) = (Inr (), (ended k1, sample_world))"
    and asks: "asks_only sample_client k1" using calm_close [of sample_client sample_world] by auto
  let ?k = "ended k1"
  have pub: "k_pubKey ?k = lit ''PUB''" using asks by (auto simp: asks_only_def ended_def)
  have closed: "k_state ?k = Closed" by (simp add: ended_def)
  have net: "takes sample_host (\<lambda>n. n)" and rsa: "rsa_pair (h_ssl sample_host) (lit ''PUB'') (lit ''PRIV'')"
    using sample_rsa_pair by (simp_all add: takes_def sample_host_def)
  obtain key w' where hs: "doHandshake sample_host (?k, sample_world)
      = (Inr (), (?k\<lparr>k_aesKey := key, k_rid := k_rid ?k + 1, k_fid := k_fid ?k + 1\<rparr>, w'))" "length key = 32"
    by (rule late_handshake [of sample_host ?k "lit ''PRIV''" "\<lambda>n. n" sample_world])
      (use rsa pub closed net in \<open>simp_all\<close>)
  let ?k' = "?k\<lparr>k_aesKey := key, k_rid := k_rid ?k + 1, k_fid := k_fid ?k + 1\<rparr>"
  note start = client_reach.connected [OF sample_client_eval, of sample_host]
  have one: "client_step sample_host (False, sample_client, sample_world) (False, ?k, sample_world)"
    by (rule client_step.closing [OF cb])
  have two: "client_step sample_host (False, ?k, sample_world) (True, ?k', w')"
    by (rule client_step.handshake [OF hs(1)])
  have steps: "(client_step sample_host)\<^sup>*\<^sup>* (False, sample_client, sample_world) (False, ?k, sample_world)"
    "(client_step sample_host)\<^sup>*\<^sup>* (False, sample_client, sample_world) (True, ?k', w')"
    using one two by (blast intro: rtranclp.rtrancl_into_rtrancl)+
  have "k_aesKey ?k = []" using client_lifecycle [OF start steps(1)] by simp
  moreover have "k_state sample_client \<le> k_state ?k' \<and> prefix (k_responses sample_client) (k_responses ?k')"
    using client_lifecycle [OF start steps(2)] by simp
  ultimately show ?thesis using cb hs closed by (intro exI [of _ ?k] exI [of _ sample_world] exI [of _ ?k'] exI [of _ w']) simp
qed

text \<open>A client that has been given one response.\<close>

definition sample_answer :: Frame where
  "sample_answer = makeFrame 2 STATUS_OK 0 (lit ''/a'') [5] 1 77"

definition arrival :: "bytes \<Rightarrow> client_ev" where
  "arrival e = \<lparr>kv_fd = 7, kv_hup = False, kv_in = True, kv_chunks = [e], kv_end = WouldBlock\<rparr>"

lemma arrival_received:
  "k_socket k = 7 \<Longrightarrow> k_cmdEvFd k = 9 \<Longrightarrow>
    handle_client_event h (arrival e) (k, w) = client_receive h [e] WouldBlock (k, w)"
  by (simp add: handle_client_event_def arrival_def)

theorem client_replay_free_witness:
  "\<exists>k w fs. client_reach sample_host (True, k, w) \<and> k_responses k = [ClientResponse_of sample_answer]
    \<and> k_responses k = map ClientResponse_of fs \<and> (\<forall>f \<in> set fs. ssid f = 77 \<and> client_authentic sample_host k f)"
proof -
  have net: "takes sample_host (\<lambda>n. n)" and rsa: "rsa_pair (h_ssl sample_host) (lit ''PUB'') (lit ''PRIV'')"
    using sample_rsa_pair by (simp_all add: takes_def sample_host_def)
  obtain key w1 where hs: "doHandshake sample_host (sample_client, sample_world)
      = (Inr (), (sample_client\<lparr>k_aesKey := key, k_rid := k_rid sample_client + 1, k_handshakeSent := True\<rparr>, w1))"
    and key: "length key = 32"
    by (rule doHandshake_sends [of sample_host sample_client "lit ''PRIV''" sample_world]) (use rsa net in simp_all)
  let ?k1 = "sample_client\<lparr>k_aesKey := key, k_rid := k_rid sample_client + 1, k_handshakeSent := True\<rparr>"
  let ?k2 = "?k1\<lparr>k_state := Connected, k_ssid := 77\<rparr>"
  have ready: "client_ready sample_host ?k1" "client_ready sample_host ?k2" using key by (simp_all add: client_ready_def)
  have frames: "path secured_frame = []" "data secured_frame = lit ''Connection secured''" "ssid secured_frame = 77"
    "path sample_answer = lit ''/a''" "data sample_answer = [5]" "ssid sample_answer = 77" "fid sample_answer = 2"
    by (simp_all add: secured_frame_def sample_answer_def makeFrame_def)
  obtain e1 where e1: "sealed (h_ssl sample_host) key 65536 secured_frame e1"
    using seal_exists [of "h_ssl sample_host" key secured_frame 65536 no_crypto] key frames by auto
  obtain e2 where e2: "sealed (h_ssl sample_host) key 65536 sample_answer e2"
    using seal_exists [of "h_ssl sample_host" key sample_answer 65536 no_crypto] key frames by auto
  obtain w2 where one: "client_receive sample_host [e1] WouldBlock (?k1, w1) = (Inr (), (?k2, w2))"
    using client_secured [OF ready(1), of secured_frame e1 "[e1]" w1] e1 frames by auto
  obtain w3 where two: "client_receive sample_host [e2] WouldBlock (?k2, w2) = (Inr (), (client_record sample_answer ?k2, w3))"
    using client_reads_one [OF ready(2), of sample_answer e2 "[e2]" w2] e2 frames by (auto simp: polite_def harmless_def)
  let ?k3 = "client_record sample_answer ?k2"
  have "client_reach sample_host (True, ?k1, w1)"
    by (rule client_reach.step [OF client_reach.connected [OF sample_client_eval] client_step.handshake [OF hs]])
  then have "client_reach sample_host (True, ?k2, w2)"
    using client_step.event [of sample_host "arrival e1" "(?k1, w1)"] one arrival_received [of ?k1]
    by (auto intro: client_reach.step)
  then have reach: "client_reach sample_host (True, ?k3, w3)"
    using client_step.event [of sample_host "arrival e2" "(?k2, w2)"] two arrival_received [of ?k2]
    by (auto intro: client_reach.step)
  moreover have "k_responses ?k3 = [ClientResponse_of sample_answer]" "k_ssid ?k3 = 77" by simp_all
  ultimately show ?thesis using client_replay_free [OF reach] by metis
qed

end
