(* ===== verification/Server_Answers.thy ===== *)
theory Server_Answers
  imports Server_Shutdown "HOL-Library.Multiset"
begin

text \<open>
  Many requests of many clients at once: the workers run the handlers of the pending requests in any
  interleaving, and one event of the epoll thread then sends all answers, each to its own client.
\<close>

section \<open>Sending to one descriptor\<close>

lemma sendFrame_elsewhere:
  assumes "can_send h c" "length (path f) < 2 ^ 16" "length (path f) + length (data f) + 20 < 2 ^ 31"
    and "sendFrame h (Suc d) f (c, w) = (Inr (), (c', w'))" "fd \<noteq> c_fd c"
  shows "wire fd w' = wire fd w"
proof -
  note can = assms(1) [unfolded can_send_def]
  obtain e k where enc: "encodeFrame (h_ssl h) f True (c_aesKey c) (c_fid c + 1) (w_crypto w) = (Inr e, k)"
    using encrypted_decodes [of "h_ssl h" "c_aesKey c" f "c_fid c + 1" "w_crypto w"] can assms(2,3) by blast
  let ?w1 = "w\<lparr>w_crypto := k\<rparr>"
  obtain ok w2 where snd: "send_all h (c_fd c) e ?w1 = (ok, w2)" by (cases "send_all h (c_fd c) e ?w1")
  then have ok using can send_all_ok [of h "c_fd c" e ?w1] by simp
  then have "w' = w2" using enc snd assms(4) by (simp add: sendFrame_Suc crypto_io_def Let_def)
  then show ?thesis using send_all_elsewhere [OF snd assms(5)] by (simp add: wire_def)
qed

section \<open>A queue of frames\<close>

abbreviation send_cmd :: "u64 \<times> Frame \<Rightarrow> ServerCommand" where
  "send_cmd x \<equiv> \<lparr>cmd_type = SEND, cmd_connID = fst x, cmd_frame = Some (snd x)\<rparr>"

definition sendable :: "host \<Rightarrow> Server \<Rightarrow> u64 \<times> Frame \<Rightarrow> bool" where
  "sendable h s x \<longleftrightarrow> (\<exists>c. map_of (s_connections s) (fst x) = Some c \<and> can_send h c \<and> c_fd c \<noteq> -1)
    \<and> length (path (snd x)) < 2 ^ 16 \<and> length (path (snd x)) + length (data (snd x)) + 20 < 2 ^ 31"

definition fds_apart :: "Server \<Rightarrow> bool" where
  "fds_apart s \<longleftrightarrow> (\<forall>k k' c c'. map_of (s_connections s) k = Some c \<longrightarrow> map_of (s_connections s) k' = Some c'
    \<longrightarrow> c_fd c = c_fd c' \<longrightarrow> c_fd c \<noteq> -1 \<longrightarrow> k = k')"

lemma server_ok_apart: "server_ok s \<Longrightarrow> fds_apart s"
  unfolding fds_apart_def using server_okD(3) by (metis option.inject)

text \<open>
  The frames \<open>fs\<close> for the connections \<open>k\<close> went out as the encodings \<open>encs\<close>: each connection's
  descriptor got the encodings of its own frames, in order, numbered one after the other.
\<close>

definition own :: "u64 \<Rightarrow> (u64 \<times> 'a) list \<Rightarrow> (u64 \<times> 'a) list" where
  "own k = filter (\<lambda>x. fst x = k)"

lemma own_simps [simp]: "own k [] = []" "own k (x # xs) = (if fst x = k then x # own k xs else own k xs)"
  by (simp_all add: own_def)

definition delivered :: "host \<Rightarrow> Server \<Rightarrow> (u64 \<times> Frame) list \<Rightarrow> bytes list \<Rightarrow> Server \<Rightarrow> bool" where
  "delivered h s fs encs s' \<longleftrightarrow> length encs = length fs
    \<and> (\<forall>k c. map_of (s_connections s) k = Some c \<longrightarrow> c_fd c \<noteq> -1 \<longrightarrow> wire (c_fd c) (s_world s')
        = wire (c_fd c) (s_world s) @ concat (map snd (own k (zip (map fst fs) encs))))
    \<and> (\<forall>j < length fs. \<forall>c. map_of (s_connections s) (fst (fs ! j)) = Some c \<longrightarrow>
        (\<exists>t t'. encodeFrame (h_ssl h) (snd (fs ! j)) True (c_aesKey c)
          (c_fid c + 1 + of_nat (length (own (fst (fs ! j)) (take j fs)))) t = (Inr (encs ! j), t')))"

lemma sends_all:
  "\<forall>x \<in> set fs. sendable h s x \<Longrightarrow> fds_apart s \<Longrightarrow>
    \<exists>s' encs. handle_all (handleCommand h (Suc d)) (dequeue s_commandQueue set_queue) (map send_cmd fs) s = (Inr (), s')
      \<and> delivered h s fs encs s'"
proof (induction fs arbitrary: s)
  case Nil
  then show ?case by (simp add: delivered_def)
next
  case (Cons x fs)
  obtain k f where x: "fst x = k" "snd x = f" by simp
  obtain c where c: "map_of (s_connections s) k = Some c" "can_send h c" "c_fd c \<noteq> -1"
    and f: "length (path f) < 2 ^ 16" "length (path f) + length (data f) + 20 < 2 ^ 31"
    using Cons.prems(1) x by (auto simp: sendable_def)
  let ?s = "dequeue s_commandQueue set_queue (send_cmd x) s" and ?c = "c\<lparr>c_fid := c_fid c + 1\<rparr>"
  have s: "s_connections ?s = s_connections s" "s_world ?s = s_world s" by (simp_all add: dequeue_def)
  obtain enc t w' where enc: "encodeFrame (h_ssl h) f True (c_aesKey c) (c_fid c + 1) (w_crypto (s_world s)) = (Inr enc, t)"
    and run: "sendFrame h (Suc d) f (c, s_world s) = (Inr (), (?c, w'))"
    and out: "wire (c_fd c) w' = wire (c_fd c) (s_world s) @ enc"
    by (rule sendFrame_sends [OF c(2) f])
  let ?s1 = "store_conn k c ?c w' ?s"
  have one: "handleCommand h (Suc d) (send_cmd x) ?s = (Inr (), ?s1)"
    using c(1) run x s by (simp add: handleCommand_def on_conn_def)
  have conns: "map_of (s_connections ?s1) = (map_of (s_connections s))(k \<mapsto> ?c)"
    and world: "s_world ?s1 = w'"
    using s by (simp_all add: store_conn_eq update_conv')
  have "\<forall>y \<in> set fs. sendable h ?s1 y"
    using Cons.prems(1) c by (auto simp: sendable_def conns can_send_def)
  moreover have "fds_apart ?s1"
    using Cons.prems(2) c(1) unfolding fds_apart_def conns by (auto split: if_splits)
  ultimately obtain s' encs where rest: "handle_all (handleCommand h (Suc d)) (dequeue s_commandQueue set_queue)
      (map send_cmd fs) ?s1 = (Inr (), s')" and del: "delivered h ?s1 fs encs s'"
    using Cons.IH by blast
  note D = del [unfolded delivered_def conns world]
  have "delivered h s (x # fs) (enc # encs) s'"
    unfolding delivered_def
  proof (intro conjI allI impI)
    show "length (enc # encs) = length (x # fs)" using D by simp
  next
    fix k' c' assume k': "map_of (s_connections s) k' = Some c'" "c_fd c' \<noteq> -1"
    show "wire (c_fd c') (s_world s') = wire (c_fd c') (s_world s)
        @ concat (map snd (own k' (zip (map fst (x # fs)) (enc # encs))))"
    proof (cases "k' = k")
      case True
      then have "wire (c_fd c) (s_world s') = wire (c_fd c) w' @ concat (map snd (own k (zip (map fst fs) encs)))"
        using conjunct1 [OF conjunct2 [OF D], THEN spec, THEN spec, of k ?c] c(3) by simp
      then show ?thesis using True k' c(1) out x by simp
    next
      case False
      then have "c_fd c' \<noteq> c_fd c" using Cons.prems(2) k' c(1) unfolding fds_apart_def by metis
      then have "wire (c_fd c') w' = wire (c_fd c') (s_world s)"
        using sendFrame_elsewhere [OF c(2) f run] by simp
      moreover have "wire (c_fd c') (s_world s') = wire (c_fd c') w' @ concat (map snd (own k' (zip (map fst fs) encs)))"
        using D k' False by simp
      ultimately show ?thesis using False x by simp
    qed
  next
    fix j c' assume j: "j < length (x # fs)" "map_of (s_connections s) (fst ((x # fs) ! j)) = Some c'"
    show "\<exists>t t'. encodeFrame (h_ssl h) (snd ((x # fs) ! j)) True (c_aesKey c')
        (c_fid c' + 1 + of_nat (length (own (fst ((x # fs) ! j)) (take j (x # fs))))) t = (Inr ((enc # encs) ! j), t')"
    proof (cases j)
      case 0
      then show ?thesis using enc j(2) c(1) x by auto
    next
      case (Suc i)
      let ?k = "fst (fs ! i)"
      have i: "i < length fs" "map_of (s_connections s) ?k = Some c'" using j Suc by simp_all
      define c'' where "c'' = (if ?k = k then ?c else c')"
      have "((map_of (s_connections s))(k \<mapsto> ?c)) ?k = Some c''" using i(2) by (simp add: c''_def)
      with D i(1) obtain t t' where "encodeFrame (h_ssl h) (snd (fs ! i)) True (c_aesKey c'')
          (c_fid c'' + 1 + of_nat (length (own ?k (take i fs)))) t = (Inr (encs ! i), t')" by blast
      moreover have "c_aesKey c'' = c_aesKey c'" "c_fid c'' + 1 + of_nat (length (own ?k (take i fs)))
          = c_fid c' + 1 + of_nat (length (own ?k (x # take i fs)))"
        using i(2) c(1) x by (auto simp: c''_def)
      ultimately show ?thesis using Suc by (intro exI [of _ t] exI [of _ t']) simp
    qed
  qed
  then show ?case using one rest by auto
qed

section \<open>Workers between two events\<close>

text \<open>The requests the pool has not done with: those that wait, and those a worker has taken.\<close>

fun taken :: "Request worker \<Rightarrow> Request multiset" where
  "taken (Running r) = {#r#}"
| "taken w = {#}"

definition pending :: "Request thread_pool \<Rightarrow> Request multiset" where
  "pending p = mset (tp_tasks p) + sum_list (map taken (tp_workers p))"

text \<open>
  What the workers do while the epoll thread waits, in any interleaving: steps of the pool that end
  no task, and runs of the router on the request some worker has taken, after which the worker is
  ready again. The list has the requests in the order in which their handlers ran.
\<close>

inductive working :: "Server \<Rightarrow> Request list \<Rightarrow> Server \<Rightarrow> bool" where
  rest: "working s [] s"
| pool: "pool_step never (s_tpool s) p \<Longrightarrow> pending p = pending (s_tpool s)
    \<Longrightarrow> working (s\<lparr>s_tpool := p\<rparr>) rs s' \<Longrightarrow> working s rs s'"
| run: "i < length (tp_workers (s_tpool s)) \<Longrightarrow> tp_workers (s_tpool s) ! i = Running r
    \<Longrightarrow> router r s = (Inr (), s1) \<Longrightarrow> working (s1\<lparr>s_tpool := worker_finish never i r (s_tpool s1)\<rparr>) rs s'
    \<Longrightarrow> working s (r # rs) s'"

lemma pending_check:
  assumes "i < length (tp_workers p)" "tp_workers p ! i = Ready"
  shows "pending (worker_check i p) = pending p"
proof -
  obtain as bs where "tp_workers p = as @ Ready # bs" "i = length as" using assms by (rule list_at_split)
  then show ?thesis
    by (cases "tp_tasks p") (auto simp: pending_def worker_check_def set_worker_def tp_pop_def)
qed

lemma pending_finish:
  assumes "i < length (tp_workers p)" "tp_workers p ! i = Running r"
  shows "add_mset r (pending (worker_finish never i r p)) = pending p"
proof -
  obtain as bs where "tp_workers p = as @ Running r # bs" "i = length as" using assms by (rule list_at_split)
  then show ?thesis by (simp add: pending_def worker_finish_def set_worker_def)
qed

lemma pending_running: "Running r \<in> set (tp_workers p) \<Longrightarrow> r \<in># pending p"
  by (auto simp: pending_def dest: split_list)

text \<open>The answer the route gives to a request, as a command of its connection.\<close>

definition answer :: "Server \<Rightarrow> (Request \<Rightarrow> bytes \<times> u8) \<Rightarrow> Request \<Rightarrow> u64 \<times> Frame" where
  "answer s reply r = (rq_connID r, makeRespFrame (the (map_of (s_connections s) (rq_connID r)))
     (rq_path r) (fst (reply r)) (snd (reply r)) 0 (rq_rid r))"

definition answerable :: "host \<Rightarrow> Server \<Rightarrow> (Request \<Rightarrow> bytes \<times> u8) \<Rightarrow> Request \<Rightarrow> bool" where
  "answerable h s reply r \<longleftrightarrow>
    (\<exists>c. map_of (s_connections s) (rq_connID r) = Some c \<and> can_send h c \<and> c_fd c \<noteq> -1)
    \<and> answers s r (fst (reply r)) (snd (reply r))
    \<and> length (rq_path r) < 2 ^ 16 \<and> length (rq_path r) + length (fst (reply r)) + 20 < 2 ^ 31"

lemma answerable_sendable: "answerable h s reply r \<Longrightarrow> sendable h s (answer s reply r)"
  by (auto simp: answerable_def sendable_def answer_def makeRespFrame_def makeFrame_def)

text \<open>Such a state differs from the first in its pool, its wake-ups, and the answers queued.\<close>

definition queued :: "(u64 \<times> Frame) list \<Rightarrow> Server \<Rightarrow> Server \<Rightarrow> bool" where
  "queued fs s s' \<longleftrightarrow> (\<exists>p n. s' = s\<lparr>s_tpool := p, s_wakeups := n,
    s_commandQueue := s_commandQueue s\<lparr>cq_queue := cq_queue (s_commandQueue s) @ map send_cmd fs\<rparr>\<rparr>)"

lemma queued_Nil: "queued [] s s" "queued [] s (s\<lparr>s_tpool := p\<rparr>)"
  unfolding queued_def by (rule exI [of _ "s_tpool s"], rule exI [of _ "s_wakeups s"], simp)
    (rule exI [of _ p], rule exI [of _ "s_wakeups s"], simp)

lemma queued_append: "queued fs s s1 \<Longrightarrow> queued gs s1 s2 \<Longrightarrow> queued (fs @ gs) s s2"
proof -
  assume "queued fs s s1" "queued gs s1 s2"
  then obtain p n p' n' where s1: "s1 = s\<lparr>s_tpool := p, s_wakeups := n,
      s_commandQueue := s_commandQueue s\<lparr>cq_queue := cq_queue (s_commandQueue s) @ map send_cmd fs\<rparr>\<rparr>"
    and s2: "s2 = s1\<lparr>s_tpool := p', s_wakeups := n',
      s_commandQueue := s_commandQueue s1\<lparr>cq_queue := cq_queue (s_commandQueue s1) @ map send_cmd gs\<rparr>\<rparr>"
    by (auto simp only: queued_def)
  show ?thesis unfolding queued_def s2 s1 by (rule exI [of _ p'], rule exI [of _ n']) simp
qed

lemma queued_fields:
  assumes "queued fs s s'"
  shows "s_connections s' = s_connections s" "s_routes s' = s_routes s" "s_funcRoutes s' = s_funcRoutes s"
    "s_alive s' = s_alive s" "s_cmdEvFd s' = s_cmdEvFd s" "s_world s' = s_world s"
    "cq_queue (s_commandQueue s') = cq_queue (s_commandQueue s) @ map send_cmd fs"
  using assms by (auto simp: queued_def)

lemma queued_same:
  assumes "queued fs s s'"
  shows "answer s' reply = answer s reply" "answerable h s' reply = answerable h s reply"
  using queued_fields [OF assms] answers_cong [of s' s] by (auto simp: answer_def answerable_def fun_eq_iff)

lemma router_queues_answer:
  assumes "answerable h s reply r" "s_alive s" "s_cmdEvFd s = Some e"
  shows "\<exists>s'. router r s = (Inr (), s') \<and> queued [answer s reply r] s s' \<and> s_tpool s' = s_tpool s"
proof -
  obtain c where c: "map_of (s_connections s) (rq_connID r) = Some c"
    using assms(1) by (auto simp: answerable_def)
  have a: "answers s r (fst (reply r)) (snd (reply r))" using assms(1) by (simp add: answerable_def)
  let ?s = "s\<lparr>s_commandQueue := cq_push (send_cmd (answer s reply r)) (s_commandQueue s), s_wakeups := s_wakeups s + 1\<rparr>"
  have "router r s = (Inr (), ?s)"
    using answers_router [OF a] responder_sends [OF assms(2,3) c] c by (simp add: answer_def)
  moreover have "queued [answer s reply r] s ?s"
    unfolding queued_def
    by (rule exI [of _ "s_tpool s"], rule exI [of _ "s_wakeups s + 1"]) (simp add: cq_push_def)
  ultimately show ?thesis by simp
qed

lemma working_queues:
  assumes "working s rs s'" "\<forall>r \<in># pending (s_tpool s). answerable h s reply r" "s_alive s" "s_cmdEvFd s = Some e"
  shows "queued (map (answer s reply) rs) s s' \<and> mset rs + pending (s_tpool s') = pending (s_tpool s)"
  using assms
proof (induction rule: working.induct)
  case (rest s)
  then show ?case using queued_Nil by simp
next
  case (pool s p rs s')
  let ?s = "s\<lparr>s_tpool := p\<rparr>"
  note same = queued_same [OF queued_Nil(2) [of s p]]
  have "queued (map (answer ?s reply) rs) ?s s' \<and> mset rs + pending (s_tpool s') = pending (s_tpool ?s)"
    by (rule pool.IH) (use pool.prems pool.hyps(2) in \<open>auto simp: same\<close>)
  then show ?case using queued_append [OF queued_Nil(2) [of s p]] pool.hyps(2) by (auto simp: same)
next
  case (run i s r s1 rs s')
  have r: "r \<in># pending (s_tpool s)" using run.hyps(1,2) pending_running nth_mem by metis
  then have "answerable h s reply r" using run.prems(1) by blast
  from router_queues_answer [OF this run.prems(2,3)]
  have one: "queued [answer s reply r] s s1" "s_tpool s1 = s_tpool s" using run.hyps(3) by auto
  let ?p = "worker_finish never i r (s_tpool s)"
  let ?s = "s1\<lparr>s_tpool := ?p\<rparr>"
  have two: "queued [answer s reply r] s ?s" using queued_append [OF one(1) queued_Nil(2) [of s1 ?p]] by simp
  note same = queued_same [OF two]
  have left: "add_mset r (pending ?p) = pending (s_tpool s)" by (rule pending_finish [OF run.hyps(1,2)])
  then have "\<forall>r \<in># pending ?p. answerable h s reply r" using run.prems(1) unfolding left [symmetric] by simp
  then have "queued (map (answer ?s reply) rs) ?s s' \<and> mset rs + pending (s_tpool s') = pending ?p"
    using run.IH queued_fields [OF two] run.prems(2,3) by (simp add: one(2) same)
  then show ?case using queued_append [OF two] left by (auto simp: same)
qed

text \<open>A worker that is ready can see to all waiting requests, one after the other.\<close>

lemma working_turns:
  assumes "\<not> tp_terminated (s_tpool s)" "i < length (tp_workers (s_tpool s))" "tp_workers (s_tpool s) ! i = Ready"
    and "\<forall>r \<in> set (tp_tasks (s_tpool s)). answerable h s reply r" "s_alive s" "s_cmdEvFd s = Some e"
  shows "\<exists>s1. working s (tp_tasks (s_tpool s)) s1"
  using assms
proof (induction "tp_tasks (s_tpool s)" arbitrary: s)
  case Nil
  then show ?case using working.rest by metis
next
  case (Cons r rs)
  let ?p = "worker_check i (s_tpool s)"
  let ?s = "s\<lparr>s_tpool := ?p\<rparr>"
  have p: "tp_workers ?p = (tp_workers (s_tpool s))[i := Running r]" "tp_tasks ?p = rs" "\<not> tp_terminated ?p"
    using Cons.hyps(2) [symmetric] Cons.prems(1,2)
    by (simp_all add: worker_check_def tp_pop_def set_worker_def)
  note same = queued_same [OF queued_Nil(2) [of s ?p]]
  have "answerable h ?s reply r" using Cons.prems(4) Cons.hyps(2) [symmetric] by (simp add: same)
  then obtain s1 where run: "router r ?s = (Inr (), s1)" and one: "queued [answer ?s reply r] ?s s1" "s_tpool s1 = ?p"
    using router_queues_answer [of h ?s reply r e] Cons.prems(5,6) by auto
  let ?q = "worker_finish never i r ?p"
  let ?s2 = "s1\<lparr>s_tpool := ?q\<rparr>"
  have q: "tp_workers ?q = (tp_workers (s_tpool s))[i := Ready]" "tp_tasks ?q = rs" "\<not> tp_terminated ?q"
    using p by (simp_all add: worker_finish_def set_worker_def)
  note two = queued_same [OF queued_append [OF one(1) queued_Nil(2) [of s1 ?q]]]
  have "\<exists>s3. working ?s2 (tp_tasks (s_tpool ?s2)) s3"
    by (rule Cons.hyps(1))
      (use q Cons.prems Cons.hyps(2) [symmetric] queued_fields [OF one(1)] in \<open>simp_all add: two same\<close>)
  then obtain s3 where "working (s1\<lparr>s_tpool := worker_finish never i r (s_tpool s1)\<rparr>) rs s3" using q(2) one(2) by auto
  then have "working ?s (r # rs) s3" using run p(1) Cons.prems(2) by (intro working.run [of i ?s r s1]) simp_all
  then show ?case
    using working.pool [OF pool_step.check [OF Cons.prems(1-3)] pending_check [OF Cons.prems(2,3)]] Cons.hyps(2) by metis
qed

section \<open>All answers\<close>

lemma delivered_cong:
  "s_connections s1 = s_connections s \<Longrightarrow> s_world s1 = s_world s \<Longrightarrow> delivered h s1 = delivered h s"
  by (simp add: delivered_def fun_eq_iff)

lemma answers_sent:
  assumes "server_ok s" "s_alive s" "s_cmdEvFd s = Some e" "cq_queue (s_commandQueue s) = []"
    and "\<forall>r \<in># pending (s_tpool s). answerable h s reply r" "ev_fd ev = e" and run: "working s rs s1"
  shows "\<exists>s2 encs. handle_event h (Suc d) ev s1 = (Inr (), s2) \<and> delivered h s (map (answer s reply) rs) encs s2"
proof -
  let ?fs = "map (answer s reply) rs" and ?s = "s1\<lparr>s_wakeups := 0\<rparr>"
  have q: "queued ?fs s s1" and sub: "mset rs + pending (s_tpool s1) = pending (s_tpool s)"
    using working_queues [OF run assms(5,2,3)] by auto
  note s1 = queued_fields [OF q]
  have same: "s_connections ?s = s_connections s" "s_world ?s = s_world s" using s1 by simp_all
  have "fds_apart ?s" using server_ok_apart [OF assms(1)] same by (simp add: fds_apart_def)
  moreover have "sendable h ?s = sendable h s" using same by (simp add: sendable_def fun_eq_iff)
  moreover have "set rs \<subseteq> set_mset (pending (s_tpool s))" unfolding sub [symmetric] by simp
  ultimately have "fds_apart ?s" "\<forall>x \<in> set ?fs. sendable h ?s x" using assms(5) answerable_sendable by fastforce+
  then obtain s2 encs where "handle_all (handleCommand h (Suc d)) (dequeue s_commandQueue set_queue)
      (map send_cmd ?fs) ?s = (Inr (), s2)" and del: "delivered h ?s ?fs encs s2"
    using sends_all by blast
  then have "handle_event h (Suc d) ev s1 = (Inr (), s2)"
    using s1 assms(3,4,6) by (simp add: handle_event_def drain_commands_all)
  then show ?thesis using del delivered_cong [OF same] by auto
qed

text \<open>
  C11: every answer reaches its client. Whatever clients the pending requests come from, and
  however the workers interleave, each pending request is answered once or still pending, and the
  eventfd's next event sends the answers, in the order in which the handlers answered: a client's
  descriptor gets exactly the answers to its own requests, each encrypted under its key and with
  the next number of its connection. And the handlers of all waiting requests can run.
\<close>

theorem answers_reach_their_clients:
  assumes "server_ok s" "s_alive s" "s_cmdEvFd s = Some e" "cq_queue (s_commandQueue s) = []"
    and "\<forall>r \<in># pending (s_tpool s). answerable h s reply r" and "ev_fd ev = e"
    and "\<not> tp_terminated (s_tpool s)" "i < length (tp_workers (s_tpool s))" "tp_workers (s_tpool s) ! i = Ready"
  shows "(\<forall>rs s1. working s rs s1 \<longrightarrow> mset rs + pending (s_tpool s1) = pending (s_tpool s)
      \<and> (\<exists>s2 encs. handle_event h (Suc d) ev s1 = (Inr (), s2) \<and> delivered h s (map (answer s reply) rs) encs s2))
    \<and> (\<exists>s1. working s (tp_tasks (s_tpool s)) s1)"
proof (intro conjI allI impI)
  fix rs s1 assume run: "working s rs s1"
  show "mset rs + pending (s_tpool s1) = pending (s_tpool s)" using working_queues [OF run assms(5,2,3)] by blast
  show "\<exists>s2 encs. handle_event h (Suc d) ev s1 = (Inr (), s2) \<and> delivered h s (map (answer s reply) rs) encs s2"
    by (rule answers_sent [OF assms(1-6) run])
next
  show "\<exists>s1. working s (tp_tasks (s_tpool s)) s1"
    using working_turns [OF assms(7-9) _ assms(2,3)] assms(5) by (auto simp: pending_def)
qed

section \<open>Two clients\<close>

definition other_request :: Request where
  "other_request = \<lparr>rq_connID = 2, rq_path = lit ''/b'', rq_data = [], rq_rid = 4\<rparr>"

definition two_clients :: Server where
  "two_clients = active_server\<lparr>s_connCount := 2, s_fdToId := [(5, 1), (8, 2)],
     s_connections := [(1, sample_active\<lparr>c_requests := [sample_request]\<rparr>),
       (2, sample_active\<lparr>c_connId := 2, c_fd := 8, c_requests := [other_request]\<rparr>)],
     s_tpool := tp_enqueue other_request (tp_enqueue sample_request (ThreadPool 2))\<rparr>"

lemma two_clients_fields: "s_cmdEvFd two_clients = Some 6" "s_alive two_clients"
  "cq_queue (s_commandQueue two_clients) = []" "s_world two_clients = sample_world" "s_connCount two_clients = 2"
  "s_fdToId two_clients = [(5, 1), (8, 2)]" "s_routes two_clients = []" "s_funcRoutes two_clients = []"
  "s_connections two_clients = [(1, sample_active\<lparr>c_requests := [sample_request]\<rparr>),
       (2, sample_active\<lparr>c_connId := 2, c_fd := 8, c_requests := [other_request]\<rparr>)]"
  "tp_workers (s_tpool two_clients) = [Ready, Ready]" "tp_tasks (s_tpool two_clients) = [sample_request, other_request]"
  "tp_enqueued (s_tpool two_clients) = [sample_request, other_request]" "\<not> tp_terminated (s_tpool two_clients)"
  by (simp_all add: two_clients_def active_server_def tp_enqueue_def tp_push_def ThreadPool_def eval_nat_numeral)

theorem answers_reach_their_clients_witness:
  "\<exists>s1 s2 e1 e2. working two_clients [sample_request, other_request] s1
    \<and> handle_event sample_host 1 (sample_event 6) s1 = (Inr (), s2)
    \<and> wire 5 (s_world s2) = e1 \<and> wire 8 (s_world s2) = e2
    \<and> (\<exists>t t'. encodeFrame sample_openssl (makeFrame 0 STATUS_NOT_FOUND 0 (lit ''/a'') [] 9 77) True (replicate 32 9) 1 t = (Inr e1, t'))
    \<and> (\<exists>t t'. encodeFrame sample_openssl (makeFrame 0 STATUS_NOT_FOUND 0 (lit ''/b'') [] 4 77) True (replicate 32 9) 1 t = (Inr e2, t'))"
proof -
  let ?reply = "\<lambda>r. ([], STATUS_NOT_FOUND)"
  have ok: "server_ok two_clients"
    by (auto simp: server_ok_def two_clients_fields sample_request_def other_request_def)
  have can: "can_send sample_host sample_active"
    using sample_can_decode by (simp add: can_send_def can_decode_def)
  have lens: "length (rq_path sample_request) = 2" "length (rq_path other_request) = 2"
    by (simp_all add: sample_request_def other_request_def)
  have ids: "rq_connID sample_request = 1" "rq_connID other_request = 2" by (simp_all add: sample_request_def other_request_def)
  have "answers two_clients r [] STATUS_NOT_FOUND" for r by (simp add: answers_def two_clients_fields)
  then have "\<forall>r \<in># pending (s_tpool two_clients). answerable sample_host two_clients ?reply r"
    using can lens ids by (auto simp: pending_def answerable_def two_clients_fields can_send_def)
  note T = answers_reach_their_clients [OF ok two_clients_fields(2,1,3) this, of "sample_event 6" 0 0]
  obtain s1 where run: "working two_clients [sample_request, other_request] s1"
    using T by (auto simp: two_clients_fields)
  obtain s2 encs where s2: "handle_event sample_host 1 (sample_event 6) s1 = (Inr (), s2)"
    and del: "delivered sample_host two_clients (map (answer two_clients ?reply) [sample_request, other_request]) encs s2"
    using T [THEN conjunct1, THEN spec, THEN spec, THEN mp, OF _ _ _ _ run] by (auto simp: two_clients_fields)
  let ?fs = "[(1, makeFrame 0 STATUS_NOT_FOUND 0 (lit ''/a'') [] 9 77),
      (2, makeFrame 0 STATUS_NOT_FOUND 0 (lit ''/b'') [] 4 77)] :: (u64 \<times> Frame) list"
  have "map (answer two_clients ?reply) [sample_request, other_request] = ?fs"
    by (simp add: answer_def two_clients_fields sample_request_def other_request_def makeRespFrame_def sample_active_def)
  then have D: "delivered sample_host two_clients ?fs encs s2" using del by simp
  then obtain e1 e2 where encs: "encs = [e1, e2]"
    by (auto simp: delivered_def length_Suc_conv)
  note D1 = D [unfolded delivered_def encs, THEN conjunct2, THEN conjunct1, THEN spec, THEN spec, THEN mp, THEN mp]
    and D2 = D [unfolded delivered_def encs, THEN conjunct2, THEN conjunct2, THEN spec, THEN mp, THEN spec, THEN mp]
  have "wire 5 sample_world = []" "wire 8 sample_world = []" by (simp_all add: wire_def sample_world_def)
  moreover have "h_ssl sample_host = sample_openssl" "c_fid sample_active = 0" "c_aesKey sample_active = replicate 32 9"
    by (simp_all add: sample_host_def sample_active_def)
  ultimately have "wire 5 (s_world s2) = e1" "wire 8 (s_world s2) = e2"
    "\<exists>t t'. encodeFrame sample_openssl (snd (?fs ! 0)) True (replicate 32 9) 1 t = (Inr e1, t')"
    "\<exists>t t'. encodeFrame sample_openssl (snd (?fs ! 1)) True (replicate 32 9) 1 t = (Inr e2, t')"
    using D1 [of 1] D1 [of 2] D2 [of 0] D2 [of 1] by (simp_all add: two_clients_fields)
  then show ?thesis using run s2 by auto
qed

end
