(* ===== verification/Neighbours.thy ===== *)
theory Neighbours
  imports End_To_End Server_Answers
begin

text \<open>
  What one client notices of the others: nothing. Whatever events, workers and handlers do to other
  connections, everything the server keeps or sends for this one stays as it was; so a request is
  served among any other activity as it is served alone.
\<close>

section \<open>Steps that concern other clients\<close>

text \<open>An event concerns client \<open>k\<close> when it is on its descriptor, or makes the epoll thread handle one
  of its commands.\<close>

definition own_commands :: "u64 \<Rightarrow> Server \<Rightarrow> ServerCommand list" where
  "own_commands k s = filter (\<lambda>cmd. cmd_connID cmd = k) (cq_queue (s_commandQueue s))"

definition concerns :: "u64 \<Rightarrow> Server \<Rightarrow> epoll_ev \<Rightarrow> bool" where
  "concerns k s ev \<longleftrightarrow>
    (if Some (ev_fd ev) = s_cmdEvFd s then own_commands k s \<noteq> []
     else ev_fd ev \<noteq> s_socket s \<and> map_of (s_fdToId s) (ev_fd ev) = Some k)"

text \<open>
  The steps of everybody else: events of the epoll thread, new connections among them, steps of the
  pool, and the calls that handlers, or anyone, make of the responder.
\<close>

inductive elsewhere :: "host \<Rightarrow> nat \<Rightarrow> u64 \<Rightarrow> Server \<Rightarrow> Server \<Rightarrow> bool" for h d k where
  event: "\<not> concerns k s ev \<Longrightarrow> (ev_fd ev = s_socket s \<longrightarrow> fresh_fds (ev_accepts ev) s)
    \<Longrightarrow> handle_event h d ev s = (Inr u, s') \<Longrightarrow> elsewhere h d k s s'"
| thrown: "\<not> concerns k s ev \<Longrightarrow> (ev_fd ev = s_socket s \<longrightarrow> fresh_fds (ev_accepts ev) s)
    \<Longrightarrow> handle_event h d ev s = (Inl (Throw x), s') \<Longrightarrow> elsewhere h d k s s'"
| pool: "pool_step never (s_tpool s) p \<Longrightarrow> elsewhere h d k s (s\<lparr>s_tpool := p\<rparr>)"
| respond: "rs_connID resp \<noteq> k \<Longrightarrow> sendResponse resp s = (Inr u, s') \<Longrightarrow> elsewhere h d k s s'"
| close: "k' \<noteq> k \<Longrightarrow> closeConnection_cmd k' s = (Inr u, s') \<Longrightarrow> elsewhere h d k s s'"

text \<open>
  What all clients rely on, and what the server keeps and sends for client \<open>k\<close>, whose descriptor
  is \<open>fd\<close>.
\<close>

definition fixtures :: "Server \<Rightarrow> Server \<Rightarrow> bool" where
  "fixtures s s' \<longleftrightarrow> s_routes s' = s_routes s \<and> s_funcRoutes s' = s_funcRoutes s
    \<and> s_cmdEvFd s' = s_cmdEvFd s \<and> s_socket s' = s_socket s \<and> s_alive s' = s_alive s"

lemma fixtures_refl [simp]: "fixtures s s"
  by (simp add: fixtures_def)

lemma fixtures_trans: "fixtures s s' \<Longrightarrow> fixtures s' s'' \<Longrightarrow> fixtures s s''"
  by (simp add: fixtures_def)

definition same_for :: "u64 \<Rightarrow> int \<Rightarrow> Server \<Rightarrow> Server \<Rightarrow> bool" where
  "same_for k fd s s' \<longleftrightarrow> map_of (s_connections s') k = map_of (s_connections s) k
    \<and> map_of (s_fdToId s') fd = map_of (s_fdToId s) fd \<and> own_commands k s' = own_commands k s
    \<and> wire fd (s_world s') = wire fd (s_world s) \<and> fixtures s s'"

lemma same_for_refl [simp]: "same_for k fd s s"
  by (simp add: same_for_def)

lemma same_for_trans: "same_for k fd s s' \<Longrightarrow> same_for k fd s' s'' \<Longrightarrow> same_for k fd s s''"
  by (simp add: same_for_def fixtures_def)

section \<open>Operations on other connections\<close>

lemma other_fd:
  assumes "server_ok s" "map_of (s_connections s) k = Some c" "c_fd c \<noteq> -1"
    and "map_of (s_connections s) k' = Some c'" "k' \<noteq> k"
  shows "c_fd c' \<noteq> c_fd c"
  using server_okD(3) [OF assms(1,2,3)] server_okD(3) [OF assms(1,4)] assms(3,5) by auto

lemma on_conn_apart:
  assumes "keeps own_wire m" "on_conn k' c' m s = (r, s')" "k' \<noteq> k" "c_fd c' \<noteq> fd" "fd \<noteq> -1"
  shows "same_for k fd s s'" "\<exists>c''. map_of (s_connections s') k' = Some c'' \<and> c_fd c'' \<noteq> fd"
proof -
  obtain c'' w where run: "m (c', s_world s) = (r, (c'', w))" and s': "s' = store_conn k' c' c'' w s"
    using on_conn_run [OF assms(2)] .
  have "own_wire (c', s_world s) (c'', w)" using wires.keepsD [OF assms(1) run] .
  then show "same_for k fd s s'" "\<exists>c''. map_of (s_connections s') k' = Some c'' \<and> c_fd c'' \<noteq> fd"
    using assms(3-5)
    by (auto simp: s' same_for_def store_conn_eq update_conv' own_wire_def own_commands_def fixtures_def)
qed

lemma delete_conn_apart:
  assumes "delete_conn h d k' c' s = (r, s')" "k' \<noteq> k" "c_fd c' \<noteq> fd" "fd \<noteq> -1"
  shows "same_for k fd s s'"
proof -
  obtain q s1 where one: "on_conn k' c' (ClientConnection_delete h d) s = (q, s1)"
    by (cases "on_conn k' c' (ClientConnection_delete h d) s")
  have "same_for k fd s s1" using on_conn_apart(1) [OF wires.keeps_delete one assms(2-4)] .
  then show ?thesis using assms(1,2) one
    by (auto simp: delete_conn_def bindP_def prog_simps delete_conv' same_for_def own_commands_def fixtures_def
        split: sum.splits)
qed

text \<open>A client that is connected: its connection is stored, and its descriptor open.\<close>

definition attached :: "u64 \<Rightarrow> ClientConnection \<Rightarrow> Server \<Rightarrow> bool" where
  "attached k c s \<longleftrightarrow> server_ok s \<and> map_of (s_connections s) k = Some c \<and> c_fd c \<noteq> -1"

lemma attached_same: "attached k c s \<Longrightarrow> same_for k fd s s' \<Longrightarrow> server_ok s' \<Longrightarrow> attached k c s'"
  by (simp add: attached_def same_for_def)

lemma handleCommand_apart:
  assumes "attached k c s" "cmd_connID cmd \<noteq> k" "handleCommand h d cmd s = (r, s')"
  shows "same_for k (c_fd c) s s'"
proof (cases "map_of (s_connections s) (cmd_connID cmd)")
  case None
  then have "s' = s" using assms(3) onErr_state
    by (auto simp: handleCommand_def dest: arg_cong [where f = snd])
  then show ?thesis by simp
next
  case (Some c')
  have fds: "c_fd c' \<noteq> c_fd c" "c_fd c \<noteq> -1"
    using assms(1,2) other_fd Some unfolding attached_def by blast+
  show ?thesis
    using assms(3) Some on_conn_apart(1) [OF wires.keeps_send _ assms(2) fds]
      on_conn_apart(1) [OF wires.keeps_close _ assms(2) fds]
    by (auto simp: handleCommand_def split: CommandType.splits option.splits)
qed

lemma handle_all_apart:
  "attached k c s \<Longrightarrow> \<forall>cmd \<in> set cmds. cmd_connID cmd \<noteq> k \<Longrightarrow> cq_queue (s_commandQueue s) = cmds @ rest
    \<Longrightarrow> handle_all (handleCommand h d) (dequeue s_commandQueue set_queue) cmds s = (r, s')
    \<Longrightarrow> same_for k (c_fd c) s s' \<and> attached k c s' \<and> (r = Inr () \<longrightarrow> cq_queue (s_commandQueue s') = rest)"
proof (induction cmds arbitrary: s)
  case (Cons cmd cmds)
  let ?s = "dequeue s_commandQueue set_queue cmd s"
  obtain q s1 where one: "handleCommand h d cmd ?s = (q, s1)" by (cases "handleCommand h d cmd ?s")
  have s: "same_for k (c_fd c) s ?s" "cq_queue (s_commandQueue ?s) = cmds @ rest"
    using Cons.prems(2,3) by (simp_all add: dequeue_def same_for_def own_commands_def fixtures_def cq_tryPop_def)
  moreover have "server_ok ?s" using Cons.prems(1) by (simp add: attached_def dequeue_def server_ok_def)
  ultimately have att: "attached k c ?s" using attached_same Cons.prems(1) by blast
  have "cmd_connID cmd \<noteq> k" using Cons.prems(2) by simp
  then have s1: "same_for k (c_fd c) ?s s1" using handleCommand_apart [OF att _ one] by blast
  moreover have "server_ok s1" using handleCommand_ok one att unfolding attached_def by blast
  ultimately have att1: "attached k c s1" using attached_same att by blast
  have q1: "cq_queue (s_commandQueue s1) = cmds @ rest"
    using handleCommand_queue [of h d cmd ?s] one s(2) by simp
  have to1: "same_for k (c_fd c) s s1" using same_for_trans s(1) s1 by blast
  show ?case
  proof (cases q)
    case (Inl e)
    then have "s' = s1" "r \<noteq> Inr ()" using Cons.prems(4) one by auto
    then show ?thesis using to1 att1 by blast
  next
    case (Inr u)
    then have "handle_all (handleCommand h d) (dequeue s_commandQueue set_queue) cmds s1 = (r, s')"
      using Cons.prems(4) one by simp
    then show ?thesis using Cons.IH [OF att1 _ q1] Cons.prems(2) same_for_trans [OF to1] by auto
  qed
qed simp

section \<open>Events\<close>

lemma accepts_apart:
  "fresh_fds fds s \<Longrightarrow> attached k c s \<Longrightarrow> same_for k (c_fd c) s (fold accept_one fds s)"
proof (induction fds arbitrary: s)
  case (Cons fd fds)
  have ok: "server_ok s" and c: "map_of (s_connections s) k = Some c" using Cons.prems(2) by (simp_all add: attached_def)
  have "unat k \<le> unat (s_connCount s)" "unat (s_connCount s) + 1 < 2 ^ 64"
    using server_okD(2) [OF ok c] Cons.prems(1) by (simp_all add: word_le_nat_alt fresh_fds_def)
  then have new: "k \<noteq> s_connCount s + 1" by (auto simp: unat_word_ariths)
  have "fd \<noteq> c_fd c" using Cons.prems(1) c by (auto simp: fresh_fds_def)
  then have one: "same_for k (c_fd c) s (accept_one fd s)"
    using new by (simp add: same_for_def accept_one_def ClientConnection_new_def setOnClose_def Let_def
        update_conv' own_commands_def fixtures_def)
  note after = accept_one_ok [OF ok Cons.prems(1)]
  from Cons.IH [OF after(2) attached_same [OF Cons.prems(2) one after(1)]] one
  show ?case using same_for_trans by fastforce
qed simp

lemma event_apart:
  assumes "attached k c s" "\<not> concerns k s ev" "ev_fd ev = s_socket s \<longrightarrow> fresh_fds (ev_accepts ev) s"
    and run: "handle_event h d ev s = (r, s')"
  shows "same_for k (c_fd c) s s'"
proof -
  consider (cmds) "Some (ev_fd ev) = s_cmdEvFd s"
    | (accept) "Some (ev_fd ev) \<noteq> s_cmdEvFd s" "ev_fd ev = s_socket s"
    | (nothing) "s' = s"
    | (conn) k' c' where "Some (ev_fd ev) \<noteq> s_cmdEvFd s" "ev_fd ev \<noteq> s_socket s"
        "map_of (s_fdToId s) (ev_fd ev) = Some k'" "map_of (s_connections s) k' = Some c'"
    using run by (fastforce simp: handle_event_def split: if_splits option.splits)
  then show ?thesis
  proof cases
    case cmds
    let ?s = "s\<lparr>s_wakeups := 0\<rparr>" and ?cmds = "cq_queue (s_commandQueue s)"
    have "attached k c ?s" "\<forall>cmd \<in> set ?cmds. cmd_connID cmd \<noteq> k" "cq_queue (s_commandQueue ?s) = ?cmds @ []"
      using assms(1,2) cmds by (auto simp: attached_def server_ok_def concerns_def own_commands_def filter_empty_conv)
    moreover have "handle_all (handleCommand h d) (dequeue s_commandQueue set_queue) ?cmds ?s = (r, s')"
      using run cmds by (simp add: handle_event_def drain_commands_all)
    ultimately have "same_for k (c_fd c) ?s s'" using handle_all_apart by blast
    then show ?thesis by (simp add: same_for_def own_commands_def fixtures_def)
  next
    case accept
    then show ?thesis using run accepts_apart assms(1,3) by (auto simp: handle_event_def)
  next
    case (conn k' c')
    have k': "k' \<noteq> k" using assms(2) conn by (auto simp: concerns_def)
    then have fds: "c_fd c' \<noteq> c_fd c" "c_fd c \<noteq> -1"
      using assms(1) other_fd conn(4) unfolding attached_def by blast+
    show ?thesis
    proof (cases "ev_hup ev \<or> \<not> ev_in ev")
      case True
      then show ?thesis using run conn delete_conn_apart [OF _ k' fds]
        by (auto simp: handle_event_def split: if_splits)
    next
      case False
      obtain q s1 where rd: "on_conn k' c' (readFd h d (ev_chunks ev) (ev_end ev)) s = (q, s1)"
        by (cases "on_conn k' c' (readFd h d (ev_chunks ev) (ev_end ev)) s")
      note one = on_conn_apart [OF wires.keeps_readFd rd k' fds]
      obtain c'' where c'': "map_of (s_connections s1) k' = Some c''" "c_fd c'' \<noteq> c_fd c" using one(2) by blast
      have "s' = s1 \<or> delete_conn h d k' c'' s1 = (r, s')"
        using run conn False rd c''(1)
        by (auto simp: handle_event_def bindP_def split: if_splits sum.splits)
      then show ?thesis
        using one(1) delete_conn_apart [OF _ k' c''(2) fds(2)] same_for_trans by blast
    qed
  qed simp
qed

lemma queues_server_ok: "queues_only s s' \<Longrightarrow> server_ok s \<Longrightarrow> server_ok s'"
  using queues_only_fields [of s s'] server_ok_cong [of s' s] by simp

lemma elsewhere_apart:
  assumes "elsewhere h d k s s'" "attached k c s"
  shows "same_for k (c_fd c) s s'" "attached k c s'"
proof -
  have ok: "server_ok s" using assms(2) by (simp add: attached_def)
  have "same_for k (c_fd c) s s' \<and> server_ok s'"
    using assms(1)
  proof cases
    case (event ev u)
    then show ?thesis using event_apart [OF assms(2)] handle_event_ok [OF ok] by blast
  next
    case (thrown ev x)
    then show ?thesis using event_apart [OF assms(2)] handle_event_ok [OF ok] by blast
  next
    case (pool p)
    then show ?thesis using ok pool_step_enqueued [OF pool(2)]
      by (simp add: same_for_def own_commands_def fixtures_def server_ok_def)
  next
    case (respond resp u)
    then have "server_ok s'" using queues_server_ok [OF _ ok] sendResponse_queues [of s resp] by simp
    then show ?thesis using respond
      by (auto simp: sendResponse_def bindP_def prog_simps push_command_def wakeEpoll_def cq_push_def
          same_for_def own_commands_def fixtures_def split: option.splits)
  next
    case (close k' u)
    then have "server_ok s'" using queues_server_ok [OF _ ok] closeConnection_queues [of s k'] by simp
    then show ?thesis using close
      by (auto simp: closeConnection_cmd_def bindP_def prog_simps push_command_def wakeEpoll_def cq_push_def
          same_for_def own_commands_def fixtures_def split: option.splits)
  qed
  then show "same_for k (c_fd c) s s'" "attached k c s'" using attached_same [OF assms(2)] by blast+
qed

lemma elsewhere_many:
  assumes "(elsewhere h d k)\<^sup>*\<^sup>* s s'" "attached k c s"
  shows "same_for k (c_fd c) s s'" "attached k c s'"
proof -
  from assms(1) have "same_for k (c_fd c) s s' \<and> attached k c s'"
  proof induction
    case base
    then show ?case using assms(2) by simp
  next
    case (step t t')
    then show ?case using elsewhere_apart [of h d k t t' c] same_for_trans by blast
  qed
  then show "same_for k (c_fd c) s s'" "attached k c s'" by blast+
qed

text \<open>
  C18: one client notices nothing of the others. From any reachable state, whatever events of other
  connections, new connections, steps of the pool and responses or closings for others follow, in
  whatever order and also when they throw: the connection, the bytes on its descriptor, its
  commands, and the requests of it in the pool are as before.
\<close>

theorem others_invisible:
  assumes "server_reach h d' n s" "map_of (s_connections s) k = Some c" "c_fd c \<noteq> -1"
    and "(elsewhere h d k)\<^sup>*\<^sup>* s s'"
  shows "same_for k (c_fd c) s s'
    \<and> filter (\<lambda>r. rq_connID r = k) (tp_enqueued (s_tpool s')) = filter (\<lambda>r. rq_connID r = k) (tp_enqueued (s_tpool s))"
proof -
  have att: "attached k c s"
    using server_reach_inv [OF assms(1)] assms(2,3) by (simp add: server_inv_def attached_def)
  note after = elsewhere_many [OF assms(4) att]
  show ?thesis
    using after att server_okD(4) [of s k c] server_okD(4) [of s' k c] by (simp add: attached_def)
qed

section \<open>A command of its own\<close>

lemma handle_all_append:
  "handle_all f b (xs @ ys) s =
    (case handle_all f b xs s of (Inl e, s') \<Rightarrow> (Inl e, s') | (Inr _, s') \<Rightarrow> handle_all f b ys s')"
  by (induction xs arbitrary: s) (auto split: prod.split sum.split)

lemma fixtures_store: "fixtures s (store_conn k c c' w (dequeue s_commandQueue set_queue cmd s))"
  by (simp add: fixtures_def store_conn_eq dequeue_def)

text \<open>The bytes \<open>enc\<close> are the frame \<open>f\<close>, under the key of \<open>c\<close> and with its next number.\<close>

definition numbered :: "host \<Rightarrow> ClientConnection \<Rightarrow> Frame \<Rightarrow> bytes \<Rightarrow> bool" where
  "numbered h c f enc \<longleftrightarrow>
    (\<exists>t t'. encodeFrame (h_ssl h) f True (c_aesKey c) (c_fid c + 1) t = (Inr enc, t'))"

text \<open>
  The eventfd's event that finds one frame for client \<open>k\<close> among the commands of the others, and
  throws for none of them: it sends this frame to \<open>k\<close>, and nothing else.
\<close>

lemma command_sent:
  assumes att: "attached k c s" and can: "can_send h c"
    and mine: "own_commands k s = [send_cmd (k, f)]"
    and f: "length (path f) < 2 ^ 16" "length (path f) + length (data f) + 20 < 2 ^ 31"
    and ev: "Some (ev_fd ev) = s_cmdEvFd s" "handle_event h (Suc d) ev s = (Inr u, s')"
  shows "\<exists>enc. numbered h c f enc
    \<and> wire (c_fd c) (s_world s') = wire (c_fd c) (s_world s) @ enc
    \<and> attached k (c\<lparr>c_fid := c_fid c + 1\<rparr>) s' \<and> own_commands k s' = [] \<and> fixtures s s'"
proof -
  let ?run = "handle_all (handleCommand h (Suc d)) (dequeue s_commandQueue set_queue)"
  let ?s = "s\<lparr>s_wakeups := 0\<rparr>" and ?cmd = "send_cmd (k, f)" and ?c = "c\<lparr>c_fid := c_fid c + 1\<rparr>"
  obtain as bs where q: "cq_queue (s_commandQueue s) = as @ ?cmd # bs"
    and as: "\<forall>cmd \<in> set as. cmd_connID cmd \<noteq> k" and bs: "\<forall>cmd \<in> set bs. cmd_connID cmd \<noteq> k"
    using filter_eq_ConsD [OF mine [unfolded own_commands_def]] filter_empty_conv [of "\<lambda>cmd. cmd_connID cmd = k"]
    by metis
  have "?run (as @ ?cmd # bs) ?s = (Inr u, s')"
    using ev q by (simp add: handle_event_def drain_commands_all)
  then obtain v s1 where run1: "?run as ?s = (Inr v, s1)" and rest: "?run (?cmd # bs) s1 = (Inr u, s')"
    by (auto simp: handle_all_append split: prod.splits sum.splits)
  have att0: "attached k c ?s" "cq_queue (s_commandQueue ?s) = as @ (?cmd # bs)"
    using att q by (simp_all add: attached_def server_ok_def)
  note one = handle_all_apart [OF att0(1) as att0(2) run1]
  then have c1: "map_of (s_connections s1) k = Some c" "server_ok s1" "c_fd c \<noteq> -1"
    and q1: "cq_queue (s_commandQueue s1) = ?cmd # bs" by (simp_all add: attached_def)
  obtain enc t w' where enc: "encodeFrame (h_ssl h) f True (c_aesKey c) (c_fid c + 1) (w_crypto (s_world s1)) = (Inr enc, t)"
    and snd: "sendFrame h (Suc d) f (c, s_world s1) = (Inr (), (?c, w'))"
    and out: "wire (c_fd c) w' = wire (c_fd c) (s_world s1) @ enc"
    by (rule sendFrame_sends [OF can f])
  let ?s1 = "dequeue s_commandQueue set_queue ?cmd s1"
  let ?s2 = "store_conn k c ?c w' ?s1"
  have hc: "handleCommand h (Suc d) ?cmd ?s1 = (Inr (), ?s2)"
    using c1(1) snd by (simp add: handleCommand_def on_conn_def dequeue_def)
  have "server_ok ?s1" using c1(2) by (simp add: dequeue_def server_ok_def)
  then have att2: "attached k ?c ?s2" using handleCommand_ok [OF _ hc] c1(3)
    by (simp add: attached_def store_conn_eq update_conv')
  have q2: "cq_queue (s_commandQueue ?s2) = bs @ []"
    using q1 by (simp add: store_conn_eq dequeue_def cq_tryPop_def)
  have "?run bs ?s2 = (Inr u, s')" using rest hc by simp
  note two = handle_all_apart [OF att2 bs q2 this]
  have "wire (c_fd c) (s_world s') = wire (c_fd c) (s_world s) @ enc"
    using one two out by (simp add: same_for_def store_conn_eq)
  moreover have "own_commands k s' = []" using two by (simp add: own_commands_def)
  moreover have "fixtures s s'"
    using one two fixtures_store [of s1 k c ?c w' ?cmd] by (simp add: same_for_def fixtures_def)
  moreover have "numbered h c f enc" using enc by (auto simp: numbered_def)
  ultimately show ?thesis using two by blast
qed

section \<open>Being served among others\<close>

text \<open>A client with nothing under way; \<open>e\<close> is the eventfd.\<close>

definition resting :: "int \<Rightarrow> ClientConnection \<Rightarrow> Server \<Rightarrow> bool" where
  "resting e c s \<longleftrightarrow> attached (c_connId c) c s \<and> s_cmdEvFd s = Some e \<and> c_fd c \<noteq> e
    \<and> c_fd c \<noteq> s_socket s \<and> s_alive s \<and> own_commands (c_connId c) s = []"

lemma resting_elsewhere:
  assumes "resting e c s" "(elsewhere h d (c_connId c))\<^sup>*\<^sup>* s s'"
  shows "resting e c s'" "fixtures s s'" "wire (c_fd c) (s_world s') = wire (c_fd c) (s_world s)"
  using elsewhere_many [OF assms(2), of c] assms(1) by (auto simp: resting_def same_for_def fixtures_def)

text \<open>The epoll thread wakes up for the commands; the others go on before and after.\<close>

definition flushed :: "host \<Rightarrow> nat \<Rightarrow> u64 \<Rightarrow> Server \<Rightarrow> Server \<Rightarrow> bool" where
  "flushed h d k s s' \<longleftrightarrow> (\<exists>s1 s2 ev. (elsewhere h d k)\<^sup>*\<^sup>* s s1 \<and> Some (ev_fd ev) = s_cmdEvFd s1
    \<and> handle_event h d ev s1 = (Inr (), s2) \<and> (elsewhere h d k)\<^sup>*\<^sup>* s2 s')"

lemma frame_flushed:
  assumes att: "attached k c s" "can_send h c" "own_commands k s = [send_cmd (k, f)]"
    and f: "length (path f) < 2 ^ 16" "length (path f) + length (data f) + 20 < 2 ^ 31"
    and fl: "flushed h (Suc d) k s s'"
  shows "\<exists>enc. numbered h c f enc
    \<and> wire (c_fd c) (s_world s') = wire (c_fd c) (s_world s) @ enc
    \<and> attached k (c\<lparr>c_fid := c_fid c + 1\<rparr>) s' \<and> own_commands k s' = [] \<and> fixtures s s'"
proof -
  obtain s1 s2 ev where fl: "(elsewhere h (Suc d) k)\<^sup>*\<^sup>* s s1" "Some (ev_fd ev) = s_cmdEvFd s1"
    "handle_event h (Suc d) ev s1 = (Inr (), s2)" "(elsewhere h (Suc d) k)\<^sup>*\<^sup>* s2 s'"
    using fl by (auto simp: flushed_def)
  note one = elsewhere_many [OF fl(1) att(1)]
  have "own_commands k s1 = [send_cmd (k, f)]" using one(1) att(3) by (simp add: same_for_def)
  from command_sent [OF one(2) att(2) this f fl(2,3)] obtain enc where
    enc: "numbered h c f enc"
    and s2: "wire (c_fd c) (s_world s2) = wire (c_fd c) (s_world s1) @ enc"
      "attached k (c\<lparr>c_fid := c_fid c + 1\<rparr>) s2" "own_commands k s2 = []" "fixtures s1 s2" by blast
  note two = elsewhere_many [OF fl(4) s2(2)]
  show ?thesis using enc s2 one two by (auto simp: same_for_def fixtures_def)
qed

text \<open>
  A request of client \<open>k\<close>: its bytes arrive on the descriptor \<open>fd\<close>, some worker runs the route, and
  the epoll thread sends the answer; and a push to client \<open>k\<close>. The others go on in between.
\<close>

definition served :: "host \<Rightarrow> nat \<Rightarrow> u64 \<Rightarrow> int \<Rightarrow> Request \<Rightarrow> bytes \<Rightarrow> Server \<Rightarrow> Server \<Rightarrow> bool" where
  "served h d k fd req rq s s' \<longleftrightarrow> (\<exists>ev s1 s2 s3. brings fd rq ev \<and> handle_event h d ev s = (Inr (), s1)
    \<and> (elsewhere h d k)\<^sup>*\<^sup>* s1 s2 \<and> Running req \<in> set (tp_workers (s_tpool s2))
    \<and> router req s2 = (Inr (), s3) \<and> flushed h d k s3 s')"

definition pushed :: "host \<Rightarrow> nat \<Rightarrow> u64 \<Rightarrow> bytes \<Rightarrow> bytes \<Rightarrow> u8 \<Rightarrow> Server \<Rightarrow> Server \<Rightarrow> bool" where
  "pushed h d k pa dt st s s' \<longleftrightarrow>
    (\<exists>s1. call_responder (ServerPush k pa dt st) s = (Inr (), s1) \<and> flushed h d k s1 s')"

text \<open>The command a call of the responder queues for a client at rest.\<close>

lemma responder_queues_one:
  assumes "resting e c s" "responder rc = sendResponse resp" "rs_connID resp = c_connId c"
  shows "\<exists>s'. call_responder rc s = (Inr (), s') \<and> attached (c_connId c) c s'
    \<and> own_commands (c_connId c) s' = [send_cmd (c_connId c,
        makeRespFrame c (rs_path resp) (rs_data resp) (rs_status resp) 0 (rs_rid resp))]
    \<and> fixtures s s' \<and> s_world s' = s_world s"
  using assms
  by (simp add: call_responder_def sendResponse_def resting_def attached_def server_ok_def push_command_def
      wakeEpoll_def own_commands_def fixtures_def cq_push_def bindP_def prog_simps)

lemma pushed_amid:
  assumes "resting e c s" "can_send h c" "length pa < 2 ^ 16" "length pa + length dt + 20 < 2 ^ 31"
    and "pushed h (Suc d) (c_connId c) pa dt st s s'"
  shows "\<exists>enc. numbered h c (makeRespFrame c pa dt st 0 0) enc
    \<and> wire (c_fd c) (s_world s') = wire (c_fd c) (s_world s) @ enc
    \<and> resting e (c\<lparr>c_fid := c_fid c + 1\<rparr>) s' \<and> fixtures s s'"
proof -
  let ?resp = "Response_push (c_connId c) pa dt 0 st" and ?f = "makeRespFrame c pa dt st 0 0"
  have resp: "rs_connID ?resp = c_connId c" "rs_path ?resp = pa" "rs_data ?resp = dt" "rs_status ?resp = st"
    "rs_rid ?resp = 0" by (simp_all add: Response_push_def)
  obtain s1 where run: "call_responder (ServerPush (c_connId c) pa dt st) s = (Inr (), s1)"
    and s1: "attached (c_connId c) c s1" "own_commands (c_connId c) s1 = [send_cmd (c_connId c, ?f)]"
      "fixtures s s1" "s_world s1 = s_world s"
    using responder_queues_one [OF assms(1) responder.simps(3) resp(1)] resp(2-5) by auto
  have fl: "flushed h (Suc d) (c_connId c) s1 s'" using assms(5) run by (auto simp: pushed_def)
  have f: "length (path ?f) < 2 ^ 16" "length (path ?f) + length (data ?f) + 20 < 2 ^ 31"
    using assms(3,4) by (simp_all add: makeRespFrame_def makeFrame_def)
  from frame_flushed [OF s1(1) assms(2) s1(2) f fl] show ?thesis
    using s1(3,4) assms(1) by (auto simp: resting_def fixtures_def)
qed

lemma served_amid:
  assumes rest: "resting e c s" and can: "can_send h c" "c_state c = ACTIVE" "c_inFrameBuffer c = []"
    and frame: "encodes h c f rq" "ssid f = c_ssid c" "c_lastCliFid c < fid f"
    and route: "answers s (request_of c f) dt st" "length (path f) < 2 ^ 16"
      "length (path f) + length dt + 20 < 2 ^ 31"
    and sv: "served h (Suc d) (c_connId c) (c_fd c) (request_of c f) rq s s'"
  shows "\<exists>enc. numbered h c (makeRespFrame c (path f) dt st 0 (rid f)) enc
    \<and> wire (c_fd c) (s_world s') = wire (c_fd c) (s_world s) @ enc
    \<and> resting e ((server_record f c)\<lparr>c_fid := c_fid c + 1\<rparr>) s' \<and> fixtures s s'"
proof -
  let ?k = "c_connId c" and ?req = "request_of c f" and ?c = "server_record f c"
  note R = rest [unfolded resting_def attached_def]
  have req: "rq_connID ?req = ?k" "rq_path ?req = path f" "rq_rid ?req = rid f"
    by (simp_all add: request_of_def Request_of_def)
  have dec: "can_decode h c" using can(1) by (simp add: can_send_def can_decode_def)
  obtain ev s1 s2 s3 where ev: "brings (c_fd c) rq ev" "handle_event h (Suc d) ev s = (Inr (), s1)"
    and mid: "(elsewhere h (Suc d) ?k)\<^sup>*\<^sup>* s1 s2" "router ?req s2 = (Inr (), s3)"
      "flushed h (Suc d) ?k s3 s'"
    using sv by (auto simp: served_def)
  note B = ev(1) [unfolded brings_def]
  have bs: "concat (ev_chunks ev) = rq" using B by simp
  obtain w' where rd: "readFd h (Suc d) (ev_chunks ev) WouldBlock (c, s_world s) = (Inr True, (?c, w'))"
    and w': "w_out w' = w_out (s_world s)"
    by (rule server_reads_one [OF dec can(2,3) frame(1) bs frame(2,3)])
  have own: "map_of (s_fdToId s) (c_fd c) = Some ?k" using server_okD(3) R by blast
  have s1: "s1 = s\<lparr>s_connections := AList.update ?k ?c (s_connections s), s_world := w',
      s_tpool := tp_enqueue ?req (s_tpool s)\<rparr>"
    using server_event_reads [OF _ own _ _ _ _ _ _ rd can(2)] R B ev(2) by simp
  have "server_ok s1" using handle_event_ok [OF _ _ ev(2)] R B by auto
  then have rest1: "resting e ?c s1" and f1: "fixtures s s1"
    and out1: "wire (c_fd c) (s_world s1) = wire (c_fd c) (s_world s)"
    using R w' by (simp_all add: s1 resting_def attached_def update_conv' server_record_def fixtures_def
        own_commands_def wire_def)
  have id: "c_connId ?c = ?k" "c_fd ?c = c_fd c" "c_aesKey ?c = c_aesKey c" "c_fid ?c = c_fid c"
    "makeRespFrame ?c = makeRespFrame c" "numbered h ?c = numbered h c"
    by (simp_all add: server_record_def makeRespFrame_def numbered_def fun_eq_iff)
  note two = resting_elsewhere [OF rest1, unfolded id(1), OF mid(1)]
  have "answers s2 ?req dt st"
    using route(1) answers_cong [of s2 s] fixtures_trans [OF f1 two(2)] by (simp add: fixtures_def)
  then have turn: "call_responder (Respond ?req dt st) s2 = (Inr (), s3)" using answers_router mid(2) by metis
  let ?resp = "Response_to ?req dt st" and ?f = "makeRespFrame c (path f) dt st 0 (rid f)"
  have resp: "rs_connID ?resp = c_connId ?c" "rs_path ?resp = path f" "rs_data ?resp = dt" "rs_status ?resp = st"
    "rs_rid ?resp = rid f" using req id by (simp_all add: Response_to_def)
  have s3: "attached ?k ?c s3" "own_commands ?k s3 = [send_cmd (?k, ?f)]" "fixtures s2 s3" "s_world s3 = s_world s2"
    using responder_queues_one [OF two(1) responder.simps(1) resp(1)] turn resp(2-5) id by auto
  have f: "length (path ?f) < 2 ^ 16" "length (path ?f) + length (data ?f) + 20 < 2 ^ 31"
    using route(2,3) by (simp_all add: makeRespFrame_def makeFrame_def)
  have can': "can_send h ?c" using can(1) by (simp add: can_send_def server_record_def)
  from frame_flushed [OF s3(1) can' s3(2) f mid(3)] show ?thesis
    using s3(3,4) two out1 f1 R id by (auto simp: resting_def fixtures_def server_record_def [of f c])
qed

section \<open>A server at rest can do all this\<close>

text \<open>No command and no task waits, and worker \<open>i\<close> is ready.\<close>

definition idle :: "nat \<Rightarrow> Server \<Rightarrow> bool" where
  "idle i s \<longleftrightarrow> cq_queue (s_commandQueue s) = [] \<and> tp_tasks (s_tpool s) = [] \<and> \<not> tp_terminated (s_tpool s)
    \<and> i < length (tp_workers (s_tpool s)) \<and> tp_workers (s_tpool s) ! i = Ready"

lemma flushed_after: "elsewhere h d k s s1 \<Longrightarrow> flushed h d k s1 s' \<Longrightarrow> flushed h d k s s'"
  unfolding flushed_def by (meson converse_rtranclp_into_rtranclp)

lemma flushed_possible:
  assumes "map_of (s_connections s) k = Some c" "can_send h c" "cq_queue (s_commandQueue s) = [send_cmd (k, f)]"
    and f: "length (path f) < 2 ^ 16" "length (path f) + length (data f) + 20 < 2 ^ 31" and "s_cmdEvFd s = Some e"
  shows "\<exists>s'. flushed h (Suc d) k s s' \<and> cq_queue (s_commandQueue s') = [] \<and> s_tpool s' = s_tpool s"
proof -
  obtain enc t w' where snd: "sendFrame h (Suc d) f (c, s_world s) = (Inr (), (c\<lparr>c_fid := c_fid c + 1\<rparr>, w'))"
    by (rule sendFrame_sends [OF assms(2) f])
  let ?ev = "\<lparr>ev_fd = e, ev_hup = False, ev_in = True, ev_accepts = [], ev_chunks = [], ev_end = WouldBlock\<rparr>"
  let ?s' = "store_conn k c (c\<lparr>c_fid := c_fid c + 1\<rparr>) w'
      (s\<lparr>s_wakeups := 0, s_commandQueue := s_commandQueue s\<lparr>cq_queue := []\<rparr>\<rparr>)"
  have "handle_event h (Suc d) ?ev s = (Inr (), ?s')"
    using assms(1,3,6) snd by (simp add: handle_event_def drain_one handleCommand_def on_conn_def)
  then have "flushed h (Suc d) k s ?s'"
    unfolding flushed_def using assms(6) by (intro exI [of _ s] exI [of _ ?s'] exI [of _ ?ev]) simp
  then show ?thesis by (intro exI [of _ ?s']) (simp add: store_conn_eq)
qed

lemma pushed_possible:
  assumes "resting e c s" "idle i s" "can_send h c" "length pa < 2 ^ 16" "length pa + length dt + 20 < 2 ^ 31"
  shows "\<exists>s'. pushed h (Suc d) (c_connId c) pa dt st s s' \<and> idle i s'"
proof -
  let ?f = "makeRespFrame c pa dt st 0 0"
  let ?s1 = "s\<lparr>s_commandQueue := cq_push (send_cmd (c_connId c, ?f)) (s_commandQueue s), s_wakeups := s_wakeups s + 1\<rparr>"
  have "call_responder (ServerPush (c_connId c) pa dt st) s = (Inr (), ?s1)"
    using assms(1) by (simp add: call_responder_def sendResponse_def Response_push_def resting_def attached_def
        push_command_def wakeEpoll_def bindP_def prog_simps)
  moreover have "length (path ?f) < 2 ^ 16" "length (path ?f) + length (data ?f) + 20 < 2 ^ 31"
    using assms(4,5) by (simp_all add: makeRespFrame_def makeFrame_def)
  then have "\<exists>s'. flushed h (Suc d) (c_connId c) ?s1 s' \<and> cq_queue (s_commandQueue s') = [] \<and> s_tpool s' = s_tpool ?s1"
    by (rule flushed_possible [OF _ assms(3) _ _ _, rotated 2])
      (use assms(1,2) in \<open>simp_all add: resting_def attached_def idle_def cq_push_def\<close>)
  ultimately show ?thesis using assms(2) by (fastforce simp: pushed_def idle_def)
qed

lemma served_possible:
  assumes rest: "resting e c s" "idle i s" and can: "can_send h c" "c_state c = ACTIVE" "c_inFrameBuffer c = []"
    and frame: "encodes h c f rq" "ssid f = c_ssid c" "c_lastCliFid c < fid f"
    and route: "answers s (request_of c f) dt st" "length (path f) < 2 ^ 16"
      "length (path f) + length dt + 20 < 2 ^ 31"
  shows "\<exists>s'. served h (Suc d) (c_connId c) (c_fd c) (request_of c f) rq s s' \<and> idle i s'"
proof -
  let ?k = "c_connId c" and ?req = "request_of c f" and ?c = "server_record f c"
  let ?ev = "\<lparr>ev_fd = c_fd c, ev_hup = False, ev_in = True, ev_accepts = [], ev_chunks = [rq], ev_end = WouldBlock\<rparr>"
  note R = rest(1) [unfolded resting_def attached_def] and I = rest(2) [unfolded idle_def]
  have req: "rq_connID ?req = ?k" "rq_path ?req = path f" "rq_rid ?req = rid f"
    by (simp_all add: request_of_def Request_of_def)
  have dec: "can_decode h c" using can(1) by (simp add: can_send_def can_decode_def)
  have bs: "concat [rq] = rq" by simp
  obtain w' where rd: "readFd h (Suc d) [rq] WouldBlock (c, s_world s) = (Inr True, (?c, w'))"
    by (rule server_reads_one [OF dec can(2,3) frame(1) bs frame(2,3)])
  have own: "map_of (s_fdToId s) (c_fd c) = Some ?k" using server_okD(3) R by blast
  let ?s1 = "s\<lparr>s_connections := AList.update ?k ?c (s_connections s), s_world := w',
      s_tpool := tp_enqueue ?req (s_tpool s)\<rparr>"
  have e1: "handle_event h (Suc d) ?ev s = (Inr (), ?s1)"
    by (rule server_event_reads [OF _ own]) (use R rd can(2) in simp_all)
  let ?p = "worker_check i (s_tpool ?s1)"
  have pool: "tp_tasks (s_tpool ?s1) = [?req]" "i < length (tp_workers (s_tpool ?s1))" "tp_workers (s_tpool ?s1) ! i = Ready"
    "\<not> tp_terminated (s_tpool ?s1)" using I by (simp_all add: tp_enqueue_def tp_push_def Let_def)
  then have p: "i < length (tp_workers ?p)" "tp_workers ?p ! i = Running ?req" "tp_tasks ?p = []" "\<not> tp_terminated ?p"
    by (simp_all add: worker_check_def tp_pop_def set_worker_def)
  let ?s2 = "?s1\<lparr>s_tpool := ?p\<rparr>"
  have take: "elsewhere h (Suc d) ?k ?s1 ?s2"
    by (rule elsewhere.pool [OF pool_step.check]) (use pool in simp_all)
  let ?f = "makeRespFrame c (path f) dt st 0 (rid f)"
  have resp: "makeRespFrame ?c = makeRespFrame c" by (simp add: server_record_def makeRespFrame_def fun_eq_iff)
  let ?s3 = "?s2\<lparr>s_commandQueue := cq_push (send_cmd (?k, ?f)) (s_commandQueue s), s_wakeups := s_wakeups s + 1\<rparr>"
  have "answers ?s2 ?req dt st" using route(1) answers_cong [of ?s2 s] by simp
  then have turn: "router ?req ?s2 = (Inr (), ?s3)"
    using R req resp by (simp add: answers_router responder_sends [where e = e and c = ?c] update_conv')
  let ?s4 = "?s3\<lparr>s_tpool := worker_finish never i ?req ?p\<rparr>"
  have "elsewhere h (Suc d) ?k ?s3 ?s4"
    using elsewhere.pool [where s = ?s3 and p = "worker_finish never i ?req ?p"] pool_step.finish [OF p(4,1,2)]
    by simp
  moreover have f: "length (path ?f) < 2 ^ 16" "length (path ?f) + length (data ?f) + 20 < 2 ^ 31"
    using route(2,3) by (simp_all add: makeRespFrame_def makeFrame_def)
  have "\<exists>s'. flushed h (Suc d) ?k ?s4 s' \<and> cq_queue (s_commandQueue s') = [] \<and> s_tpool s' = s_tpool ?s4"
    by (rule flushed_possible [where c = ?c and e = e, OF _ _ _ f])
      (use R I can(1) in \<open>simp_all add: update_conv' cq_push_def can_send_def server_record_def\<close>)
  ultimately obtain s' where fl: "flushed h (Suc d) ?k ?s3 s'" and q: "cq_queue (s_commandQueue s') = []"
    and tp: "s_tpool s' = s_tpool ?s4" using flushed_after by blast
  have "idle i s'" using q p by (simp add: idle_def tp worker_finish_def set_worker_def)
  moreover have "Running ?req \<in> set (tp_workers (s_tpool ?s2))" using p(1,2) nth_mem by fastforce
  moreover have "brings (c_fd c) rq ?ev" by (simp add: brings_def)
  ultimately show ?thesis using e1 turn fl take unfolding served_def by (blast intro: r_into_rtranclp)
qed

section \<open>A second client\<close>

text \<open>The client of \<open>one_client\<close> while another one connects, on descriptor 8, and hangs up.\<close>

theorem others_invisible_witness:
  "\<exists>s1 s2. handle_event sample_host 1 (sample_event 3\<lparr>ev_accepts := [8]\<rparr>) one_client = (Inr (), s1)
    \<and> map_of (s_connections s1) 2 \<noteq> None \<and> handle_event sample_host 1 (sample_event 8) s1 = (Inr (), s2)
    \<and> map_of (s_connections s2) 2 = None \<and> same_for 1 5 one_client s2"
proof -
  let ?ev = "sample_event 3\<lparr>ev_accepts := [8]\<rparr>" and ?s1 = "accept_one 8 one_client"
  have ev: "ev_fd ?ev = 3" "ev_accepts ?ev = [8]" by (simp_all add: sample_event_def)
  have one: "handle_event sample_host 1 ?ev one_client = (Inr (), ?s1)"
    by (simp add: handle_event_def ev)
  have conns: "s_fdToId ?s1 = [(5, 1), (8, 2)]" "s_cmdEvFd ?s1 = Some 6" "s_socket ?s1 = 3"
    by (simp_all add: accept_one_def ClientConnection_new_def setOnClose_def Let_def)
  have "\<not> s_hasOnDisconn one_client"
    by (simp add: one_client_def accept_one_def listening_server_eval Server_new_def ClientConnection_new_def Let_def)
  then obtain c2 where c2: "map_of (s_connections ?s1) 2 = Some c2" "c_fd c2 = 8" "c_state c2 = HANDSHAKE"
    by (simp add: accept_one_def ClientConnection_new_def Let_def)
  obtain s2 where two: "delete_conn sample_host 1 2 c2 ?s1 = (Inr (), s2)"
    and gone: "map_of (s_connections s2) = (map_of (s_connections ?s1))(2 := None)"
    using delete_conn_open [of c2 sample_host 0 2 ?s1] c2(2,3) by auto
  then have two': "handle_event sample_host 1 (sample_event 8) ?s1 = (Inr (), s2)"
    using conns c2(1) by (simp add: handle_event_def)
  have "elsewhere sample_host 1 1 one_client ?s1"
    by (rule elsewhere.event [OF _ _ one]) (simp_all add: concerns_def ev fresh_fds_def)
  moreover have "elsewhere sample_host 1 1 ?s1 s2"
    by (rule elsewhere.event [OF _ _ two']) (simp_all add: concerns_def conns)
  ultimately have run: "(elsewhere sample_host 1 1)\<^sup>*\<^sup>* one_client s2" by simp
  have c: "map_of (s_connections one_client) 1 = Some sample_conn" "c_fd sample_conn \<noteq> -1" "c_fd sample_conn = 5"
    by (simp_all add: sample_conn_def ClientConnection_new_def Let_def)
  have "same_for 1 5 one_client s2"
    using others_invisible [OF one_client_reach [of sample_host 1] c(1,2) run] c(3) by simp
  then show ?thesis using one two' gone c2(1) by auto
qed

end
