(* ===== verification/Sessions.thy ===== *)
theory Sessions
  imports End_To_End
begin

text \<open>
  A session of any length: what \<open>End_To_End\<close> shows for one request, for as many as the user makes
  one after the other, until the frame counters are used up.
\<close>

section \<open>One exchange\<close>

text \<open>A client whose \<open>_onResponse\<close> calls nothing and does not throw.\<close>

definition silent :: "Connection \<Rightarrow> bool" where
  "silent k \<longleftrightarrow> (\<forall>r. k_onResponse k r = ([], None))"

lemma silent_polite: "silent k \<Longrightarrow> polite k"
  by (simp add: silent_def polite_def harmless_def)

lemma silent_record:
  "silent k \<Longrightarrow> client_record f k = k\<lparr>k_lastSrvFid := fid f, k_responses := k_responses k @ [ClientResponse_of f]\<rparr>"
  by (simp add: silent_def client_record_def)

text \<open>
  Everything that happens to one request: it is queued, the client's epoll thread wakes up and
  sends it, its bytes reach the server in some chunks, worker \<open>i\<close> takes a turn, the server's epoll
  thread wakes up and sends the answer, whose bytes reach the client in some chunks.
\<close>

type_synonym both_ends = "(Connection \<times> world) \<times> Server"

definition exchange :: "host \<Rightarrow> host \<Rightarrow> nat \<Rightarrow> nat \<Rightarrow> int \<Rightarrow> bytes \<Rightarrow> bytes \<Rightarrow> both_ends \<Rightarrow> both_ends \<Rightarrow> bool" where
  "exchange hc hs n i fd pa d = (\<lambda>((k, w), s) ((k', w'), s').
    (\<exists>cev sev wev k1 w1 k2 w2 rq s1 s2 rp chunks. queue_request pa d (k, w) = (Inr True, (k1, w1))
      \<and> kv_fd cev = k_cmdEvFd k \<and> handle_client_event hc cev (k1, w1) = (Inr (), (k2, w2))
      \<and> wire (k_socket k) w2 = wire (k_socket k) w @ rq
      \<and> brings fd rq sev \<and> handle_event hs (Suc n) sev s = (Inr (), s1)
      \<and> worker_turn i s1 = (Inr (), s2)
      \<and> Some (ev_fd wev) = s_cmdEvFd s \<and> handle_event hs (Suc n) wev s2 = (Inr (), s')
      \<and> wire fd (s_world s') = wire fd (s_world s) @ rp
      \<and> concat chunks = rp \<and> client_receive hc chunks WouldBlock (k2, w2) = (Inr (), (k', w'))))"

inductive exchanges :: "host \<Rightarrow> host \<Rightarrow> nat \<Rightarrow> nat \<Rightarrow> int \<Rightarrow> (bytes \<times> bytes) list \<Rightarrow> both_ends \<Rightarrow> both_ends \<Rightarrow> bool"
  for hc hs n i fd where
  none: "exchanges hc hs n i fd [] st st"
| more: "exchange hc hs n i fd pa d st st' \<Longrightarrow> exchanges hc hs n i fd reqs st' st''
    \<Longrightarrow> exchanges hc hs n i fd ((pa, d) # reqs) st st''"

inductive_cases exchanges_NilE: "exchanges hc hs n i fd [] st st'"
inductive_cases exchanges_ConsE: "exchanges hc hs n i fd ((pa, d) # reqs) st st'"

text \<open>The two ends of a session at rest.\<close>

definition in_session :: "int \<Rightarrow> nat \<Rightarrow> Connection \<Rightarrow> ClientConnection \<Rightarrow> Server \<Rightarrow> bool" where
  "in_session e i k c s \<longleftrightarrow> paired k c \<and> silent k \<and> k_running k \<and> cq_queue (k_commandQueue k) = []
    \<and> unat (c_lastCliFid c) \<le> unat (k_fid k) \<and> unat (k_lastSrvFid k) \<le> unat (c_fid c) \<and> serving e i c s"

text \<open>The limits a request and its answer have to keep.\<close>

definition fits :: "u32 \<Rightarrow> bytes \<Rightarrow> bytes \<Rightarrow> bool" where
  "fits mx pa d \<longleftrightarrow> length pa < 2 ^ 16 \<and> 57 + length pa + length d \<le> unat mx \<and> 57 + length pa + length d < 2 ^ 31"

text \<open>The route's answer to a request, whatever its identifier.\<close>

definition replies :: "Server \<Rightarrow> u64 \<Rightarrow> bytes \<times> bytes \<Rightarrow> bytes \<times> u8 \<Rightarrow> bool" where
  "replies s k r a \<longleftrightarrow> (\<forall>ri. answers s \<lparr>rq_connID = k, rq_path = fst r, rq_data = snd r, rq_rid = ri\<rparr> (fst a) (snd a))"

lemma replies_cong: "same_setup s s' \<Longrightarrow> replies s' = replies s"
  using answers_cong [of s' s] by (simp add: replies_def same_setup_def fun_eq_iff)

lemma unat_next: "unat x + 1 < 2 ^ 32 \<Longrightarrow> unat (x + 1) = unat x + 1" for x :: u32
  by (simp add: unat_word_ariths)

text \<open>What an exchange does: it can take place, and whatever way it does, the session goes on.\<close>

lemma exchange_served:
  assumes lib: "h_ssl hs = h_ssl hc" "gcm_laws (h_ssl hc)" "gcm_reliable (h_ssl hc)"
    and net: "takes hc (\<lambda>n. n)" "sends_succeed hs"
    and sess: "in_session e i k c s" "unat (k_fid k) + 1 < 2 ^ 32" "unat (c_fid c) + 1 < 2 ^ 32"
    and req: "replies s (c_connId c) (pa, d) (dt, st)" "fits (c_maxFrameSize c) pa d" "fits (k_maxFrameSize k) pa dt"
  shows "\<exists>st'. exchange hc hs n i (c_fd c) pa d ((k, w), s) st'"
    and "exchange hc hs n i (c_fd c) pa d ((k, w), s) ((k', w'), s') \<Longrightarrow>
      \<exists>c'. in_session e i k' c' s' \<and> same_setup s s' \<and> c_connId c' = c_connId c \<and> c_fd c' = c_fd c
        \<and> c_maxFrameSize c' = c_maxFrameSize c \<and> k_maxFrameSize k' = k_maxFrameSize k
        \<and> c_fid c' = c_fid c + 1 \<and> k_fid k' = k_fid k + 1
        \<and> k_responses k' = k_responses k @ [\<lparr>cr_path = pa, cr_data = dt, cr_status = st\<rparr>]"
proof -
  note S = sess(1) [unfolded in_session_def]
  have nums: "c_lastCliFid c < k_fid k + 1" "k_lastSrvFid k < c_fid c + 1"
    using S sess(2,3) by (auto simp: word_less_nat_alt unat_next)
  have pair: "paired k c" "polite k" "k_running k" "cq_queue (k_commandQueue k) = []" "serving e i c s"
    using S silent_polite by blast+
  have ans: "answers s \<lparr>rq_connID = c_connId c, rq_path = pa, rq_data = d, rq_rid = k_rid k + 1\<rparr> dt st"
    using req(1) by (simp add: replies_def)
  have size: "length pa < 2 ^ 16" "57 + length pa + length d \<le> unat (c_maxFrameSize c)"
      "57 + length pa + length d < 2 ^ 31" "57 + length pa + length dt \<le> unat (k_maxFrameSize k)"
      "57 + length pa + length dt < 2 ^ 31"
    using req(2,3) by (simp_all add: fits_def)
  have e: "s_cmdEvFd s = Some e" using pair(5) by (simp add: serving_def)
  let ?f = "makeFrame (k_fid k + 1) STATUS_REQ 0 pa d (k_rid k + 1) (k_ssid k)"
  let ?c2 = "(server_record ?f c)\<lparr>c_fid := c_fid c + 1\<rparr>"
  let ?k2 = "k\<lparr>k_rid := k_rid k + 1, k_wakeups := 0, k_commandQueue := k_commandQueue k\<lparr>cq_queue := []\<rparr>,
      k_fid := k_fid k + 1\<rparr>"
  let ?served = "\<lambda>wev rq. \<forall>sev. brings (c_fd c) rq sev \<longrightarrow>
        (\<exists>s1 s2 s3 rp g. handle_event hs (Suc n) sev s = (Inr (), s1) \<and> worker_turn i s1 = (Inr (), s2)
          \<and> handle_event hs (Suc n) wev s2 = (Inr (), s3)
          \<and> wire (c_fd c) (s_world s3) = wire (c_fd c) (s_world s) @ rp
          \<and> serving e i ?c2 s3 \<and> same_setup s s3 \<and> fid g = c_fid c + 1
          \<and> ClientResponse_of g = \<lparr>cr_path = pa, cr_data = dt, cr_status = st\<rparr>
          \<and> (\<forall>chunks w3. concat chunks = rp \<longrightarrow>
              (\<exists>w4. client_receive hc chunks WouldBlock (?k2, w3) = (Inr (), (client_record g ?k2, w4)))))"
  have trip: "\<exists>k1 w2 rq. queue_request pa d (k, w) = (Inr True, (k1, w))
      \<and> handle_client_event hc cev (k1, w) = (Inr (), (?k2, w2))
      \<and> wire (k_socket k) w2 = wire (k_socket k) w @ rq \<and> ?served wev rq"
    if "kv_fd cev = k_cmdEvFd k" "ev_fd wev = e" for cev wev
    by (rule round_trip [OF lib net pair(1-4) nums pair(5) ans size that])
  show "\<exists>st'. exchange hc hs n i (c_fd c) pa d ((k, w), s) st'"
  proof -
    let ?cev = "\<lparr>kv_fd = k_cmdEvFd k, kv_hup = False, kv_in = True, kv_chunks = [], kv_end = WouldBlock\<rparr>"
    let ?wev = "\<lparr>ev_fd = e, ev_hup = False, ev_in = True, ev_accepts = [], ev_chunks = [], ev_end = WouldBlock\<rparr>"
    have fds: "kv_fd ?cev = k_cmdEvFd k" "ev_fd ?wev = e" by simp_all
    obtain k1 w2 rq where sent: "queue_request pa d (k, w) = (Inr True, (k1, w))"
      "handle_client_event hc ?cev (k1, w) = (Inr (), (?k2, w2))" "wire (k_socket k) w2 = wire (k_socket k) w @ rq"
      and served: "?served ?wev rq"
      using trip [OF fds] by (elim exE conjE)
    let ?sev = "\<lparr>ev_fd = c_fd c, ev_hup = False, ev_in = True, ev_accepts = [], ev_chunks = [rq], ev_end = WouldBlock\<rparr>"
    have sev: "brings (c_fd c) rq ?sev" by (simp add: brings_def)
    from served [THEN spec, THEN mp, OF this] obtain s1 s2 s3 rp g where answered: "handle_event hs (Suc n) ?sev s = (Inr (), s1)"
      "worker_turn i s1 = (Inr (), s2)" "handle_event hs (Suc n) ?wev s2 = (Inr (), s3)"
      "wire (c_fd c) (s_world s3) = wire (c_fd c) (s_world s) @ rp"
      and recv: "\<And>chunks w3. concat chunks = rp \<Longrightarrow>
          \<exists>w4. client_receive hc chunks WouldBlock (?k2, w3) = (Inr (), (client_record g ?k2, w4))" by blast
    have one: "concat [rp] = rp" "kv_fd ?cev = k_cmdEvFd k" "Some (ev_fd ?wev) = s_cmdEvFd s" using e by simp_all
    obtain w4 where "client_receive hc [rp] WouldBlock (?k2, w2) = (Inr (), (client_record g ?k2, w4))"
      using recv [OF one(1)] by blast
    then have "exchange hc hs n i (c_fd c) pa d ((k, w), s) ((client_record g ?k2, w4), s3)"
      unfolding exchange_def prod.case using sent sev answered one by blast
    then show ?thesis by blast
  qed
  show "\<exists>c'. in_session e i k' c' s' \<and> same_setup s s' \<and> c_connId c' = c_connId c \<and> c_fd c' = c_fd c
        \<and> c_maxFrameSize c' = c_maxFrameSize c \<and> k_maxFrameSize k' = k_maxFrameSize k
        \<and> c_fid c' = c_fid c + 1 \<and> k_fid k' = k_fid k + 1
        \<and> k_responses k' = k_responses k @ [\<lparr>cr_path = pa, cr_data = dt, cr_status = st\<rparr>]"
    if ex: "exchange hc hs n i (c_fd c) pa d ((k, w), s) ((k', w'), s')"
  proof -
    obtain cev sev wev k1 w1 k2 w2 rq s1 s2 rp chunks where X: "queue_request pa d (k, w) = (Inr True, (k1, w1))"
      "kv_fd cev = k_cmdEvFd k" "handle_client_event hc cev (k1, w1) = (Inr (), (k2, w2))"
      "wire (k_socket k) w2 = wire (k_socket k) w @ rq" "brings (c_fd c) rq sev"
      "handle_event hs (Suc n) sev s = (Inr (), s1)" "worker_turn i s1 = (Inr (), s2)"
      "Some (ev_fd wev) = s_cmdEvFd s" "handle_event hs (Suc n) wev s2 = (Inr (), s')"
      "wire (c_fd c) (s_world s') = wire (c_fd c) (s_world s) @ rp"
      "concat chunks = rp" "client_receive hc chunks WouldBlock (k2, w2) = (Inr (), (k', w'))"
      using ex unfolding exchange_def prod.case by blast
    have wev: "ev_fd wev = e" using X(8) e by simp
    obtain k1' w2' rq' where "queue_request pa d (k, w) = (Inr True, (k1', w))"
      "handle_client_event hc cev (k1', w) = (Inr (), (?k2, w2'))" "wire (k_socket k) w2' = wire (k_socket k) w @ rq'"
      and served: "?served wev rq'"
      using trip [OF X(2) wev] by (elim exE conjE)
    then have sent: "k2 = ?k2" "wire (k_socket k) w2 = wire (k_socket k) w @ rq'" using X(1,3) by auto
    have "rq' = rq" using sent(2) X(4) by simp
    then have "brings (c_fd c) rq' sev" using X(5) by simp
    from served [THEN spec, THEN mp, OF this] obtain s1' s2' s3' rp' g where "handle_event hs (Suc n) sev s = (Inr (), s1')"
      "worker_turn i s1' = (Inr (), s2')" "handle_event hs (Suc n) wev s2' = (Inr (), s3')"
      "wire (c_fd c) (s_world s3') = wire (c_fd c) (s_world s) @ rp'"
      and after: "serving e i ?c2 s3'" "same_setup s s3'" "fid g = c_fid c + 1"
        "ClientResponse_of g = \<lparr>cr_path = pa, cr_data = dt, cr_status = st\<rparr>"
      and recv: "\<And>chunks w3. concat chunks = rp' \<Longrightarrow>
          \<exists>w4. client_receive hc chunks WouldBlock (?k2, w3) = (Inr (), (client_record g ?k2, w4))" by blast
    then have s3': "s3' = s'" and "rp' = rp" using X(6,7,9,10) by auto
    then have k': "k' = client_record g ?k2" using recv [of chunks w2] X(11,12) sent(1) by auto
    have "silent ?k2" using S by (simp add: silent_def)
    note k' = k' [unfolded silent_record [OF this]]
    have "in_session e i k' ?c2 s'"
      using S after s3' sess(2,3) nums
      by (simp add: in_session_def paired_def silent_def k' server_record_def unat_next makeFrame_def)
    then show ?thesis using after s3' k' by (intro exI [of _ ?c2]) (simp add: server_record_def)
  qed
qed

section \<open>The beginning\<close>

text \<open>
  C3: the handshake begins a session. When a new client and a server that has just accepted its
  connection run the handshake, with clocks that agree within the window and however the bytes
  are cut, both ends are afterwards at rest in one session, from which all requests are served.
\<close>

theorem handshake_begins_session:
  assumes lib: "h_ssl hs = h_ssl hc" "gcm_laws (h_ssl hc)" "gcm_reliable (h_ssl hc)"
      "rsa_pair (h_ssl hc) (k_pubKey k) (c_rsaPrivKey c)"
    and net: "takes hc (\<lambda>n. n)" "sends_succeed hs"
    and client: "k_state k = Handshaking" "\<not> k_handshakeSent k" "k_frameBuffer k = []"
      "75 \<le> unat (k_maxFrameSize k)" "silent k" "k_running k" "cq_queue (k_commandQueue k) = []" "k_lastSrvFid k = 0"
    and server: "fresh_conn c" "c_inFrameBuffer c = []" "285 \<le> unat (c_maxFrameSize c)" "serving e i c s"
      "c_lastCliFid c = 0"
    and clocks: "\<not> fst (getTimestamp hc wk) - fst (getTimestamp hs (s_world s)) > 60"
  shows "\<exists>k1 wk1 hi. doHandshake hc (k, wk) = (Inr (), (k1, wk1))
    \<and> wire (k_socket k) wk1 = wire (k_socket k) wk @ hi
    \<and> (\<forall>sev. brings (c_fd c) hi sev \<longrightarrow>
        (\<exists>s' ho c'. handle_event hs (Suc n) sev s = (Inr (), s') \<and> same_setup s s'
          \<and> wire (c_fd c) (s_world s') = wire (c_fd c) (s_world s) @ ho \<and> begun c c'
          \<and> (\<forall>chunks wk2. concat chunks = ho \<longrightarrow>
              (\<exists>k2 wk3. client_receive hc chunks WouldBlock (k1, wk2) = (Inr (), (k2, wk3))
                \<and> in_session e i k2 c' s' \<and> k_fid k2 = k_fid k \<and> k_responses k2 = k_responses k))))"
proof -
  obtain wk1 hi key where run: "doHandshake hc (k, wk)
      = (Inr (), (k\<lparr>k_aesKey := key, k_rid := k_rid k + 1, k_handshakeSent := True\<rparr>, wk1))" "length key = 32"
    "wire (k_socket k) wk1 = wire (k_socket k) wk @ hi"
    and reads: "\<forall>chunks. concat chunks = hi \<longrightarrow>
        (\<exists>c' ws' ho. readFd hs (Suc n) chunks WouldBlock (c, s_world s) = (Inr True, (c', ws'))
          \<and> begun c c' \<and> c_aesKey c' = key \<and> wire (c_fd c) ws' = wire (c_fd c) (s_world s) @ ho
          \<and> (\<forall>chunks' wk2. concat chunks' = ho \<longrightarrow>
              (\<exists>wk3. client_receive hc chunks' WouldBlock
                  (k\<lparr>k_aesKey := key, k_rid := k_rid k + 1, k_handshakeSent := True\<rparr>, wk2)
                = (Inr (), (k\<lparr>k_aesKey := key, k_rid := k_rid k + 1, k_handshakeSent := True,
                    k_state := Connected, k_ssid := c_ssid c'\<rparr>, wk3)))))"
    using handshake_done [OF lib net client(1-4) server(1-3) clocks, of n]
    by (elim exE conjE) (rule that, assumption+)
  let ?k1 = "k\<lparr>k_aesKey := key, k_rid := k_rid k + 1, k_handshakeSent := True\<rparr>"
  have "\<exists>s' ho c'. handle_event hs (Suc n) sev s = (Inr (), s') \<and> same_setup s s'
      \<and> wire (c_fd c) (s_world s') = wire (c_fd c) (s_world s) @ ho \<and> begun c c'
      \<and> (\<forall>chunks wk2. concat chunks = ho \<longrightarrow>
          (\<exists>k2 wk3. client_receive hc chunks WouldBlock (?k1, wk2) = (Inr (), (k2, wk3))
            \<and> in_session e i k2 c' s' \<and> k_fid k2 = k_fid k \<and> k_responses k2 = k_responses k))"
    if sev: "brings (c_fd c) hi sev" for sev
  proof -
    have ev: "ev_fd sev = c_fd c" "\<not> ev_hup sev" "ev_in sev" "ev_end sev = WouldBlock" "concat (ev_chunks sev) = hi"
      using sev by (simp_all add: brings_def)
    from reads [THEN spec, THEN mp, OF ev(5)] obtain c' ws' ho
      where rd: "readFd hs (Suc n) (ev_chunks sev) WouldBlock (c, s_world s) = (Inr True, (c', ws'))"
      and c': "begun c c'" "c_aesKey c' = key" and out: "wire (c_fd c) ws' = wire (c_fd c) (s_world s) @ ho"
      and recv: "\<forall>chunks' wk2. concat chunks' = ho \<longrightarrow> (\<exists>wk3. client_receive hc chunks' WouldBlock (?k1, wk2)
          = (Inr (), (?k1\<lparr>k_state := Connected, k_ssid := c_ssid c'\<rparr>, wk3)))" by (elim exE conjE)
    note S = server(4) [unfolded serving_def] and B = c'(1) [unfolded begun_def]
    let ?s = "store_conn (c_connId c) c c' ws' s" and ?k2 = "?k1\<lparr>k_state := Connected, k_ssid := c_ssid c'\<rparr>"
    have he: "handle_event hs (Suc n) sev s = (Inr (), ?s)"
      by (rule server_event_handled [OF _ _ _ _ ev(1-4) rd]) (use S B in simp_all)
    have s': "serving e i c' ?s" "same_setup s ?s" "wire (c_fd c) (s_world ?s) = wire (c_fd c) (s_world s) @ ho"
      using S B out by (simp_all add: serving_def same_setup_def store_conn_eq update_conv')
    have "in_session e i ?k2 c' ?s"
      using s'(1) B c'(2) run(2) client server by (simp add: in_session_def paired_def silent_def)
    then have "\<exists>k2 wk3. client_receive hc chunks WouldBlock (?k1, wk2) = (Inr (), (k2, wk3))
        \<and> in_session e i k2 c' ?s \<and> k_fid k2 = k_fid k \<and> k_responses k2 = k_responses k"
      if "concat chunks = ho" for chunks wk2
      using recv [THEN spec, THEN spec, THEN mp, OF that, of wk2] by fastforce
    then show ?thesis using he s'(2,3) c'(1) by blast
  qed
  then show ?thesis using run by blast
qed

section \<open>Any number of exchanges\<close>

text \<open>
  A session serves all its requests. From the end of the handshake on, the requests a user makes
  one after the other, as many as the 32-bit frame counters allow, are all answered: the exchanges
  can take place, and whatever the chunks and the flags of the events, the client delivers exactly
  one response for each request, in the order of the requests, with the path of the request and
  the data and status the route gives it.
\<close>

lemma session_serves_all:
  assumes lib: "h_ssl hs = h_ssl hc" "gcm_laws (h_ssl hc)" "gcm_reliable (h_ssl hc)"
    and net: "takes hc (\<lambda>n. n)" "sends_succeed hs"
    and sess: "in_session e i k c s"
      "unat (k_fid k) + length reqs < 2 ^ 32" "unat (c_fid c) + length reqs < 2 ^ 32"
    and route: "\<forall>r \<in> set reqs. replies s (c_connId c) r (reply r)
      \<and> fits (c_maxFrameSize c) (fst r) (snd r) \<and> fits (k_maxFrameSize k) (fst r) (fst (reply r))"
  shows "(\<exists>st'. exchanges hc hs n i (c_fd c) reqs ((k, w), s) st')
    \<and> (\<forall>k' w' s'. exchanges hc hs n i (c_fd c) reqs ((k, w), s) ((k', w'), s') \<longrightarrow>
        k_responses k' = k_responses k
          @ map (\<lambda>r. \<lparr>cr_path = fst r, cr_data = fst (reply r), cr_status = snd (reply r)\<rparr>) reqs)"
  using sess route
proof (induction reqs arbitrary: k w c s)
  case Nil
  then show ?case by (auto intro: exchanges.none elim: exchanges_NilE)
next
  case (Cons r reqs)
  obtain pa d where r: "r = (pa, d)" by (cases r)
  have served: "replies s (c_connId c) (pa, d) (fst (reply r), snd (reply r))"
    "fits (c_maxFrameSize c) pa d" "fits (k_maxFrameSize k) pa (fst (reply r))"
    using Cons.prems(4) r by simp_all
  have room: "unat (k_fid k) + 1 < 2 ^ 32" "unat (c_fid c) + 1 < 2 ^ 32" using Cons.prems(2,3) by simp_all
  note one = exchange_served [OF lib net Cons.prems(1) room served, where n = n and w = w]
  have rest: "(\<exists>st''. exchanges hc hs n i (c_fd c) reqs ((k', w'), s') st'')
      \<and> (\<forall>k'' w'' s''. exchanges hc hs n i (c_fd c) reqs ((k', w'), s') ((k'', w''), s'') \<longrightarrow>
        k_responses k'' = k_responses k
          @ map (\<lambda>r. \<lparr>cr_path = fst r, cr_data = fst (reply r), cr_status = snd (reply r)\<rparr>) (r # reqs))"
    if ex: "exchange hc hs n i (c_fd c) pa d ((k, w), s) ((k', w'), s')" for k' w' s'
  proof -
    obtain c' where c': "in_session e i k' c' s'" "same_setup s s'" "c_connId c' = c_connId c" "c_fd c' = c_fd c"
      "c_maxFrameSize c' = c_maxFrameSize c" "k_maxFrameSize k' = k_maxFrameSize k"
      "c_fid c' = c_fid c + 1" "k_fid k' = k_fid k + 1"
      "k_responses k' = k_responses k @ [\<lparr>cr_path = pa, cr_data = fst (reply r), cr_status = snd (reply r)\<rparr>]"
      using one(2) [OF ex] by blast
    have "unat (k_fid k') + length reqs < 2 ^ 32" "unat (c_fid c') + length reqs < 2 ^ 32"
      using Cons.prems(2,3) c'(7,8) room by (simp_all add: unat_next)
    moreover have "\<forall>r \<in> set reqs. replies s' (c_connId c') r (reply r)
      \<and> fits (c_maxFrameSize c') (fst r) (snd r) \<and> fits (k_maxFrameSize k') (fst r) (fst (reply r))"
      using Cons.prems(4) c'(2-6) replies_cong by simp
    ultimately show ?thesis using Cons.IH [OF c'(1), of w'] c'(4,9) r by simp
  qed
  obtain k' w' s' where ex: "exchange hc hs n i (c_fd c) pa d ((k, w), s) ((k', w'), s')"
    using one(1) by (metis prod.exhaust)
  have "\<exists>st''. exchanges hc hs n i (c_fd c) (r # reqs) ((k, w), s) st''"
    using rest [OF ex] ex r exchanges.more by blast
  moreover have "k_responses k'' = k_responses k
      @ map (\<lambda>r. \<lparr>cr_path = fst r, cr_data = fst (reply r), cr_status = snd (reply r)\<rparr>) (r # reqs)"
    if run: "exchanges hc hs n i (c_fd c) (r # reqs) ((k, w), s) ((k'', w''), s'')" for k'' w'' s''
  proof -
    obtain k1 w1 s1 where "exchange hc hs n i (c_fd c) pa d ((k, w), s) ((k1, w1), s1)"
      "exchanges hc hs n i (c_fd c) reqs ((k1, w1), s1) ((k'', w''), s'')"
      using run unfolding r by (auto elim!: exchanges_ConsE)
    then show ?thesis using rest by blast
  qed
  ultimately show ?case by blast
qed

section \<open>Two sessions\<close>

lemma sample_takes: "takes sample_host (\<lambda>n. n)"
  by (simp add: takes_def sample_host_def)

theorem handshake_begins_session_witness:
  "\<exists>k1 wk1 s' c' k2 wk3. doHandshake sample_host (sample_client, sample_world) = (Inr (), (k1, wk1))
    \<and> handle_event sample_host 1 \<lparr>ev_fd = 5, ev_hup = False, ev_in = True, ev_accepts = [],
         ev_chunks = [wire 7 wk1], ev_end = WouldBlock\<rparr> one_client = (Inr (), s')
    \<and> client_receive sample_host [wire 5 (s_world s')] WouldBlock (k1, wk1) = (Inr (), (k2, wk3))
    \<and> in_session 6 0 k2 c' s'"
proof -
  have fields: "s_connections one_client = [(1, sample_conn)]" "s_fdToId one_client = [(5, 1)]"
    "s_cmdEvFd one_client = Some 6" "s_socket one_client = 3" "s_alive one_client"
    "cq_queue (s_commandQueue one_client) = []" "s_tpool one_client = ThreadPool 1"
    "s_world one_client = sample_world"
    using one_client_fields by simp_all
  have srv: "serving 6 0 sample_conn one_client"
    by (simp add: serving_def fields ThreadPool_def)
  have rsa: "rsa_pair (h_ssl sample_host) (k_pubKey sample_client) (c_rsaPrivKey sample_conn)"
    using sample_rsa_pair by (simp add: sample_host_def)
  have quiet: "silent sample_client" by (simp add: silent_def)
  have w0: "wire fd sample_world = []" for fd by (simp add: wire_def sample_world_def)
  note T = handshake_begins_session [OF refl sample_host_laws(1,2) rsa sample_takes sample_host_laws(3) _ _ _ _ quiet _ _ _
      sample_conn_fields(1,2) _ srv, of sample_world 0]
  obtain k1 wk1 where 1: "doHandshake sample_host (sample_client, sample_world) = (Inr (), (k1, wk1))"
    and 2: "\<And>sev. brings 5 (wire 7 wk1) sev \<Longrightarrow>
        (\<exists>s' c'. handle_event sample_host (Suc 0) sev one_client = (Inr (), s')
          \<and> (\<forall>chunks wk2. concat chunks = wire 5 (s_world s') \<longrightarrow>
              (\<exists>k2 wk3. client_receive sample_host chunks WouldBlock (k1, wk2) = (Inr (), (k2, wk3))
                \<and> in_session 6 0 k2 c' s')))"
    using T by (fastforce simp: fields w0 getTimestamp_def sample_host_def)
  let ?sev = "\<lparr>ev_fd = 5, ev_hup = False, ev_in = True, ev_accepts = [],
    ev_chunks = [wire 7 wk1], ev_end = WouldBlock\<rparr>"
  have "brings 5 (wire 7 wk1) ?sev" by (simp add: brings_def)
  from 2 [OF this] obtain s' c' where 3: "handle_event sample_host 1 ?sev one_client = (Inr (), s')"
    and 4: "\<And>chunks wk2. concat chunks = wire 5 (s_world s') \<Longrightarrow>
      \<exists>k2 wk3. client_receive sample_host chunks WouldBlock (k1, wk2) = (Inr (), (k2, wk3)) \<and> in_session 6 0 k2 c' s'"
    unfolding One_nat_def by blast
  show ?thesis using 1 3 4 [of "[wire 5 (s_world s')]" wk1] by auto
qed

end
