(* ===== verification/Conversations.thy ===== *)
theory Conversations
  imports Neighbours Sessions
begin

text \<open>
  A client in conversation with a server that is busy with others: requests of the user and pushes
  of the server, in any order, with anything that concerns other clients going on before, between
  and in the middle of them.
\<close>

section \<open>What is said\<close>

datatype utterance = Ask bytes bytes | Push bytes bytes u8

text \<open>
  A request: the user queues it, the client's epoll thread sends it, the server serves it among
  others, and the bytes on the client's descriptor reach the client in some chunks.
\<close>

definition asks :: "host \<Rightarrow> host \<Rightarrow> nat \<Rightarrow> u64 \<Rightarrow> int \<Rightarrow> bytes \<Rightarrow> bytes \<Rightarrow> both_ends \<Rightarrow> both_ends \<Rightarrow> bool" where
  "asks hc hs d ci fd pa dt = (\<lambda>((k, w), s) ((k', w'), s').
    (\<exists>cev k1 w1 k2 w2 rq rp chunks. queue_request pa dt (k, w) = (Inr True, (k1, w1))
      \<and> kv_fd cev = k_cmdEvFd k \<and> handle_client_event hc cev (k1, w1) = (Inr (), (k2, w2))
      \<and> wire (k_socket k) w2 = wire (k_socket k) w @ rq
      \<and> served hs d ci fd \<lparr>rq_connID = ci, rq_path = pa, rq_data = dt, rq_rid = k_rid k + 1\<rparr> rq s s'
      \<and> wire fd (s_world s') = wire fd (s_world s) @ rp
      \<and> concat chunks = rp \<and> client_receive hc chunks WouldBlock (k2, w2) = (Inr (), (k', w'))))"

definition tells :: "host \<Rightarrow> host \<Rightarrow> nat \<Rightarrow> u64 \<Rightarrow> int \<Rightarrow> bytes \<Rightarrow> bytes \<Rightarrow> u8 \<Rightarrow> both_ends \<Rightarrow> both_ends \<Rightarrow> bool" where
  "tells hc hs d ci fd pa dt st = (\<lambda>((k, w), s) ((k', w'), s').
    (\<exists>rp chunks. pushed hs d ci pa dt st s s' \<and> wire fd (s_world s') = wire fd (s_world s) @ rp
      \<and> concat chunks = rp \<and> client_receive hc chunks WouldBlock (k, w) = (Inr (), (k', w'))))"

inductive conversation :: "host \<Rightarrow> host \<Rightarrow> nat \<Rightarrow> u64 \<Rightarrow> int \<Rightarrow> utterance list \<Rightarrow> both_ends \<Rightarrow> both_ends \<Rightarrow> bool"
  for hc hs d ci fd where
  over: "conversation hc hs d ci fd [] st st"
| meanwhile: "elsewhere hs d ci s s' \<Longrightarrow> conversation hc hs d ci fd us (client, s') st
    \<Longrightarrow> conversation hc hs d ci fd us (client, s) st"
| ask: "asks hc hs d ci fd pa dt st st' \<Longrightarrow> conversation hc hs d ci fd us st' st''
    \<Longrightarrow> conversation hc hs d ci fd (Ask pa dt # us) st st''"
| push: "tells hc hs d ci fd pa dt stat st st' \<Longrightarrow> conversation hc hs d ci fd us st' st''
    \<Longrightarrow> conversation hc hs d ci fd (Push pa dt stat # us) st st''"

text \<open>What the client should deliver, and what may be said: the routes answer, and sizes fit.\<close>

fun heard :: "(bytes \<times> bytes \<Rightarrow> bytes \<times> u8) \<Rightarrow> utterance \<Rightarrow> ClientResponse" where
  "heard reply (Ask pa dt) = \<lparr>cr_path = pa, cr_data = fst (reply (pa, dt)), cr_status = snd (reply (pa, dt))\<rparr>"
| "heard reply (Push pa dt st) = \<lparr>cr_path = pa, cr_data = dt, cr_status = st\<rparr>"

fun sayable :: "Connection \<Rightarrow> ClientConnection \<Rightarrow> Server \<Rightarrow> (bytes \<times> bytes \<Rightarrow> bytes \<times> u8) \<Rightarrow> utterance \<Rightarrow> bool" where
  "sayable k c s reply (Ask pa dt) \<longleftrightarrow> replies s (c_connId c) (pa, dt) (reply (pa, dt))
    \<and> fits (c_maxFrameSize c) pa dt \<and> fits (k_maxFrameSize k) pa (fst (reply (pa, dt)))"
| "sayable k c s reply (Push pa dt st) \<longleftrightarrow> fits (k_maxFrameSize k) pa dt"

section \<open>One utterance\<close>

text \<open>The two ends between utterances, whatever the server does for others.\<close>

definition in_touch :: "int \<Rightarrow> Connection \<Rightarrow> ClientConnection \<Rightarrow> Server \<Rightarrow> bool" where
  "in_touch e k c s \<longleftrightarrow> paired k c \<and> silent k \<and> k_running k \<and> cq_queue (k_commandQueue k) = []
    \<and> unat (c_lastCliFid c) \<le> unat (k_fid k) \<and> unat (k_lastSrvFid k) \<le> unat (c_fid c) \<and> resting e c s"

lemma session_in_touch:
  "in_session e i k c s \<Longrightarrow> server_ok s \<Longrightarrow> c_fd c \<noteq> -1 \<Longrightarrow> in_touch e k c s"
  by (simp add: in_session_def in_touch_def serving_def resting_def attached_def own_commands_def)

text \<open>How the two ends go on.\<close>

definition goes_on :: "Connection \<Rightarrow> ClientConnection \<Rightarrow> Server \<Rightarrow> Connection \<Rightarrow> ClientConnection \<Rightarrow> Server \<Rightarrow> bool" where
  "goes_on k c s k' c' s' \<longleftrightarrow> fixtures s s' \<and> c_connId c' = c_connId c \<and> c_fd c' = c_fd c
    \<and> c_maxFrameSize c' = c_maxFrameSize c \<and> k_maxFrameSize k' = k_maxFrameSize k
    \<and> unat (c_fid c') \<le> unat (c_fid c) + 1 \<and> unat (k_fid k') \<le> unat (k_fid k) + 1"

lemma sayable_goes_on:
  assumes "goes_on k c s k' c' s'"
  shows "sayable k' c' s' reply u = sayable k c s reply u"
  using assms answers_cong [of s' s] by (cases u) (simp_all add: goes_on_def fixtures_def replies_def)

text \<open>What both ends rely on: the library, and sockets that take what they are given.\<close>

definition linked :: "host \<Rightarrow> host \<Rightarrow> bool" where
  "linked hc hs \<longleftrightarrow> h_ssl hs = h_ssl hc \<and> gcm_laws (h_ssl hc) \<and> gcm_reliable (h_ssl hc)
    \<and> takes hc (\<lambda>n. n) \<and> sends_succeed hs"

lemma linked_sends: "linked hc hs \<Longrightarrow> paired k c \<Longrightarrow> can_send hs c"
  by (simp add: linked_def paired_def can_send_def)

lemma linked_ready: "linked hc hs \<Longrightarrow> paired k c \<Longrightarrow> client_ready hc k"
  by (simp add: linked_def paired_def client_ready_def)

text \<open>A frame of the server, with its next number, is one response at the client.\<close>

abbreviation has_heard :: "ClientConnection \<Rightarrow> ClientResponse \<Rightarrow> Connection \<Rightarrow> Connection" where
  "has_heard c r k \<equiv> k\<lparr>k_lastSrvFid := c_fid c + 1, k_responses := k_responses k @ [r]\<rparr>"

lemma frame_heard:
  assumes link: "linked hc hs" and pair: "paired k c" "silent k"
    and num: "unat (k_lastSrvFid k) \<le> unat (c_fid c)" "unat (c_fid c) + 1 < 2 ^ 32"
    and fit: "fits (k_maxFrameSize k) pa dt"
    and rp: "numbered hs c (makeRespFrame c pa dt st 0 ri) rp" "concat chunks = rp"
  shows "\<exists>w'. client_receive hc chunks WouldBlock (k, w)
    = (Inr (), (has_heard c \<lparr>cr_path = pa, cr_data = dt, cr_status = st\<rparr> k, w'))"
proof -
  note P = pair(1) [unfolded paired_def]
  let ?g = "renumber (c_fid c + 1) (makeRespFrame c pa dt st 0 ri)"
  obtain t t' where enc: "encodeFrame (h_ssl hc) (makeRespFrame c pa dt st 0 ri) True (k_aesKey k) (c_fid c + 1) t = (Inr rp, t')"
    using rp(1) P link by (auto simp: numbered_def linked_def)
  have k: "k_state k = Connected" "k_frameBuffer k = []" "c_ssid c = k_ssid k" using P by simp_all
  have next_num: "k_lastSrvFid k < c_fid c + 1" using num by (simp add: word_less_nat_alt unat_next)
  have size: "length pa < 2 ^ 16" "57 + length pa + length dt \<le> unat (k_maxFrameSize k)" "57 + length pa + length dt < 2 ^ 31"
    using fit by (simp_all add: fits_def)
  note received = response_received [OF linked_ready [OF link pair(1)] k(1,2) enc k(3) next_num size rp(2) silent_polite [OF pair(2)]]
  show ?thesis using received(1) [of w] received(2,3) silent_record [OF pair(2), of ?g] by simp
qed

lemma tells_delivers:
  assumes link: "linked hc hs" and sess: "in_touch e k c s" "unat (c_fid c) + 1 < 2 ^ 32"
    and fit: "fits (k_maxFrameSize k) pa dt"
  shows "tells hc hs (Suc n) (c_connId c) (c_fd c) pa dt st ((k, w), s) ((k', w'), s') \<Longrightarrow>
      \<exists>c'. in_touch e k' c' s' \<and> goes_on k c s k' c' s'
        \<and> k_responses k' = k_responses k @ [\<lparr>cr_path = pa, cr_data = dt, cr_status = st\<rparr>]"
    and "idle i s \<Longrightarrow> \<exists>st'. tells hc hs (Suc n) (c_connId c) (c_fd c) pa dt st ((k, w), s) st' \<and> idle i (snd st')"
proof -
  note S = sess(1) [unfolded in_touch_def]
  have rest: "resting e c s" and pair: "paired k c" "silent k" and num: "unat (k_lastSrvFid k) \<le> unat (c_fid c)"
    using S by blast+
  have size: "length pa < 2 ^ 16" "length pa + length dt + 20 < 2 ^ 31" using fit by (simp_all add: fits_def)
  note sent = pushed_amid [OF rest linked_sends [OF link pair(1)] size]
    and hears = frame_heard [OF link pair num sess(2) fit]
  show "\<exists>c'. in_touch e k' c' s' \<and> goes_on k c s k' c' s'
        \<and> k_responses k' = k_responses k @ [\<lparr>cr_path = pa, cr_data = dt, cr_status = st\<rparr>]"
    if tl: "tells hc hs (Suc n) (c_connId c) (c_fd c) pa dt st ((k, w), s) ((k', w'), s')"
  proof -
    obtain rp chunks where T: "pushed hs (Suc n) (c_connId c) pa dt st s s'"
      "wire (c_fd c) (s_world s') = wire (c_fd c) (s_world s) @ rp" "concat chunks = rp"
      "client_receive hc chunks WouldBlock (k, w) = (Inr (), (k', w'))"
      using tl unfolding tells_def prod.case by blast
    have E: "numbered hs c (makeRespFrame c pa dt st 0 0) rp" "resting e (c\<lparr>c_fid := c_fid c + 1\<rparr>) s'" "fixtures s s'"
      using sent [OF T(1)] T(2) by auto
    have k': "k' = has_heard c \<lparr>cr_path = pa, cr_data = dt, cr_status = st\<rparr> k" using hears [OF E(1) T(3), of w] T(4) by auto
    then show ?thesis using S E(2,3) sess(2)
      by (intro exI [of _ "c\<lparr>c_fid := c_fid c + 1\<rparr>"]) (simp add: in_touch_def goes_on_def paired_def silent_def unat_next)
  qed
  show "\<exists>st'. tells hc hs (Suc n) (c_connId c) (c_fd c) pa dt st ((k, w), s) st' \<and> idle i (snd st')" if idle: "idle i s"
  proof -
    obtain s' where s': "pushed hs (Suc n) (c_connId c) pa dt st s s'" "idle i s'"
      using pushed_possible [OF rest idle linked_sends [OF link pair(1)] size] by blast
    obtain rp where rp: "wire (c_fd c) (s_world s') = wire (c_fd c) (s_world s) @ rp"
      "numbered hs c (makeRespFrame c pa dt st 0 0) rp" "concat [rp] = rp" using sent [OF s'(1)] by auto
    obtain w' where "client_receive hc [rp] WouldBlock (k, w)
        = (Inr (), (has_heard c \<lparr>cr_path = pa, cr_data = dt, cr_status = st\<rparr> k, w'))" using hears [OF rp(2,3)] by blast
    then have "tells hc hs (Suc n) (c_connId c) (c_fd c) pa dt st ((k, w), s)
        ((has_heard c \<lparr>cr_path = pa, cr_data = dt, cr_status = st\<rparr> k, w'), s')"
      unfolding tells_def prod.case using s'(1) rp(1,3) by blast
    then show ?thesis using s'(2) by fastforce
  qed
qed

text \<open>A request: its frame, the client that has sent it, and the two steps of its way.\<close>

abbreviation request_frame :: "Connection \<Rightarrow> bytes \<Rightarrow> bytes \<Rightarrow> Frame" where
  "request_frame k pa d \<equiv> makeFrame (k_fid k + 1) STATUS_REQ 0 pa d (k_rid k + 1) (k_ssid k)"

abbreviation has_asked :: "Connection \<Rightarrow> Connection" where
  "has_asked k \<equiv> k\<lparr>k_rid := k_rid k + 1, k_wakeups := 0, k_commandQueue := k_commandQueue k\<lparr>cq_queue := []\<rparr>,
      k_fid := k_fid k + 1\<rparr>"

lemma request_leaves:
  assumes link: "linked hc hs" and touch: "in_touch e k c s"
    and fit: "fits (c_maxFrameSize c) pa d" and cev: "kv_fd cev = k_cmdEvFd k"
  shows "\<exists>k1 w2 rq. queue_request pa d (k, w) = (Inr True, (k1, w))
    \<and> handle_client_event hc cev (k1, w) = (Inr (), (has_asked k, w2))
    \<and> wire (k_socket k) w2 = wire (k_socket k) w @ rq \<and> encodes hs c (request_frame k pa d) rq"
proof -
  note S = touch [unfolded in_touch_def]
  note P = S [THEN conjunct1, unfolded paired_def]
  have k: "client_ready hc k" "k_running k" "k_state k = Connected" "cq_queue (k_commandQueue k) = []" "takes hc (\<lambda>n. n)"
    using linked_ready [OF link] S P link by (auto simp: linked_def)
  have size: "length pa < 2 ^ 16" "57 + length pa + length d \<le> unat (c_maxFrameSize c)" "57 + length pa + length d < 2 ^ 31"
    using fit by (simp_all add: fits_def)
  obtain k1 k2 w2 rq where "queue_request pa d (k, w) = (Inr True, (k1, w))"
    "handle_client_event hc cev (k1, w) = (Inr (), (k2, w2))"
    "sealed (h_ssl hc) (k_aesKey k) (c_maxFrameSize c) (request_frame k pa d) rq"
    "wire (k_socket k) w2 = wire (k_socket k) w @ rq" "k2 = has_asked k"
    by (rule request_on_wire [OF k(1-4) cev k(5) size])
  then show ?thesis using link P by (simp add: encodes_def linked_def)
qed

lemma request_of_frame:
  "request_of c (request_frame k pa d) = \<lparr>rq_connID = c_connId c, rq_path = pa, rq_data = d, rq_rid = k_rid k + 1\<rparr>"
  by (simp add: makeFrame_def request_of_def Request_of_def)

lemma request_amid:
  assumes link: "linked hc hs" and touch: "in_touch e k c s" "unat (k_fid k) + 1 < 2 ^ 32"
    and req: "replies s (c_connId c) (pa, d) (dt, st)" "fits (k_maxFrameSize k) pa dt"
    and rq: "encodes hs c (request_frame k pa d) rq"
  shows "served hs (Suc n) (c_connId c) (c_fd c) (request_of c (request_frame k pa d)) rq s s' \<Longrightarrow>
      \<exists>rp. numbered hs c (makeRespFrame c pa dt st 0 (k_rid k + 1)) rp
        \<and> wire (c_fd c) (s_world s') = wire (c_fd c) (s_world s) @ rp
        \<and> resting e ((server_record (request_frame k pa d) c)\<lparr>c_fid := c_fid c + 1\<rparr>) s' \<and> fixtures s s'"
    and "idle i s \<Longrightarrow> \<exists>s'. served hs (Suc n) (c_connId c) (c_fd c) (request_of c (request_frame k pa d)) rq s s' \<and> idle i s'"
proof -
  note S = touch(1) [unfolded in_touch_def]
  note P = S [THEN conjunct1, unfolded paired_def]
  let ?f = "request_frame k pa d"
  have c: "resting e c s" "can_send hs c" "c_state c = ACTIVE" "c_inFrameBuffer c = []"
    using S P linked_sends [OF link] by blast+
  have f: "ssid ?f = c_ssid c" "c_lastCliFid c < fid ?f" "path ?f = pa" "rid ?f = k_rid k + 1"
    using S P touch(2) by (auto simp: makeFrame_def word_less_nat_alt unat_next)
  have route: "answers s (request_of c ?f) dt st" "length (path ?f) < 2 ^ 16" "length (path ?f) + length dt + 20 < 2 ^ 31"
    using req f(3) by (simp_all add: replies_def fits_def request_of_frame)
  show "\<exists>rp. numbered hs c (makeRespFrame c pa dt st 0 (k_rid k + 1)) rp
        \<and> wire (c_fd c) (s_world s') = wire (c_fd c) (s_world s) @ rp
        \<and> resting e ((server_record ?f c)\<lparr>c_fid := c_fid c + 1\<rparr>) s' \<and> fixtures s s'"
    if "served hs (Suc n) (c_connId c) (c_fd c) (request_of c ?f) rq s s'"
    using served_amid [OF c rq f(1,2) route that] f(3,4) by simp
  show "\<exists>s'. served hs (Suc n) (c_connId c) (c_fd c) (request_of c ?f) rq s s' \<and> idle i s'" if "idle i s"
    by (rule served_possible [OF c(1) that c(2-4) rq f(1,2) route])
qed

lemma asks_delivers:
  assumes link: "linked hc hs"
    and sess: "in_touch e k c s" "unat (k_fid k) + 1 < 2 ^ 32" "unat (c_fid c) + 1 < 2 ^ 32"
    and req: "replies s (c_connId c) (pa, d) (dt, st)" "fits (c_maxFrameSize c) pa d" "fits (k_maxFrameSize k) pa dt"
  shows "asks hc hs (Suc n) (c_connId c) (c_fd c) pa d ((k, w), s) ((k', w'), s') \<Longrightarrow>
      \<exists>c'. in_touch e k' c' s' \<and> goes_on k c s k' c' s'
        \<and> k_responses k' = k_responses k @ [\<lparr>cr_path = pa, cr_data = dt, cr_status = st\<rparr>]"
    and "idle i s \<Longrightarrow> \<exists>st'. asks hc hs (Suc n) (c_connId c) (c_fd c) pa d ((k, w), s) st' \<and> idle i (snd st')"
proof -
  note S = sess(1) [unfolded in_touch_def]
  let ?f = "request_frame k pa d" and ?r = "\<lparr>cr_path = pa, cr_data = dt, cr_status = st\<rparr>"
  let ?c = "(server_record ?f c)\<lparr>c_fid := c_fid c + 1\<rparr>" and ?k = "has_heard c ?r (has_asked k)"
  note leaves = request_leaves [OF link sess(1) req(2)] and amid = request_amid [OF link sess(1,2) req(1,3)]
  have "paired (has_asked k) c" "silent (has_asked k)" "unat (k_lastSrvFid (has_asked k)) \<le> unat (c_fid c)"
    "fits (k_maxFrameSize (has_asked k)) pa dt" using S req(3) by (simp_all add: paired_def silent_def)
  note hears = frame_heard [OF link this(1-3) sess(3) this(4)]
  show "\<exists>c'. in_touch e k' c' s' \<and> goes_on k c s k' c' s' \<and> k_responses k' = k_responses k @ [?r]"
    if ask: "asks hc hs (Suc n) (c_connId c) (c_fd c) pa d ((k, w), s) ((k', w'), s')"
  proof -
    obtain cev k1 w1 k2 w2 rq rp chunks where A: "queue_request pa d (k, w) = (Inr True, (k1, w1))"
      "kv_fd cev = k_cmdEvFd k" "handle_client_event hc cev (k1, w1) = (Inr (), (k2, w2))"
      "wire (k_socket k) w2 = wire (k_socket k) w @ rq"
      "served hs (Suc n) (c_connId c) (c_fd c) (request_of c ?f) rq s s'"
      "wire (c_fd c) (s_world s') = wire (c_fd c) (s_world s) @ rp" "concat chunks = rp"
      "client_receive hc chunks WouldBlock (k2, w2) = (Inr (), (k', w'))"
      using ask unfolding asks_def prod.case request_of_frame by blast
    have k2: "k2 = has_asked k" and rq: "encodes hs c ?f rq" using leaves [OF A(2), of w] A(1,3,4) by auto
    have E: "numbered hs c (makeRespFrame c pa dt st 0 (k_rid k + 1)) rp" "resting e ?c s'" "fixtures s s'"
      using amid(1) [OF rq A(5)] A(6) by auto
    have k': "k' = ?k" using hears [OF E(1) A(7), of w2] A(8) k2 by auto
    have "in_touch e k' ?c s'"
      using S E(2) sess(2,3)
      by (simp add: in_touch_def paired_def silent_def k' server_record_def unat_next makeFrame_def)
    then show ?thesis using E(3) sess(2,3)
      by (intro exI [of _ ?c]) (simp add: k' goes_on_def unat_next server_record_def)
  qed
  show "\<exists>st'. asks hc hs (Suc n) (c_connId c) (c_fd c) pa d ((k, w), s) st' \<and> idle i (snd st')" if idle: "idle i s"
  proof -
    let ?cev = "\<lparr>kv_fd = k_cmdEvFd k, kv_hup = False, kv_in = True, kv_chunks = [], kv_end = WouldBlock\<rparr>"
    have cev: "kv_fd ?cev = k_cmdEvFd k" by simp
    obtain k1 w2 rq where q: "queue_request pa d (k, w) = (Inr True, (k1, w))"
      "handle_client_event hc ?cev (k1, w) = (Inr (), (has_asked k, w2))" "wire (k_socket k) w2 = wire (k_socket k) w @ rq"
      and rq: "encodes hs c ?f rq" using leaves [OF cev] by blast
    obtain s' where s': "served hs (Suc n) (c_connId c) (c_fd c) (request_of c ?f) rq s s'" "idle i s'"
      using amid(2) [OF rq idle] by blast
    obtain rp where rp: "wire (c_fd c) (s_world s') = wire (c_fd c) (s_world s) @ rp"
      "numbered hs c (makeRespFrame c pa dt st 0 (k_rid k + 1)) rp" "concat [rp] = rp" using amid(1) [OF rq s'(1)] by auto
    obtain w' where "client_receive hc [rp] WouldBlock (has_asked k, w2) = (Inr (), (?k, w'))"
      using hears [OF rp(2,3)] by blast
    then have "asks hc hs (Suc n) (c_connId c) (c_fd c) pa d ((k, w), s) ((?k, w'), s')"
      unfolding asks_def prod.case request_of_frame [symmetric] using q s'(1) rp(1,3) cev by blast
    then show ?thesis using s'(2) by fastforce
  qed
qed

section \<open>A conversation\<close>

text \<open>What carries over from one utterance to the rest of the conversation.\<close>

lemma talk_goes_on:
  assumes "goes_on k c s k' c' s'" "unat (k_fid k) + length (u # us) < 2 ^ 32" "unat (c_fid c) + length (u # us) < 2 ^ 32"
    and "\<forall>v \<in> set (u # us). sayable k c s reply v"
  shows "unat (k_fid k') + length us < 2 ^ 32" "unat (c_fid c') + length us < 2 ^ 32"
    "\<forall>v \<in> set us. sayable k' c' s' reply v" "c_connId c' = c_connId c" "c_fd c' = c_fd c"
  using assms sayable_goes_on [OF assms(1)] by (auto simp: goes_on_def)

text \<open>One utterance, whichever it is.\<close>

fun said :: "host \<Rightarrow> host \<Rightarrow> nat \<Rightarrow> u64 \<Rightarrow> int \<Rightarrow> utterance \<Rightarrow> both_ends \<Rightarrow> both_ends \<Rightarrow> bool" where
  "said hc hs d ci fd (Ask pa dt) = asks hc hs d ci fd pa dt"
| "said hc hs d ci fd (Push pa dt st) = tells hc hs d ci fd pa dt st"

lemma conversation_ConsI:
  "said hc hs d ci fd u st st' \<Longrightarrow> conversation hc hs d ci fd us st' st'' \<Longrightarrow> conversation hc hs d ci fd (u # us) st st''"
  by (cases u) (auto intro: conversation.intros)

lemma said_heard:
  assumes link: "linked hc hs"
    and sess: "in_touch e k c s" "unat (k_fid k) + length (u # us) < 2 ^ 32" "unat (c_fid c) + length (u # us) < 2 ^ 32"
      "\<forall>v \<in> set (u # us). sayable k c s reply v"
  shows "said hc hs (Suc n) (c_connId c) (c_fd c) u ((k, w), s) ((k', w'), s') \<Longrightarrow>
      \<exists>c'. in_touch e k' c' s' \<and> goes_on k c s k' c' s' \<and> k_responses k' = k_responses k @ [heard reply u]"
    and "idle i s \<Longrightarrow> \<exists>st'. said hc hs (Suc n) (c_connId c) (c_fd c) u ((k, w), s) st' \<and> idle i (snd st')"
proof -
  have room: "unat (k_fid k) + 1 < 2 ^ 32" "unat (c_fid c) + 1 < 2 ^ 32" using sess(2,3) by simp_all
  have ask: "replies s (c_connId c) (pa, d) (fst (reply (pa, d)), snd (reply (pa, d)))" "fits (c_maxFrameSize c) pa d"
    "fits (k_maxFrameSize k) pa (fst (reply (pa, d)))" if "u = Ask pa d" for pa d
    using sess(4) that by simp_all
  have push: "fits (k_maxFrameSize k) pa d" if "u = Push pa d st" for pa d st
    using sess(4) that by simp
  note asks = asks_delivers [OF link sess(1) room ask] and pushes = tells_delivers [OF link sess(1) room(2) push]
  show "\<exists>c'. in_touch e k' c' s' \<and> goes_on k c s k' c' s' \<and> k_responses k' = k_responses k @ [heard reply u]"
    if "said hc hs (Suc n) (c_connId c) (c_fd c) u ((k, w), s) ((k', w'), s')"
    using that asks(1) pushes(1) by (cases u) auto
  show "\<exists>st'. said hc hs (Suc n) (c_connId c) (c_fd c) u ((k, w), s) st' \<and> idle i (snd st')" if "idle i s"
    using asks(2) [OF _ _ _ that] pushes(2) [OF _ that] by (cases u) auto
qed

lemma conversation_responses:
  assumes link: "linked hc hs"
    and "conversation hc hs (Suc n) ci fd us ((k, w), s) ((k', w'), s')"
    and "in_touch e k c s" "unat (k_fid k) + length us < 2 ^ 32" "unat (c_fid c) + length us < 2 ^ 32"
      "\<forall>u \<in> set us. sayable k c s reply u" "ci = c_connId c" "fd = c_fd c"
  shows "k_responses k' = k_responses k @ map (heard reply) us"
  using assms(2-)
proof (induction us "((k, w), s)" "((k', w'), s')" arbitrary: k w s c rule: conversation.induct)
  case (over)
  then show ?case by simp
next
  case (meanwhile s s1 us k w)
  have rest: "resting e c s" using meanwhile.prems(1) by (simp add: in_touch_def)
  have "(elsewhere hs (Suc n) (c_connId c))\<^sup>*\<^sup>* s s1" using meanwhile.hyps(1) meanwhile.prems(5) by blast
  note after = resting_elsewhere [OF rest this]
  have "in_touch e k c s1" using meanwhile.prems(1) after(1) by (simp add: in_touch_def)
  moreover have "goes_on k c s k c s1" using after(2) by (simp add: goes_on_def)
  then have "\<forall>u \<in> set us. sayable k c s1 reply u" using meanwhile.prems(4) sayable_goes_on by blast
  ultimately show ?case using meanwhile.hyps(3) meanwhile.prems(2,3,5,6) by blast
next
  case (ask pa dt st' us k w s)
  obtain k1 w1 s1 where st': "st' = ((k1, w1), s1)" by (metis prod.exhaust)
  have "said hc hs (Suc n) (c_connId c) (c_fd c) (Ask pa dt) ((k, w), s) ((k1, w1), s1)"
    using ask.hyps(1) ask.prems(5,6) st' by simp
  from said_heard(1) [OF link ask.prems(1-4) this] obtain c1 where c1: "in_touch e k1 c1 s1" "goes_on k c s k1 c1 s1"
    "k_responses k1 = k_responses k @ [heard reply (Ask pa dt)]" by blast
  note on = talk_goes_on [OF c1(2) ask.prems(2-4)]
  show ?case using ask.hyps(3) [OF st' c1(1) on(1-3)] on(4,5) ask.prems(5,6) c1(3) by simp
next
  case (push pa dt stat st' us k w s)
  obtain k1 w1 s1 where st': "st' = ((k1, w1), s1)" by (metis prod.exhaust)
  have "said hc hs (Suc n) (c_connId c) (c_fd c) (Push pa dt stat) ((k, w), s) ((k1, w1), s1)"
    using push.hyps(1) push.prems(5,6) st' by simp
  from said_heard(1) [OF link push.prems(1-4) this] obtain c1 where c1: "in_touch e k1 c1 s1" "goes_on k c s k1 c1 s1"
    "k_responses k1 = k_responses k @ [heard reply (Push pa dt stat)]" by blast
  note on = talk_goes_on [OF c1(2) push.prems(2-4)]
  show ?case using push.hyps(3) [OF st' c1(1) on(1-3)] on(4,5) push.prems(5,6) c1(3) by simp
qed

lemma conversation_possible:
  assumes link: "linked hc hs"
    and "idle i s" "in_touch e k c s" "unat (k_fid k) + length us < 2 ^ 32" "unat (c_fid c) + length us < 2 ^ 32"
      "\<forall>u \<in> set us. sayable k c s reply u"
  shows "\<exists>st'. conversation hc hs (Suc n) (c_connId c) (c_fd c) us ((k, w), s) st'"
  using assms(2-)
proof (induction us arbitrary: k w c s)
  case Nil
  then show ?case by (blast intro: conversation.over)
next
  case (Cons u us)
  note one = said_heard [OF link Cons.prems(2-5), where n = n and w = w]
  obtain k1 w1 s1 where st: "said hc hs (Suc n) (c_connId c) (c_fd c) u ((k, w), s) ((k1, w1), s1)" and "idle i s1"
    using one(2) [OF Cons.prems(1)] by (metis prod.exhaust snd_conv)
  moreover obtain c1 where c1: "in_touch e k1 c1 s1" "goes_on k c s k1 c1 s1" using one(1) [OF st] by blast
  note on = talk_goes_on [OF c1(2) Cons.prems(3-5)]
  ultimately show ?case using Cons.IH [OF _ c1(1) on(1-3), of w1] on(4,5) conversation_ConsI by metis
qed

text \<open>
  C1: a client is served, and hears what it should, whatever the server does for others. From the
  end of the handshake on, let the user make requests and the server push messages, in any order
  and as many as the 32-bit frame counters allow, and let events of other connections, new
  connections, steps of the workers and responses to others go on at any point, also while one of
  the requests is under way: the client delivers exactly one response for each request and each
  push, in order, with the right path, data and status. And where the server is at rest, every such
  conversation can take place.
\<close>

theorem conversation_heard:
  assumes lib: "h_ssl hs = h_ssl hc" "gcm_laws (h_ssl hc)" "gcm_reliable (h_ssl hc)"
    and net: "takes hc (\<lambda>n. n)" "sends_succeed hs"
    and sess: "in_touch e k c s" "unat (k_fid k) + length us < 2 ^ 32" "unat (c_fid c) + length us < 2 ^ 32"
      "\<forall>u \<in> set us. sayable k c s reply u"
  shows "(\<forall>k' w' s'. conversation hc hs (Suc n) (c_connId c) (c_fd c) us ((k, w), s) ((k', w'), s') \<longrightarrow>
        k_responses k' = k_responses k @ map (heard reply) us)
    \<and> (\<forall>i. idle i s \<longrightarrow> (\<exists>st'. conversation hc hs (Suc n) (c_connId c) (c_fd c) us ((k, w), s) st'))"
proof (intro conjI allI impI)
  have link: "linked hc hs" using lib net by (simp add: linked_def)
  fix k' w' s' assume "conversation hc hs (Suc n) (c_connId c) (c_fd c) us ((k, w), s) ((k', w'), s')"
  then show "k_responses k' = k_responses k @ map (heard reply) us"
    by (rule conversation_responses [OF link _ sess refl refl])
next
  have link: "linked hc hs" using lib net by (simp add: linked_def)
  fix i assume "idle i s"
  then show "\<exists>st'. conversation hc hs (Suc n) (c_connId c) (c_fd c) us ((k, w), s) st'"
    by (rule conversation_possible [OF link _ sess])
qed

section \<open>Two clients, one of which talks\<close>

definition company :: Server where
  "company = active_server\<lparr>s_connCount := 2, s_fdToId := [(5, 1), (8, 2)],
     s_connections := [(1, sample_active), (2, sample_active\<lparr>c_connId := 2, c_fd := 8\<rparr>)]\<rparr>"

lemma company_fields: "s_connections company = [(1, sample_active), (2, sample_active\<lparr>c_connId := 2, c_fd := 8\<rparr>)]"
  "s_fdToId company = [(5, 1), (8, 2)]" "s_cmdEvFd company = Some 6" "s_socket company = 3" "s_alive company"
  "cq_queue (s_commandQueue company) = []" "s_tpool company = ThreadPool 1" "s_routes company = []"
  "s_funcRoutes company = []" "s_connCount company = 2"
  by (simp_all add: company_def active_server_def)

text \<open>The other client hangs up before the conversation, which happens all the same.\<close>

theorem conversation_heard_witness:
  "\<exists>s1 k w s. handle_event sample_host 1 (sample_event 8) company = (Inr (), s1)
    \<and> map_of (s_connections s1) 2 = None
    \<and> conversation sample_host sample_host 1 1 5 [Ask (lit ''/a'') [], Push (lit ''/n'') [1] 200]
        ((connected_client, sample_world), company) ((k, w), s)
    \<and> k_responses k = [\<lparr>cr_path = lit ''/a'', cr_data = [], cr_status = STATUS_NOT_FOUND\<rparr>,
        \<lparr>cr_path = lit ''/n'', cr_data = [1], cr_status = 200\<rparr>]"
proof -
  let ?us = "[Ask (lit ''/a'') [], Push (lit ''/n'') [1] 200]" and ?reply = "\<lambda>_. ([], STATUS_NOT_FOUND)"
  have c: "c_connId sample_active = 1" "c_fd sample_active = 5" by simp_all
  have touch: "in_touch 6 connected_client sample_active company"
    by (auto simp: in_touch_def paired_def silent_def resting_def attached_def own_commands_def company_fields
        server_ok_def connected_client_def waiting_client_def sample_active_def ThreadPool_def)
  have nums: "unat (k_fid connected_client) + length ?us < 2 ^ 32" "unat (c_fid sample_active) + length ?us < 2 ^ 32"
    by (simp_all add: connected_client_def waiting_client_def sample_active_def)
  have say: "\<forall>u \<in> set ?us. sayable connected_client sample_active s ?reply u" if "s_routes s = []" "s_funcRoutes s = []" for s
    using that by (simp add: replies_def answers_def fits_def sample_active_def connected_client_def waiting_client_def)
  obtain s1 where "delete_conn sample_host 1 2 (sample_active\<lparr>c_connId := 2, c_fd := 8\<rparr>) company = (Inr (), s1)"
    and s1: "map_of (s_connections s1) 2 = None" "s_tpool s1 = s_tpool company" "s_commandQueue s1 = s_commandQueue company"
    using delete_conn_open [of "sample_active\<lparr>c_connId := 2, c_fd := 8\<rparr>" sample_host 0 2 company] by auto
  then have hup: "handle_event sample_host 1 (sample_event 8) company = (Inr (), s1)"
    by (simp add: handle_event_def company_fields)
  have step: "elsewhere sample_host 1 1 company s1"
    by (rule elsewhere.event [OF _ _ hup]) (simp_all add: concerns_def company_fields)
  have "resting 6 sample_active company" using touch by (simp add: in_touch_def)
  from resting_elsewhere [OF this, of sample_host 1 s1] step c(1)
  have after: "resting 6 sample_active s1" "fixtures company s1" by auto
  then have touch1: "in_touch 6 connected_client sample_active s1" using touch by (simp add: in_touch_def)
  have "idle 0 s1" using s1 by (simp add: idle_def company_fields ThreadPool_def)
  moreover have "\<forall>u \<in> set ?us. sayable connected_client sample_active s1 ?reply u"
    by (rule say) (use after(2) in \<open>simp_all add: fixtures_def company_fields\<close>)
  ultimately obtain k w s where talk: "conversation sample_host sample_host 1 1 5 ?us ((connected_client, sample_world), s1) ((k, w), s)"
    using conversation_heard [OF refl sample_host_laws(1,2) sample_takes sample_host_laws(3) touch1 nums,
        of ?reply 0 sample_world] c by (metis One_nat_def prod.exhaust)
  have all: "conversation sample_host sample_host 1 1 5 ?us ((connected_client, sample_world), company) ((k, w), s)"
    by (rule conversation.meanwhile [OF step talk])
  have "\<forall>u \<in> set ?us. sayable connected_client sample_active company ?reply u"
    by (rule say) (simp_all add: company_fields)
  from conversation_heard [OF refl sample_host_laws(1,2) sample_takes sample_host_laws(3) touch nums this,
      of 0 sample_world, THEN conjunct1] all c
  have "k_responses k = k_responses connected_client @ map (heard ?reply) ?us" by (simp add: One_nat_def) blast
  then have "k_responses k = [\<lparr>cr_path = lit ''/a'', cr_data = [], cr_status = STATUS_NOT_FOUND\<rparr>,
        \<lparr>cr_path = lit ''/n'', cr_data = [1], cr_status = 200\<rparr>]"
    by (simp add: connected_client_def waiting_client_def)
  then show ?thesis using hup s1(1) all by blast
qed

end
