(* ===== verification/Pipeline.thy ===== *)
theory Pipeline
  imports Conversations
begin

text \<open>
  Many requests of one client at once: queued one after the other, sent by one event of the client,
  read by one event of the server, run by the workers in any order and among the requests of other
  clients, answered by one event, and heard by the client however the bytes arrive.
\<close>

section \<open>The client sends\<close>

type_synonym asking = "bytes \<times> bytes"

fun queue_all :: "asking list \<Rightarrow> unit client" where
  "queue_all [] = retP ()"
| "queue_all ((pa, dt) # rs) = seqP (queue_request pa dt) (queue_all rs)"

text \<open>The commands these calls queue, all with the frame identifier of the time of the call, and the
  frames that are sent.\<close>

fun commands_of :: "u32 \<Rightarrow> u64 \<Rightarrow> u32 \<Rightarrow> asking list \<Rightarrow> ClientCommand list" where
  "commands_of fi si ri [] = []"
| "commands_of fi si ri ((pa, dt) # rs) =
    \<lparr>cc_type = SendFrame, cc_frame = Some (makeFrame fi STATUS_REQ 0 pa dt (ri + 1) si)\<rparr>
      # commands_of fi si (ri + 1) rs"

fun frames_of :: "u32 \<Rightarrow> u64 \<Rightarrow> u32 \<Rightarrow> asking list \<Rightarrow> Frame list" where
  "frames_of fi si ri [] = []"
| "frames_of fi si ri ((pa, dt) # rs) =
    makeFrame (fi + 1) STATUS_REQ 0 pa dt (ri + 1) si # frames_of (fi + 1) si (ri + 1) rs"

lemma commands_send: "\<forall>cmd \<in> set (commands_of fi si ri rs). cc_type cmd = SendFrame"
  by (induction fi si ri rs rule: commands_of.induct) simp_all

lemma frames_of_window:
  "unat fi + length rs < 2 ^ 32 \<Longrightarrow> sorted_wrt (<) (map fid (frames_of fi si ri rs))
    \<and> (\<forall>f \<in> set (frames_of fi si ri rs). ssid f = si \<and> fi < fid f)"
proof (induction fi si ri rs rule: frames_of.induct)
  case (2 fi si ri pa dt rs)
  have up: "unat (fi + 1) = unat fi + 1" using "2.prems" by (intro unat_next) simp
  then have "fi < fi + 1" by (simp add: word_less_nat_alt)
  moreover have "unat (fi + 1) + length rs < 2 ^ 32" using "2.prems" up by simp
  ultimately show ?case using "2.IH" by (auto simp: makeFrame_def)
qed simp

lemma queue_all_run:
  "k_running k \<Longrightarrow> k_state k \<noteq> Closed \<Longrightarrow> queue_all rs (k, w) =
    (Inr (), (k\<lparr>k_rid := k_rid k + of_nat (length rs), k_wakeups := k_wakeups k + length rs,
      k_commandQueue := k_commandQueue k\<lparr>cq_queue := cq_queue (k_commandQueue k)
        @ commands_of (k_fid k) (k_ssid k) (k_rid k) rs\<rparr>\<rparr>, w))"
proof (induction rs arbitrary: k)
  case Nil
  then show ?case by (simp add: retP_def)
next
  case (Cons r rs)
  obtain pa dt where r: "r = (pa, dt)" by (cases r)
  have "queue_request pa dt (k, w) = (Inr True, (request_pushed pa dt k, w))"
    using Cons.prems by (simp add: queue_request_run)
  moreover have "queue_all rs (request_pushed pa dt k, w) = (Inr (), ((request_pushed pa dt k)
      \<lparr>k_rid := k_rid k + 1 + of_nat (length rs), k_wakeups := k_wakeups k + 1 + length rs,
       k_commandQueue := k_commandQueue k\<lparr>cq_queue := cq_queue (k_commandQueue k)
        @ commands_of (k_fid k) (k_ssid k) (k_rid k) (r # rs)\<rparr>\<rparr>, w))"
    using Cons.prems by (subst Cons.IH) (simp_all add: request_pushed_def cq_push_def r)
  ultimately show ?case
    by (simp add: r bindP_def seqP_def request_pushed_def algebra_simps)
qed

text \<open>The commands are to send frames, and the frames sent are these, numbered.\<close>

abbreviation asked_for :: "u32 \<Rightarrow> u64 \<Rightarrow> u32 \<Rightarrow> asking list \<Rightarrow> Frame list" where
  "asked_for fi si ri rs \<equiv> asked_frames fi si ri (map (\<lambda>(pa, dt). CallSend pa dt) rs)"

lemma commands_sending: "commands_of fi si ri rs = map sending (asked_for fi si ri rs)"
  by (induction fi si ri rs rule: commands_of.induct) (simp_all add: sending_def)

lemma frames_numbered: "frames_of n si ri rs = renumbered n (asked_for fi si ri rs)"
  by (induction n si ri rs rule: frames_of.induct) (simp_all add: makeFrame_def)

lemma asked_parts:
  "f \<in> set (asked_for fi si ri rs) \<Longrightarrow> (path f, data f) \<in> set rs"
proof (induction fi si ri rs rule: commands_of.induct)
  case (2 fi si ri pa dt rs)
  then show ?case by (cases "f = makeFrame fi STATUS_REQ 0 pa dt (ri + 1) si") (simp_all add: makeFrame_def)
qed simp

lemma frames_parts:
  "f \<in> set (frames_of n si ri rs) \<Longrightarrow> (path f, data f) \<in> set rs"
proof (induction n si ri rs rule: frames_of.induct)
  case (2 n si ri pa dt rs)
  then show ?case by (cases "f = makeFrame (n + 1) STATUS_REQ 0 pa dt (ri + 1) si") (simp_all add: makeFrame_def)
qed simp

lemma requests_drained:
  assumes "client_ready h k" "k_state k = Connected" "takes h (\<lambda>n. n)"
    and "\<forall>r \<in> set rs. fits mx (fst r) (snd r)" "cq_queue (k_commandQueue k) = commands_of fi (k_ssid k) ri rs"
  shows "\<exists>w2 es. handle_all (handleClientCommand h) client_dequeue (commands_of fi (k_ssid k) ri rs) (k, w)
      = (Inr (), (k\<lparr>k_commandQueue := k_commandQueue k\<lparr>cq_queue := []\<rparr>, k_fid := k_fid k + of_nat (length rs)\<rparr>, w2))
    \<and> list_all2 (sealed (h_ssl h) (k_aesKey k) mx) (frames_of (k_fid k) (k_ssid k) ri rs) es
    \<and> wire (k_socket k) w2 = wire (k_socket k) w @ concat es"
proof -
  let ?fs = "asked_for fi (k_ssid k) ri rs"
  have fit: "fits mx (path f) (data f)" if "f \<in> set ?fs \<or> f \<in> set (frames_of (k_fid k) (k_ssid k) ri rs)" for f
    using that asked_parts frames_parts assms(4) by fastforce
  then have "\<forall>f \<in> set ?fs. encodable f" by (auto simp: fits_def encodable_def)
  moreover have "length ?fs = length rs" by (induction fi "k_ssid k" ri rs rule: commands_of.induct) auto
  ultimately obtain w2 es where run: "handle_all (handleClientCommand h) client_dequeue (map sending ?fs) (k, w)
      = (Inr (), (k\<lparr>k_commandQueue := k_commandQueue k\<lparr>cq_queue := []\<rparr>, k_fid := k_fid k + of_nat (length rs)\<rparr>, w2))"
    and es: "list_all2 (written h (k_aesKey k)) (frames_of (k_fid k) (k_ssid k) ri rs) es"
      "wire (k_socket k) w2 = wire (k_socket k) w @ concat es"
    using frames_on_wire [OF assms(1) _ assms(3), of ?fs w] assms(2,5)
    by (auto simp: commands_sending frames_numbered [where fi = fi])
  have "list_all2 (sealed (h_ssl h) (k_aesKey k) mx) (frames_of (k_fid k) (k_ssid k) ri rs) es"
    using es(1) by (rule list.rel_mono_strong)
      (use fit in \<open>auto simp: fits_def encodable_def intro!: written_sealed\<close>)
  with run es(2) show ?thesis unfolding commands_sending by blast
qed

text \<open>All together: the calls, and the event that sends.\<close>

abbreviation has_asked_all :: "asking list \<Rightarrow> Connection \<Rightarrow> Connection" where
  "has_asked_all rs k \<equiv> k\<lparr>k_rid := k_rid k + of_nat (length rs), k_wakeups := 0,
    k_commandQueue := k_commandQueue k\<lparr>cq_queue := []\<rparr>, k_fid := k_fid k + of_nat (length rs)\<rparr>"

lemma requests_leave:
  assumes "client_ready h k" "k_state k = Connected" "k_running k" "cq_queue (k_commandQueue k) = []"
    and "takes h (\<lambda>n. n)" "\<forall>r \<in> set rs. fits mx (fst r) (snd r)" "kv_fd ev = k_cmdEvFd k"
  shows "\<exists>k1 w2 es. queue_all rs (k, w) = (Inr (), (k1, w))
    \<and> handle_client_event h ev (k1, w) = (Inr (), (has_asked_all rs k, w2))
    \<and> list_all2 (sealed (h_ssl h) (k_aesKey k) mx) (frames_of (k_fid k) (k_ssid k) (k_rid k) rs) es
    \<and> wire (k_socket k) w2 = wire (k_socket k) w @ concat es"
proof -
  let ?cmds = "commands_of (k_fid k) (k_ssid k) (k_rid k) rs"
  let ?k1 = "k\<lparr>k_rid := k_rid k + of_nat (length rs), k_wakeups := k_wakeups k + length rs,
      k_commandQueue := k_commandQueue k\<lparr>cq_queue := ?cmds\<rparr>\<rparr>"
  have q: "queue_all rs (k, w) = (Inr (), (?k1, w))" using assms(2-4) by (simp add: queue_all_run)
  let ?k = "?k1\<lparr>k_wakeups := 0\<rparr>"
  have "client_ready h ?k" "k_state ?k = Connected" "cq_queue (k_commandQueue ?k) = commands_of (k_fid k) (k_ssid ?k) (k_rid k) rs"
    using assms(1,2) by (simp_all add: client_ready_def)
  from requests_drained [OF this(1,2) assms(5,6) this(3), of w] obtain w2 es where
    run: "handle_all (handleClientCommand h) client_dequeue ?cmds (?k, w) = (Inr (), (has_asked_all rs k, w2))"
    and es: "list_all2 (sealed (h_ssl h) (k_aesKey k) mx) (frames_of (k_fid k) (k_ssid k) (k_rid k) rs) es"
      "wire (k_socket k) w2 = wire (k_socket k) w @ concat es" by auto
  have "handle_client_event h ev (?k1, w) = (Inr (), (has_asked_all rs k, w2))"
    using assms(7) run commands_send by (simp add: handle_client_event_def client_run drain_client_all)
  then show ?thesis using q es by blast
qed

section \<open>The server reads\<close>

lemma requests_read:
  assumes "can_decode h c" "c_state c = ACTIVE" "c_inFrameBuffer c = []" "list_all2 (encodes h c) fs es"
    and "sorted_wrt (<) (map fid fs)" "\<forall>f \<in> set fs. ssid f = c_ssid c \<and> c_lastCliFid c < fid f"
    and "resting e c s" "brings (c_fd c) (concat es) ev"
  obtains c' w' where "handle_event h d ev s = (Inr (), s\<lparr>s_connections := AList.update (c_connId c) c' (s_connections s),
      s_world := w', s_tpool := fold tp_enqueue (map (request_of c) fs) (s_tpool s)\<rparr>)"
    "w_out w' = w_out (s_world s)" "c_connId c' = c_connId c" "c_fd c' = c_fd c" "c_aesKey c' = c_aesKey c"
    "c_ssid c' = c_ssid c" "c_fid c' = c_fid c" "c_state c' = ACTIVE" "c_inFrameBuffer c' = []"
proof -
  note R = assms(7) [unfolded resting_def attached_def]
  have own: "map_of (s_fdToId s) (c_fd c) = Some (c_connId c)" using server_okD(3) R by blast
  note B = assms(8) [unfolded brings_def]
  have acc: "sw.accepted c fs = fs" by (rule sw.accepts_all [OF assms(5,6)])
  let ?c = "(sw.after c fs)\<lparr>c_inFrameBuffer := []\<rparr>"
  obtain w' where rd: "readFd h d (ev_chunks ev) WouldBlock (c, s_world s) = (Inr True, (?c, w'))"
    and w': "w_out w' = w_out (s_world s)"
    using ss.read_stream [of h c "[]" fs es "ev_chunks ev" d "s_world s"] assms(1-4) B acc by auto
  have "c_fid (sw.after c fs) = c_fid c"
    by (induction fs arbitrary: c) (simp_all add: server_record_def)
  moreover have "handle_event h d ev s = (Inr (), store_conn (c_connId c) c ?c w' s)"
    by (rule server_event_handled [OF _ own _ _ _ _ _ _ rd]) (use R B assms(2) in \<open>simp_all add: after_fields\<close>)
  ultimately show thesis
    using that [where c' = ?c and w' = w'] w' acc assms(2) by (simp add: store_conn_eq after_fields)
qed

section \<open>The client hears\<close>

text \<open>What the frames of one client are, among the answers to all.\<close>

lemma own_indexed:
  "length es = length xs \<Longrightarrow> \<forall>j < length xs. fst (xs ! j) = k \<longrightarrow> P (length (own k (take j xs))) (snd (xs ! j)) (es ! j)
    \<Longrightarrow> length (own k (zip (map fst xs) es)) = length (own k xs)
      \<and> (\<forall>i < length (own k xs). P i (snd (own k xs ! i)) (snd (own k (zip (map fst xs) es) ! i)))"
proof (induction es xs arbitrary: P rule: list_induct2)
  case (Cons e es x xs)
  have tail: "\<forall>j < length xs. fst (xs ! j) = k \<longrightarrow>
      P (length (own k (take (Suc j) (x # xs)))) (snd (xs ! j)) (es ! j)"
    using Cons.prems by auto
  show ?case
  proof (cases "fst x = k")
    case True
    then have "\<forall>j < length xs. fst (xs ! j) = k \<longrightarrow> P (Suc (length (own k (take j xs)))) (snd (xs ! j)) (es ! j)"
      using tail by simp
    from Cons.IH [of "\<lambda>n. P (Suc n)", OF this] show ?thesis
      using True Cons.prems [THEN spec, of 0] by (auto simp: nth_Cons split: nat.split)
  next
    case False
    then show ?thesis using Cons.IH [of P] tail by simp
  qed
qed simp

lemma own_answers: "own k (map (answer s reply) rs) = map (answer s reply) (filter (\<lambda>r. rq_connID r = k) rs)"
  by (induction rs) (simp_all add: answer_def)

definition responses_to :: "(Request \<Rightarrow> bytes \<times> u8) \<Rightarrow> u64 \<Rightarrow> Request list \<Rightarrow> ClientResponse list" where
  "responses_to reply k rs = map (\<lambda>r. \<lparr>cr_path = rq_path r, cr_data = fst (reply r), cr_status = snd (reply r)\<rparr>)
     (filter (\<lambda>r. rq_connID r = k) rs)"

lemma unat_after: "unat x + n < 2 ^ 32 \<Longrightarrow> unat (x + of_nat n) = unat x + n" for x :: u32
  by (simp add: unat_word_ariths unat_of_nat take_bit_nat_eq_self)

lemma frames_heard:
  assumes link: "linked hc hs" and pair: "paired k c" "silent k" and num: "unat (k_lastSrvFid k) \<le> unat (c_fid c)"
    and fs: "length es = length fs" "unat (c_fid c) + length fs < 2 ^ 32"
      "\<forall>f \<in> set fs. ssid f = c_ssid c \<and> fits (k_maxFrameSize k) (path f) (data f)"
      "\<forall>i < length fs. \<exists>t t'. encodeFrame (h_ssl hs) (fs ! i) True (c_aesKey c) (c_fid c + 1 + of_nat i) t = (Inr (es ! i), t')"
    and bytes: "concat (concat css) = concat es"
  shows "\<exists>k' w'. reads_all (\<lambda>cs. client_receive hc cs WouldBlock) () css (k, w) = (Inr (), (k', w'))
    \<and> k_responses k' = k_responses k @ map ClientResponse_of fs"
proof -
  let ?g = "\<lambda>i. renumber (c_fid c + 1 + of_nat i) (fs ! i)"
  let ?gs = "map ?g [0..<length fs]"
  have nums: "unat (c_fid c + 1 + of_nat i) = unat (c_fid c) + 1 + i" if "i < length fs" for i
    using unat_after [of "c_fid c" "Suc i"] fs(2) that by (simp add: algebra_simps)
  have g: "fid (?g i) = c_fid c + 1 + of_nat i" if "i < length fs" for i
    using nums [OF that] by (auto simp: renumber_def)
  have "sealed_for hc k (?g i) (es ! i)" if i: "i < length fs" for i
  proof -
    have "fits (k_maxFrameSize k) (path (fs ! i)) (data (fs ! i))" using fs(3) i nth_mem by blast
    moreover obtain t t' where "encodeFrame (h_ssl hc) (?g i) True (k_aesKey k) 0 t = (Inr (es ! i), t')"
      using fs(4) i link pair(1) encodeFrame_renumber unfolding linked_def paired_def by metis
    ultimately show ?thesis by (auto simp: sealed_def fits_def)
  qed
  then have coded: "list_all2 (sealed_for hc k) ?gs es" using fs(1) by (simp add: list_all2_conv_all_nth)
  have "sorted_wrt (<) (map fid ?gs)"
    using nums g by (simp add: sorted_wrt_iff_nth_less word_less_nat_alt)
  moreover have "ssid f = k_ssid k \<and> k_lastSrvFid k < fid f" if f: "f \<in> set ?gs" for f
  proof -
    obtain i where "f = ?g i" "i < length fs" using f by auto
    then show ?thesis using fs(3) pair(1) num g nums by (simp add: paired_def word_less_nat_alt)
  qed
  ultimately have acc: "cw.accepted k ?gs = ?gs" by (intro cw.accepts_all) blast+
  note P = pair(1) [unfolded paired_def]
  obtain w' where "reads_all (\<lambda>cs. client_receive hc cs WouldBlock) () css (k, w)
      = (Inr (), ((cw.after k ?gs)\<lparr>k_frameBuffer := []\<rparr>, w'))"
    using ks.reads_stream [of hc k "[]" ?gs es css w] P linked_ready [OF link pair(1)] silent_polite [OF pair(2)]
      coded bytes acc by auto
  moreover have "map ClientResponse_of ?gs = map ClientResponse_of fs"
    by (rule nth_equalityI) (simp_all add: ClientResponse_of_def)
  ultimately show ?thesis using acc by (simp add: client_after_fields)
qed

text \<open>The answers to one client, among those to all.\<close>

lemma own_answers_heard:
  assumes link: "linked hc hs" and pair: "paired k c" "silent k" and num: "unat (k_lastSrvFid k) \<le> unat (c_fid c)"
    and del: "delivered hs s (map (answer s reply) rs) encs s'"
    and conn: "map_of (s_connections s) ci = Some c" "c_fd c \<noteq> -1"
    and room: "unat (c_fid c) + length (filter (\<lambda>r. rq_connID r = ci) rs) < 2 ^ 32"
    and fit: "\<forall>r \<in> set rs. rq_connID r = ci \<longrightarrow> fits (k_maxFrameSize k) (rq_path r) (fst (reply r))"
  shows "\<exists>bs. wire (c_fd c) (s_world s') = wire (c_fd c) (s_world s) @ bs
    \<and> (\<forall>css w. concat (concat css) = bs \<longrightarrow>
        (\<exists>k' w'. reads_all (\<lambda>cs. client_receive hc cs WouldBlock) () css (k, w) = (Inr (), (k', w'))
          \<and> k_responses k' = k_responses k @ responses_to reply ci rs))"
proof -
  let ?F = "map (answer s reply) rs" and ?own = "filter (\<lambda>r. rq_connID r = ci) rs"
  let ?fs = "map snd (own ci ?F)" and ?es = "map snd (own ci (zip (map fst ?F) encs))"
  let ?enc = "\<lambda>i f e. \<exists>t t'. encodeFrame (h_ssl hs) f True (c_aesKey c) (c_fid c + 1 + of_nat i) t = (Inr e, t')"
  note D = del [unfolded delivered_def]
  have "\<forall>j < length ?F. fst (?F ! j) = ci \<longrightarrow> ?enc (length (own ci (take j ?F))) (snd (?F ! j)) (encs ! j)"
    using D conn(1) by metis
  from own_indexed [OF _ this] D have es: "length ?es = length ?fs" "\<forall>i < length ?fs. ?enc i (?fs ! i) (?es ! i)"
    by simp_all
  have fs: "?fs = map (\<lambda>r. makeRespFrame c (rq_path r) (fst (reply r)) (snd (reply r)) 0 (rq_rid r)) ?own"
    using conn(1) by (simp add: own_answers answer_def)
  have parts: "path (makeRespFrame c pa dt st 0 ri) = pa" "data (makeRespFrame c pa dt st 0 ri) = dt"
    "status (makeRespFrame c pa dt st 0 ri) = st" "ssid (makeRespFrame c pa dt st 0 ri) = c_ssid c" for pa dt st ri
    by (simp_all add: makeRespFrame_def makeFrame_def)
  have fits: "\<forall>f \<in> set ?fs. ssid f = c_ssid c \<and> fits (k_maxFrameSize k) (path f) (data f)"
    using fit by (auto simp: fs parts)
  have resp: "map ClientResponse_of ?fs = responses_to reply ci rs"
    by (simp add: fs responses_to_def ClientResponse_of_def parts)
  have len: "unat (c_fid c) + length ?fs < 2 ^ 32" using room by (simp add: fs)
  have "wire (c_fd c) (s_world s') = wire (c_fd c) (s_world s) @ concat ?es" using D conn by blast
  then show ?thesis
    using frames_heard [OF link pair num es(1) len fits es(2)] unfolding resp by blast
qed

section \<open>All the way\<close>

lemma requests_of_frames:
  "map (\<lambda>q. (rq_path q, rq_data q)) (map (request_of c) (frames_of fi si ri rs)) = rs"
  "q \<in> set (map (request_of c) (frames_of fi si ri rs)) \<Longrightarrow> rq_connID q = c_connId c \<and> (rq_path q, rq_data q) \<in> set rs"
  by (induction fi si ri rs rule: frames_of.induct) (auto simp: request_of_def Request_of_def makeFrame_def)

lemma pool_enqueued:
  "tp_tasks (fold tp_enqueue qs p) = tp_tasks p @ qs" "tp_workers (fold tp_enqueue qs p) = tp_workers p"
  "tp_terminated (fold tp_enqueue qs p) = tp_terminated p" "pending (fold tp_enqueue qs p) = pending p + mset qs"
proof -
  show "tp_tasks (fold tp_enqueue qs p) = tp_tasks p @ qs" "tp_workers (fold tp_enqueue qs p) = tp_workers p"
    "tp_terminated (fold tp_enqueue qs p) = tp_terminated p"
    by (induction qs arbitrary: p) (simp_all add: tp_enqueue_def tp_push_def Let_def)
  then show "pending (fold tp_enqueue qs p) = pending p + mset qs" by (simp add: pending_def)
qed

text \<open>When none of a client's requests is pending any more, it has been sent one answer for each.\<close>

lemma all_answered:
  assumes "mset rs + left = others + mset qs" "\<forall>q \<in># left. rq_connID q \<noteq> ci" "\<forall>q \<in># others. rq_connID q \<noteq> ci"
    and "\<forall>q \<in> set qs. rq_connID q = ci"
  shows "mset (filter (\<lambda>q. rq_connID q = ci) rs) = mset qs"
proof -
  have none: "filter_mset (\<lambda>q. rq_connID q = ci) left = {#}" "filter_mset (\<lambda>q. rq_connID q = ci) others = {#}"
    using assms(2,3) by (simp_all add: filter_mset_eq_conv)
  have "filter_mset (\<lambda>q. rq_connID q = ci) (mset qs) = mset qs" using assms(4) by (simp add: filter_mset_eq_conv)
  then show ?thesis
    using arg_cong [OF assms(1), of "filter_mset (\<lambda>q. rq_connID q = ci)"] none by (simp add: mset_filter)
qed

definition no_more :: "u64 \<Rightarrow> Server \<Rightarrow> bool" where
  "no_more ci s \<longleftrightarrow> (\<forall>q \<in># pending (s_tpool s). rq_connID q \<noteq> ci)"

text \<open>What the client has to hear in return for its requests, in some order.\<close>

definition answered_all :: "(bytes \<times> bytes \<Rightarrow> bytes \<times> u8) \<Rightarrow> asking list \<Rightarrow> ClientResponse list \<Rightarrow> bool" where
  "answered_all reply rs rsps \<longleftrightarrow>
    mset rsps = mset (map (\<lambda>r. \<lparr>cr_path = fst r, cr_data = fst (reply r), cr_status = snd (reply r)\<rparr>) rs)"

abbreviation on_request :: "(bytes \<times> bytes \<Rightarrow> bytes \<times> u8) \<Rightarrow> Request \<Rightarrow> bytes \<times> u8" where
  "on_request reply q \<equiv> reply (rq_path q, rq_data q)"

lemma responses_answer_all:
  assumes "mset (filter (\<lambda>q. rq_connID q = ci) rs) = mset qs" "map (\<lambda>q. (rq_path q, rq_data q)) qs = reqs"
  shows "answered_all reply reqs (responses_to (on_request reply) ci rs)"
  using arg_cong [OF assms(1), of "image_mset (\<lambda>q. \<lparr>cr_path = rq_path q, cr_data = fst (on_request reply q),
      cr_status = snd (on_request reply q)\<rparr>)"]
  by (simp add: answered_all_def responses_to_def assms(2) [symmetric] comp_def)

text \<open>
  The state \<open>s1\<close> after the server has read the requests: they are in the pool, and all that is
  pending can be answered.
\<close>

lemma pipeline_read:
  assumes link: "linked hc hs" and touch: "in_touch e k c s" "unat (k_fid k) + length reqs < 2 ^ 32"
    and others: "no_more (c_connId c) s" "\<forall>q \<in># pending (s_tpool s). answerable hs s (on_request reply) q"
    and reqs: "\<forall>r \<in> set reqs. replies s (c_connId c) r (reply r) \<and> fits (k_maxFrameSize k) (fst r) (fst (reply r))"
    and es: "list_all2 (encodes hs c) (frames_of (k_fid k) (k_ssid k) (k_rid k) reqs) es"
    and sev: "brings (c_fd c) (concat es) sev"
  obtains s1 c1 qs where "handle_event hs (Suc n) sev s = (Inr (), s1)"
    "map_of (s_connections s1) (c_connId c) = Some c1" "paired (has_asked_all reqs k) c1" "c_fd c1 = c_fd c" "c_fid c1 = c_fid c"
    "server_ok s1" "s_alive s1" "s_cmdEvFd s1 = Some e" "s_commandQueue s1 = s_commandQueue s"
    "s_tpool s1 = fold tp_enqueue qs (s_tpool s)" "wire (c_fd c) (s_world s1) = wire (c_fd c) (s_world s)"
    "map (\<lambda>q. (rq_path q, rq_data q)) qs = reqs" "\<forall>q \<in> set qs. rq_connID q = c_connId c"
    "\<forall>q \<in># pending (s_tpool s1). answerable hs s1 (on_request reply) q"
proof -
  let ?ci = "c_connId c" and ?fs = "frames_of (k_fid k) (k_ssid k) (k_rid k) reqs"
  note T = touch(1) [unfolded in_touch_def]
  note P = T [THEN conjunct1, unfolded paired_def]
  have rest: "resting e c s" using T by blast
  note R = rest [unfolded resting_def attached_def]
  have window: "sorted_wrt (<) (map fid ?fs)" "\<forall>f \<in> set ?fs. ssid f = c_ssid c \<and> c_lastCliFid c < fid f"
    using frames_of_window [OF touch(2), of "k_ssid k" "k_rid k"] T P by (auto simp: word_less_nat_alt)
  have can: "can_decode hs c" "c_state c = ACTIVE" "c_inFrameBuffer c = []" and send: "can_send hs c"
    using linked_sends [OF link, of k c] T P by (simp_all add: can_send_def can_decode_def)
  define qs where "qs = map (request_of c) ?fs"
  obtain c1 w1 where ev: "handle_event hs (Suc n) sev s = (Inr (), s\<lparr>s_connections := AList.update ?ci c1 (s_connections s),
      s_world := w1, s_tpool := fold tp_enqueue qs (s_tpool s)\<rparr>)"
    and c1: "w_out w1 = w_out (s_world s)" "c_connId c1 = ?ci" "c_fd c1 = c_fd c" "c_aesKey c1 = c_aesKey c"
      "c_ssid c1 = c_ssid c" "c_fid c1 = c_fid c" "c_state c1 = ACTIVE" "c_inFrameBuffer c1 = []"
    unfolding qs_def by (rule requests_read [OF can es window rest sev])
  define s1 where "s1 = s\<lparr>s_connections := AList.update ?ci c1 (s_connections s), s_world := w1,
      s_tpool := fold tp_enqueue qs (s_tpool s)\<rparr>"
  note ev = ev [folded s1_def]
  have qs: "map (\<lambda>q. (rq_path q, rq_data q)) qs = reqs" "\<forall>q \<in> set qs. rq_connID q = ?ci \<and> (rq_path q, rq_data q) \<in> set reqs"
    unfolding qs_def using requests_of_frames by blast+
  have s1: "map_of (s_connections s1) = (map_of (s_connections s))(?ci \<mapsto> c1)" "s_alive s1" "s_cmdEvFd s1 = Some e"
    "s_commandQueue s1 = s_commandQueue s" "s_tpool s1 = fold tp_enqueue qs (s_tpool s)"
    "wire (c_fd c) (s_world s1) = wire (c_fd c) (s_world s)" "answers s1 = answers s"
    using R c1(1) answers_cong [of s1 s] by (simp_all add: s1_def update_conv' wire_def)
  have "server_ok s1" using handle_event_ok [OF _ _ ev] R sev by (auto simp: brings_def)
  moreover have "paired (has_asked_all reqs k) c1" using P c1 by (simp add: paired_def)
  moreover have "answerable hs s1 (on_request reply) q" if q: "q \<in># pending (s_tpool s1)" for q
  proof (cases "q \<in> set qs")
    case True
    then have own: "rq_connID q = ?ci" "(rq_path q, rq_data q) \<in> set reqs" using qs(2) by blast+
    have "answers s q (fst (on_request reply q)) (snd (on_request reply q))"
      using reqs own by (cases q) (force simp: replies_def)
    moreover have "fits (k_maxFrameSize k) (rq_path q) (fst (on_request reply q))" using reqs own(2) by force
    moreover have "can_send hs c1" "c_fd c1 \<noteq> -1" using send c1 R by (simp_all add: can_send_def)
    ultimately show ?thesis using s1 own(1) by (simp add: answerable_def fits_def)
  next
    case False
    then have "q \<in># pending (s_tpool s)" using q by (simp add: s1 pool_enqueued)
    then have "answerable hs s (on_request reply) q" "rq_connID q \<noteq> ?ci" using others by (simp_all add: no_more_def)
    then show ?thesis using s1 by (simp add: answerable_def)
  qed
  ultimately show thesis using that [OF ev] s1 c1 qs by simp
qed

lemma pipeline_served:
  assumes link: "linked hc hs" and touch: "in_touch e k c s" "unat (c_fid c) + length reqs < 2 ^ 32" "unat (k_fid k) + length reqs < 2 ^ 32"
    and server: "cq_queue (s_commandQueue s) = []" "\<not> tp_terminated (s_tpool s)"
      "i < length (tp_workers (s_tpool s))" "tp_workers (s_tpool s) ! i = Ready"
    and others: "no_more (c_connId c) s" "\<forall>q \<in># pending (s_tpool s). answerable hs s (on_request reply) q"
    and reqs: "\<forall>r \<in> set reqs. replies s (c_connId c) r (reply r) \<and> fits (k_maxFrameSize k) (fst r) (fst (reply r))"
    and es: "list_all2 (encodes hs c) (frames_of (k_fid k) (k_ssid k) (k_rid k) reqs) es"
    and events: "brings (c_fd c) (concat es) sev" "ev_fd wev = e"
  shows "\<exists>s1. handle_event hs (Suc n) sev s = (Inr (), s1) \<and> (\<exists>rs s2. working s1 rs s2 \<and> no_more (c_connId c) s2)
    \<and> (\<forall>rs s2. working s1 rs s2 \<longrightarrow> no_more (c_connId c) s2 \<longrightarrow>
        (\<exists>s3 bs. handle_event hs (Suc n) wev s2 = (Inr (), s3)
          \<and> wire (c_fd c) (s_world s3) = wire (c_fd c) (s_world s) @ bs
          \<and> (\<forall>css w. concat (concat css) = bs \<longrightarrow>
              (\<exists>k3 w3 rsps. reads_all (\<lambda>cs. client_receive hc cs WouldBlock) () css (has_asked_all reqs k, w) = (Inr (), (k3, w3))
                \<and> k_responses k3 = k_responses k @ rsps \<and> answered_all reply reqs rsps))))"
proof -
  let ?ci = "c_connId c" and ?k = "has_asked_all reqs k"
  note T = touch(1) [unfolded in_touch_def]
  obtain s1 c1 qs where ev: "handle_event hs (Suc n) sev s = (Inr (), s1)"
    and c1: "map_of (s_connections s1) ?ci = Some c1" "paired ?k c1" "c_fd c1 = c_fd c" "c_fid c1 = c_fid c"
    and s1: "server_ok s1" "s_alive s1" "s_cmdEvFd s1 = Some e" "s_commandQueue s1 = s_commandQueue s"
    and pool: "s_tpool s1 = fold tp_enqueue qs (s_tpool s)" and out: "wire (c_fd c) (s_world s1) = wire (c_fd c) (s_world s)"
    and qs: "map (\<lambda>q. (rq_path q, rq_data q)) qs = reqs" "\<forall>q \<in> set qs. rq_connID q = ?ci"
    and answerable: "\<forall>q \<in># pending (s_tpool s1). answerable hs s1 (on_request reply) q"
    by (rule pipeline_read [OF link touch(1,3) others reqs es events(1)])
  have queue: "cq_queue (s_commandQueue s1) = []" using s1(4) server(1) by simp
  have alone: "\<forall>q \<in># pending (s_tpool s). rq_connID q \<noteq> ?ci" using others(1) by (simp add: no_more_def)
  have left: "mset rs + pending (s_tpool s2) = pending (s_tpool s) + mset qs" if "working s1 rs s2" for rs s2
    using working_queues [OF that answerable s1(2,3)] by (simp add: pool pool_enqueued)
  have possible: "\<exists>rs s2. working s1 rs s2 \<and> no_more ?ci s2"
  proof -
    have tasks: "\<forall>q \<in> set (tp_tasks (s_tpool s1)). answerable hs s1 (on_request reply) q"
      using answerable by (simp add: pending_def)
    have "\<exists>s2. working s1 (tp_tasks (s_tpool s1)) s2"
      by (rule working_turns [OF _ _ _ tasks s1(2,3), where i = i]) (use server(2-4) in \<open>simp_all add: pool pool_enqueued\<close>)
    then obtain s2 where run: "working s1 (tp_tasks (s_tpool s1)) s2" by blast
    have "pending (s_tpool s2) = sum_list (map taken (tp_workers (s_tpool s)))"
      using left [OF run] by (simp add: pool pool_enqueued pending_def [of "s_tpool s"])
    then have "no_more ?ci s2" using alone by (simp add: no_more_def pending_def [of "s_tpool s"])
    then show ?thesis using run by blast
  qed
  have heard: "\<exists>s3 bs. handle_event hs (Suc n) wev s2 = (Inr (), s3)
      \<and> wire (c_fd c) (s_world s3) = wire (c_fd c) (s_world s) @ bs
      \<and> (\<forall>css w. concat (concat css) = bs \<longrightarrow>
          (\<exists>k3 w3 rsps. reads_all (\<lambda>cs. client_receive hc cs WouldBlock) () css (?k, w) = (Inr (), (k3, w3))
            \<and> k_responses k3 = k_responses k @ rsps \<and> answered_all reply reqs rsps))"
    if run: "working s1 rs s2" and over: "no_more ?ci s2" for rs s2
  proof -
    obtain s3 encs where s3: "handle_event hs (Suc n) wev s2 = (Inr (), s3)"
      and del: "delivered hs s1 (map (answer s1 (on_request reply)) rs) encs s3"
      using answers_sent [OF s1(1-3) queue answerable events(2) run] by blast
    have mine: "mset (filter (\<lambda>q. rq_connID q = ?ci) rs) = mset qs"
      by (rule all_answered [OF left [OF run] over [unfolded no_more_def] alone qs(2)])
    then have "length (filter (\<lambda>q. rq_connID q = ?ci) rs) = length reqs" using qs(1) by (metis length_map size_mset)
    then have room: "unat (c_fid c1) + length (filter (\<lambda>q. rq_connID q = ?ci) rs) < 2 ^ 32" using touch(2) c1(4) by simp
    have fit: "\<forall>r \<in> set rs. rq_connID r = ?ci \<longrightarrow> fits (k_maxFrameSize ?k) (rq_path r) (fst (on_request reply r))"
    proof (intro ballI impI)
      fix r assume "r \<in> set rs" "rq_connID r = ?ci"
      then have "r \<in># mset qs" unfolding mine [symmetric] by simp
      then have "(rq_path r, rq_data r) \<in> set reqs" unfolding qs(1) [symmetric] by force
      then show "fits (k_maxFrameSize ?k) (rq_path r) (fst (on_request reply r))" using reqs by force
    qed
    have k: "silent ?k" "unat (k_lastSrvFid ?k) \<le> unat (c_fid c1)" "c_fd c1 \<noteq> -1"
      using T c1 by (simp_all add: silent_def resting_def attached_def)
    from own_answers_heard [OF link c1(2) k(1,2) del c1(1) k(3) room fit] obtain bs where
      "wire (c_fd c1) (s_world s3) = wire (c_fd c1) (s_world s1) @ bs"
      and hears: "\<forall>css w. concat (concat css) = bs \<longrightarrow>
        (\<exists>k' w'. reads_all (\<lambda>cs. client_receive hc cs WouldBlock) () css (?k, w) = (Inr (), (k', w'))
          \<and> k_responses k' = k_responses ?k @ responses_to (on_request reply) ?ci rs)" by blast
    then have "wire (c_fd c) (s_world s3) = wire (c_fd c) (s_world s) @ bs" using c1(3) out by simp
    moreover have "answered_all reply reqs (responses_to (on_request reply) ?ci rs)"
      by (rule responses_answer_all [OF mine qs(1)])
    ultimately show ?thesis using s3 hears by fastforce
  qed
  show ?thesis using ev possible heard by blast
qed

text \<open>
  C2: requests may be sent without waiting for answers. However many requests a user queues, as far
  as the frame counters reach, one event of the client's epoll thread sends them all; one event of
  the server, whatever the chunks, puts them into the pool, where requests of others may wait; and
  whatever the order in which the workers take and answer them, once none of them is pending the
  eventfd's event sends the answers, and the client delivers, however the bytes arrive, exactly one
  response for each request, with its path and the data and status of its route. They come in the
  order in which the handlers answered; which of two responses with one path belongs to which
  request, the client cannot tell.
\<close>

theorem pipeline_heard:
  assumes lib: "h_ssl hs = h_ssl hc" "gcm_laws (h_ssl hc)" "gcm_reliable (h_ssl hc)"
    and net: "takes hc (\<lambda>n. n)" "sends_succeed hs"
    and touch: "in_touch e k c s" "unat (c_fid c) + length reqs < 2 ^ 32" "unat (k_fid k) + length reqs < 2 ^ 32"
    and server: "cq_queue (s_commandQueue s) = []" "\<not> tp_terminated (s_tpool s)"
      "i < length (tp_workers (s_tpool s))" "tp_workers (s_tpool s) ! i = Ready"
    and others: "no_more (c_connId c) s" "\<forall>q \<in># pending (s_tpool s). answerable hs s (on_request reply) q"
    and reqs: "\<forall>r \<in> set reqs. replies s (c_connId c) r (reply r)
      \<and> fits (c_maxFrameSize c) (fst r) (snd r) \<and> fits (k_maxFrameSize k) (fst r) (fst (reply r))"
    and events: "kv_fd cev = k_cmdEvFd k" "ev_fd wev = e"
  shows "\<exists>k1 k2 w2 rq. queue_all reqs (k, w) = (Inr (), (k1, w)) \<and> handle_client_event hc cev (k1, w) = (Inr (), (k2, w2))
    \<and> wire (k_socket k) w2 = wire (k_socket k) w @ rq
    \<and> (\<forall>sev. brings (c_fd c) rq sev \<longrightarrow>
        (\<exists>s1. handle_event hs (Suc n) sev s = (Inr (), s1) \<and> (\<exists>rs s2. working s1 rs s2 \<and> no_more (c_connId c) s2)
          \<and> (\<forall>rs s2. working s1 rs s2 \<longrightarrow> no_more (c_connId c) s2 \<longrightarrow>
              (\<exists>s3 bs. handle_event hs (Suc n) wev s2 = (Inr (), s3)
                \<and> wire (c_fd c) (s_world s3) = wire (c_fd c) (s_world s) @ bs
                \<and> (\<forall>css w3. concat (concat css) = bs \<longrightarrow>
                    (\<exists>k3 w4 rsps. reads_all (\<lambda>cs. client_receive hc cs WouldBlock) () css (k2, w3) = (Inr (), (k3, w4))
                      \<and> k_responses k3 = k_responses k @ rsps \<and> answered_all reply reqs rsps))))))"
proof -
  have link: "linked hc hs" using lib net by (simp add: linked_def)
  note T = touch(1) [unfolded in_touch_def]
  note P = T [THEN conjunct1, unfolded paired_def]
  have k: "client_ready hc k" "k_state k = Connected" "k_running k" "cq_queue (k_commandQueue k) = []"
    using linked_ready [OF link, of k c] T P by simp_all
  have fit: "\<forall>r \<in> set reqs. fits (c_maxFrameSize c) (fst r) (snd r)" using reqs by blast
  obtain k1 w2 es where sent: "queue_all reqs (k, w) = (Inr (), (k1, w))"
    "handle_client_event hc cev (k1, w) = (Inr (), (has_asked_all reqs k, w2))"
    "wire (k_socket k) w2 = wire (k_socket k) w @ concat es"
    and "list_all2 (sealed (h_ssl hc) (k_aesKey k) (c_maxFrameSize c)) (frames_of (k_fid k) (k_ssid k) (k_rid k) reqs) es"
    using requests_leave [OF k net(1) fit events(1), of w] by blast
  then have es: "list_all2 (encodes hs c) (frames_of (k_fid k) (k_ssid k) (k_rid k) reqs) es"
    using lib(1) P by (simp add: encodes_def [abs_def])
  have "\<forall>r \<in> set reqs. replies s (c_connId c) r (reply r) \<and> fits (k_maxFrameSize k) (fst r) (fst (reply r))"
    using reqs by blast
  note served = pipeline_served [OF link touch server others this es _ events(2)]
  show ?thesis
    by (rule exI [of _ k1], rule exI [of _ "has_asked_all reqs k"], rule exI [of _ w2], rule exI [of _ "concat es"],
      intro conjI allI impI sent, rule served)
qed

section \<open>Two requests among those of another client\<close>

definition busy_company :: Server where
  "busy_company = company\<lparr>s_connections := [(1, sample_active),
      (2, sample_active\<lparr>c_connId := 2, c_fd := 8, c_requests := [other_request]\<rparr>)],
     s_tpool := tp_enqueue other_request (ThreadPool 1)\<rparr>"

lemma busy_company_fields: "s_connections busy_company = [(1, sample_active),
      (2, sample_active\<lparr>c_connId := 2, c_fd := 8, c_requests := [other_request]\<rparr>)]"
  "s_fdToId busy_company = [(5, 1), (8, 2)]" "s_cmdEvFd busy_company = Some 6" "s_socket busy_company = 3"
  "s_alive busy_company" "cq_queue (s_commandQueue busy_company) = []" "s_routes busy_company = []"
  "s_funcRoutes busy_company = []" "s_connCount busy_company = 2" "s_world busy_company = sample_world"
  "tp_workers (s_tpool busy_company) = [Ready]" "tp_tasks (s_tpool busy_company) = [other_request]"
  "tp_enqueued (s_tpool busy_company) = [other_request]" "\<not> tp_terminated (s_tpool busy_company)"
  by (simp_all add: busy_company_def company_fields company_def active_server_def tp_enqueue_def tp_push_def ThreadPool_def)

theorem pipeline_heard_witness:
  "\<exists>k1 k2 w2 s1 rs s2 s3 k3 w4.
    queue_all [(lit ''/a'', []), (lit ''/b'', [1])] (connected_client, sample_world) = (Inr (), (k1, sample_world))
    \<and> handle_client_event sample_host (sample_client_event 9) (k1, sample_world) = (Inr (), (k2, w2))
    \<and> handle_event sample_host 1 \<lparr>ev_fd = 5, ev_hup = False, ev_in = True, ev_accepts = [],
         ev_chunks = [wire 7 w2], ev_end = WouldBlock\<rparr> busy_company = (Inr (), s1)
    \<and> working s1 rs s2 \<and> handle_event sample_host 1 (sample_event 6) s2 = (Inr (), s3)
    \<and> reads_all (\<lambda>cs. client_receive sample_host cs WouldBlock) () [[wire 5 (s_world s3)]] (k2, w2) = (Inr (), (k3, w4))
    \<and> answered_all (\<lambda>_. ([], STATUS_NOT_FOUND)) [(lit ''/a'', []), (lit ''/b'', [1])] (k_responses k3)"
proof -
  let ?reqs = "[(lit ''/a'', []), (lit ''/b'', [1])] :: asking list" and ?reply = "\<lambda>_. ([], STATUS_NOT_FOUND)"
  have client: "k_cmdEvFd connected_client = 9" "k_socket connected_client = 7" "k_responses connected_client = []"
    "k_fid connected_client = 0" by (simp_all add: connected_client_def waiting_client_def)
  have conn: "c_connId sample_active = 1" "c_fd sample_active = 5" "c_fid sample_active = 0" by (simp_all add: sample_active_def)
  have touch: "in_touch 6 connected_client sample_active busy_company"
    by (auto simp: in_touch_def paired_def silent_def resting_def attached_def own_commands_def busy_company_fields
        server_ok_def connected_client_def waiting_client_def sample_active_def other_request_def)
  have pend: "pending (s_tpool busy_company) = {#other_request#}" by (simp add: pending_def busy_company_fields)
  have can: "can_send sample_host sample_active" using sample_can_decode by (simp add: can_send_def can_decode_def)
  have others: "no_more (c_connId sample_active) busy_company"
    "\<forall>q \<in># pending (s_tpool busy_company). answerable sample_host busy_company (on_request ?reply) q"
    using can by (simp_all add: no_more_def pend conn other_request_def answerable_def busy_company_fields answers_def can_send_def)
  have reqs: "\<forall>r \<in> set ?reqs. replies busy_company (c_connId sample_active) r (?reply r)
      \<and> fits (c_maxFrameSize sample_active) (fst r) (snd r) \<and> fits (k_maxFrameSize connected_client) (fst r) (fst (?reply r))"
    by (simp add: replies_def answers_def fits_def busy_company_fields sample_active_def connected_client_def waiting_client_def)
  have w0: "wire fd sample_world = []" for fd by (simp add: wire_def sample_world_def)
  have nums: "unat (c_fid sample_active) + length ?reqs < 2 ^ 32" "unat (k_fid connected_client) + length ?reqs < 2 ^ 32"
    using conn(3) client(4) by simp_all
  have pool: "0 < length (tp_workers (s_tpool busy_company))" "tp_workers (s_tpool busy_company) ! 0 = Ready"
    by (simp_all add: busy_company_fields)
  have evs: "kv_fd (sample_client_event 9) = k_cmdEvFd connected_client" "ev_fd (sample_event 6) = 6"
    by (simp_all add: client sample_client_event_def)
  obtain k1 k2 w2 rq where sent: "queue_all ?reqs (connected_client, sample_world) = (Inr (), (k1, sample_world))"
    "handle_client_event sample_host (sample_client_event 9) (k1, sample_world) = (Inr (), (k2, w2))" "wire 7 w2 = rq"
    and served: "\<forall>sev. brings 5 rq sev \<longrightarrow>
        (\<exists>s1. handle_event sample_host (Suc 0) sev busy_company = (Inr (), s1) \<and> (\<exists>rs s2. working s1 rs s2 \<and> no_more 1 s2)
          \<and> (\<forall>rs s2. working s1 rs s2 \<longrightarrow> no_more 1 s2 \<longrightarrow>
              (\<exists>s3 bs. handle_event sample_host (Suc 0) (sample_event 6) s2 = (Inr (), s3) \<and> wire 5 (s_world s3) = bs
                \<and> (\<forall>css w3. concat (concat css) = bs \<longrightarrow>
                    (\<exists>k3 w4 rsps. reads_all (\<lambda>cs. client_receive sample_host cs WouldBlock) () css (k2, w3) = (Inr (), (k3, w4))
                      \<and> k_responses k3 = rsps \<and> answered_all ?reply ?reqs rsps)))))"
    using pipeline_heard [OF refl sample_host_laws(1,2) sample_takes sample_host_laws(3) touch nums busy_company_fields(6,14)
        pool others reqs evs, of sample_world 0]
    by (simp only: client conn w0 busy_company_fields append_Nil) blast
  let ?sev = "\<lparr>ev_fd = 5, ev_hup = False, ev_in = True, ev_accepts = [], ev_chunks = [wire 7 w2], ev_end = WouldBlock\<rparr>"
  have "brings 5 rq ?sev" using sent(3) by (simp add: brings_def)
  then obtain s1 rs s2 where s1: "handle_event sample_host 1 ?sev busy_company = (Inr (), s1)" "working s1 rs s2" "no_more 1 s2"
    and rest: "\<exists>s3. handle_event sample_host (Suc 0) (sample_event 6) s2 = (Inr (), s3)
      \<and> (\<forall>css w3. concat (concat css) = wire 5 (s_world s3) \<longrightarrow>
          (\<exists>k3 w4. reads_all (\<lambda>cs. client_receive sample_host cs WouldBlock) () css (k2, w3) = (Inr (), (k3, w4))
            \<and> answered_all ?reply ?reqs (k_responses k3)))"
    using served by (metis One_nat_def)
  then obtain s3 where s3: "handle_event sample_host 1 (sample_event 6) s2 = (Inr (), s3)"
    and hears: "\<And>css w3. concat (concat css) = wire 5 (s_world s3) \<Longrightarrow>
          \<exists>k3 w4. reads_all (\<lambda>cs. client_receive sample_host cs WouldBlock) () css (k2, w3) = (Inr (), (k3, w4))
            \<and> answered_all ?reply ?reqs (k_responses k3)" by auto
  then show ?thesis using sent(1,2) s1(1,2) s3 hears [of "[[wire 5 (s_world s3)]]" w2] by fastforce
qed

end
