(* ===== verification/Protocol_Limits.thy ===== *)
theory Protocol_Limits
  imports End_To_End
begin

text \<open>
  What an attacker on the wire, or a socket that is full for a moment, can do to a session:
  recorded bytes sent again, an answer sent back, a failure in the middle of the handshake.
\<close>

section \<open>Refusing a frame\<close>

text \<open>With a working key, library and socket, closing always returns.\<close>

lemma close_returns:
  assumes "can_send h c" "c_state c \<noteq> CLOSED" "c_fd c \<noteq> -1"
  shows "\<exists>c' w'. closeConnection h (Suc (Suc d)) r oc (c, w) = (Inr (), (c', w'))
    \<and> c_state c' = CLOSED \<and> c_fd c' = -1 \<and> c_requests c' = c_requests c
    \<and> real_closes w' = real_closes w @ [c_fd c]"
proof -
  let ?f = "makeRespFrame c [] [] STATUS_OK 0 0"
  have "length (path ?f) < 2 ^ 16" "length (path ?f) + length (data ?f) + 20 < 2 ^ 31"
    by (simp_all add: makeRespFrame_def makeFrame_def)
  then obtain c1 w1 where "sendFrame h (Suc d) ?f (c, w) = (Inr (), (c1, w1))"
    by (rule sendFrame_sends [OF assms(1)])
  then have "\<exists>c' w'. closeConnection h (Suc (Suc d)) r oc (c, w) = (Inr (), (c', w'))"
    using assms(2,3) by (simp add: closeConnection_Suc)
  then show ?thesis using close_once [OF _ assms(2,3)] by fastforce
qed

lemma frame_refused:
  assumes "can_send h c" "c_state c = ACTIVE" "c_fd c \<noteq> -1" "c_inFrameBuffer c = []"
    and "encodes h c f e" "\<not> server_admits c f" "concat chunks = e"
  shows "\<exists>c' w'. readFd h (Suc (Suc d)) chunks WouldBlock (c, w) = (Inr False, (c', w'))
    \<and> c_state c' = CLOSED \<and> c_fd c' = -1 \<and> c_requests c' = c_requests c
    \<and> real_closes w' = real_closes w @ [c_fd c]"
proof -
  let ?c = "c\<lparr>c_inFrameBuffer := e\<rparr>"
  have dec: "can_decode h c" using assms(1) by (simp add: can_send_def can_decode_def)
  then obtain w1 where one: "parse_step h (Suc (Suc d)) [] (?c, w) = (Inr (Inr [f]), (c, w1))"
    and out: "w_closed w1 = w_closed w"
    using parse_step_encoded [of h ?c f e "[]" "Suc (Suc d)" "[]" w] assms(2,4,5)
    by (auto simp: can_decode_def encodes_def)
  have "parse_step h (Suc (Suc d)) [f] (c, w1) = (Inr (Inl [f]), (c, w1))"
    by (rule parse_step_unfinished [OF dec]) (simp add: assms(4))
  then have parse: "parseFrames h (Suc (Suc d)) [] (?c, w) = (Inr [f], (c, w1))"
    using one by (simp add: parseFrames_round [of h _ "[]"] parseFrames_round [of h _ "[f]"])
  obtain c' w' where "closeConnection h (Suc (Suc d)) INVALID_REQUEST True (c, w1) = (Inr (), (c', w'))"
    and c': "c_state c' = CLOSED" "c_fd c' = -1" "c_requests c' = c_requests c"
      "real_closes w' = real_closes w1 @ [c_fd c]"
    using close_returns [OF assms(1) _ assms(3), of d INVALID_REQUEST True w1] assms(2) by auto
  then have "close_return h (Suc (Suc d)) INVALID_REQUEST (c, w1) = (Inr False, (c', w'))"
    by (simp add: close_return_run)
  then have "readFd h (Suc (Suc d)) chunks WouldBlock (c, w) = (Inr False, (c', w'))"
    using assms(2,4,6,7) parse by (simp add: readFd_run deliver_one)
  then show ?thesis using c' out by (auto simp: real_closes_def)
qed


section \<open>Recorded bytes, sent again\<close>

text \<open>
  C29: the handshake can be replayed, the session cannot. The recorded handshake bytes of one
  connection, sent on another within the time window, make that one active too, with the same
  key, although the README says that old handshakes cannot be used again. But a recorded frame
  of the first session does not belong to the second, unless the server happened to draw the same
  session identifier: it ends the connection and reaches no handler.
\<close>

theorem recorded_session_replayed:
  assumes ssl: "gcm_laws (h_ssl h)" "gcm_reliable (h_ssl h)" "sends_succeed h"
    and first: "fresh_conn c1" "c_inFrameBuffer c1 = []" "hello h c1 f key ts"
      "\<not> ts - fst (getTimestamp h w1) > 60"
    and second: "fresh_conn c2" "c_inFrameBuffer c2 = []" "c_rsaPrivKey c2 = c_rsaPrivKey c1"
      "c_maxFrameSize c2 = c_maxFrameSize c1" "\<not> ts - fst (getTimestamp h w2) > 60"
    and recorded: "concat chunks = header_of (length (encodeBody f r)) @ encodeBody f r"
      "sealed (h_ssl h) key (c_maxFrameSize c1) g e"
  shows "\<exists>c1' w1' c2' w2'. readFd h (Suc d) chunks WouldBlock (c1, w1) = (Inr True, (c1', w1'))
    \<and> readFd h (Suc d) chunks WouldBlock (c2, w2) = (Inr True, (c2', w2'))
    \<and> c_state c1' = ACTIVE \<and> c_state c2' = ACTIVE \<and> c_aesKey c1' = key \<and> c_aesKey c2' = key
    \<and> (ssid g \<noteq> c_ssid c2' \<longrightarrow>
        (\<exists>c3 w3. readFd h (Suc (Suc d)) [e] WouldBlock (c2', w2') = (Inr False, (c3, w3))
          \<and> c_state c3 = CLOSED \<and> c_requests c3 = c_requests c2))"
proof -
  have key: "length key = 32" using first(3) by (simp add: hello_def)
  have hello2: "hello h c2 f key ts" using first(3) second(3,4) by (simp add: hello_def)
  obtain c1' w1' where r1: "readFd h (Suc d) chunks WouldBlock (c1, w1) = (Inr True, (c1', w1'))"
    "c_state c1' = ACTIVE" "c_aesKey c1' = key"
    by (rule hello_accepted [OF first(1-3) recorded(1) ssl first(4)])
  obtain c2' w2' where r2: "readFd h (Suc d) chunks WouldBlock (c2, w2) = (Inr True, (c2', w2'))"
    "c_state c2' = ACTIVE" "c_aesKey c2' = key" "c_requests c2' = c_requests c2" "c_fd c2' = c_fd c2"
    "c_inFrameBuffer c2' = []" "c_maxFrameSize c2' = c_maxFrameSize c2"
    by (rule hello_accepted [OF second(1,2) hello2 recorded(1) ssl second(5)])
  have "\<exists>c3 w3. readFd h (Suc (Suc d)) [e] WouldBlock (c2', w2') = (Inr False, (c3, w3))
      \<and> c_state c3 = CLOSED \<and> c_requests c3 = c_requests c2" if "ssid g \<noteq> c_ssid c2'"
  proof -
    have "can_send h c2'" using ssl key r2(3) by (simp add: can_send_def)
    moreover have "c_fd c2' \<noteq> -1" using second(1) r2(5) by (simp add: fresh_conn_def)
    moreover have "encodes h c2' g e" using recorded(2) r2(3,7) second(4) by (simp add: encodes_def)
    moreover have "\<not> server_admits c2' g" using that by (simp add: server_admits_def)
    ultimately show ?thesis using frame_refused [of h c2' g e "[e]" d w2'] r2(2,4,6) by auto
  qed
  with r1 r2(1-3) show ?thesis by blast
qed

section \<open>An answer, sent back\<close>

text \<open>
  C30: an answer can be sent back as a request. Both directions use one key, one session
  identifier and independent frame counters, and nothing in a frame says which way it goes. An
  attacker who returns the server's own encrypted frame to it makes it a request, with the
  path and the data of the answer, whenever the server has sent more frames than the client.
\<close>

theorem reflected_answer_is_request:
  assumes "can_send h c" "c_state c = ACTIVE" "c_inFrameBuffer c = []"
    and "length pa < 2 ^ 16" "57 + length pa + length dt \<le> unat (c_maxFrameSize c)"
      "57 + length pa + length dt < 2 ^ 31"
    and "c_lastCliFid c < c_fid c + 1"
  shows "\<exists>c1 w1 e. sendFrame h (Suc d) (makeRespFrame c pa dt st fl ri) (c, w) = (Inr (), (c1, w1))
    \<and> wire (c_fd c) w1 = wire (c_fd c) w @ e
    \<and> (\<forall>chunks w2. concat chunks = e \<longrightarrow>
        (\<exists>c2 w3. readFd h d' chunks WouldBlock (c1, w2) = (Inr True, (c2, w3))
          \<and> c_requests c2 = c_requests c
              @ [\<lparr>rq_connID = c_connId c, rq_path = pa, rq_data = dt, rq_rid = ri\<rparr>]))"
proof -
  let ?f = "makeRespFrame c pa dt st fl ri"
  let ?g = "renumber (c_fid c + 1) ?f"
  let ?c1 = "c\<lparr>c_fid := c_fid c + 1\<rparr>"
  have f: "path ?f = pa" "data ?f = dt" by (simp_all add: makeRespFrame_def makeFrame_def)
  then have "length (path ?f) < 2 ^ 16" "length (path ?f) + length (data ?f) + 20 < 2 ^ 31"
    using assms(4,6) by simp_all
  then obtain e k w1 where enc: "encodeFrame (h_ssl h) ?f True (c_aesKey c) (c_fid c + 1) (w_crypto w) = (Inr e, k)"
    and run: "sendFrame h (Suc d) ?f (c, w) = (Inr (), (?c1, w1))"
    and wire: "wire (c_fd c) w1 = wire (c_fd c) w @ e"
    by (rule sendFrame_sends [OF assms(1)])
  have nz: "c_fid c + 1 \<noteq> 0" using assms(7) by (auto simp: word_less_nat_alt)
  then have g: "fid ?g = c_fid c + 1" "ssid ?g = c_ssid c" "path ?g = pa" "data ?g = dt" "rid ?g = ri"
    by (simp_all add: renumber_def makeRespFrame_def makeFrame_def)
  have dec: "can_decode h ?c1" using assms(1) by (simp add: can_send_def can_decode_def)
  have seal: "encodes h ?c1 ?g e"
    using enc assms(4-6) g by (auto simp: encodes_def sealed_def encodeFrame_renumber [where r = "c_fid c + 1"])
  have "\<exists>c2 w3. readFd h d' chunks WouldBlock (?c1, w2) = (Inr True, (c2, w3))
      \<and> c_requests c2 = c_requests c @ [\<lparr>rq_connID = c_connId c, rq_path = pa, rq_data = dt, rq_rid = ri\<rparr>]"
    if cut: "concat chunks = e" for chunks w2
  proof -
    obtain w3 where "readFd h d' chunks WouldBlock (?c1, w2) = (Inr True, (server_record ?g ?c1, w3))"
      by (rule server_reads_one [OF dec _ _ seal cut]) (use assms(2,3,7) g in simp_all)
    then show ?thesis using g by (simp add: server_record_def request_of_def Request_of_def)
  qed
  then show ?thesis using run wire by blast
qed

section \<open>A full socket, for a moment\<close>

text \<open>A kernel that refuses one call of \<open>send\<close> and then takes something again.\<close>

definition refuses_once :: "host \<Rightarrow> nat \<Rightarrow> bool" where
  "refuses_once h n \<longleftrightarrow> (\<forall>fd len. h_send h n fd len \<le> 0)
    \<and> (\<forall>m fd len. n < m \<longrightarrow> 0 < len \<longrightarrow> 0 < h_send h m fd len)"

lemma send_all_recovers:
  "refuses_once h n \<Longrightarrow> n < w_sends w \<Longrightarrow> fst (send_all h fd bs w)"
proof (induction "length bs" arbitrary: bs w rule: less_induct)
  case less
  obtain sent v where v: "sys_send h fd bs w = (sent, v)" by (cases "sys_send h fd bs w")
  have "bs \<noteq> [] \<Longrightarrow> 0 < sent" "n < w_sends v"
    using v less.prems by (auto simp: sys_send_def Let_def refuses_once_def split: if_splits)
  then show ?case using less.hyps [of "drop (nat sent) bs" v] less.prems
    by (cases "bs = []") (auto simp: send_all_step [OF v] send_all.simps [of h fd "[]"])
qed

lemma refused_once_closes:
  assumes "gcm_laws (h_ssl h)" "gcm_reliable (h_ssl h)" "length (c_aesKey c) = 32" "refuses_once h (w_sends w)"
    and "c_state c \<noteq> CLOSED" "c_fd c \<noteq> -1" "length (path f) < 2 ^ 16"
      "length (path f) + length (data f) + 20 < 2 ^ 31"
  shows "\<exists>c' w'. sendFrame h (Suc (Suc (Suc d))) f (c, w) = (Inr (), (c', w')) \<and> c_state c' = CLOSED
    \<and> c_fd c' = -1 \<and> c_connId c' = c_connId c \<and> c_requests c' = c_requests c \<and> c_aesKey c' = c_aesKey c
    \<and> real_closes w' = real_closes w @ [c_fd c]"
proof -
  let ?c1 = "c\<lparr>c_fid := c_fid c + 1\<rparr>"
  obtain e k where enc: "encodeFrame (h_ssl h) f True (c_aesKey c) (c_fid c + 1) (w_crypto w) = (Inr e, k)"
    using encrypted_decodes [OF assms(1-3,7,8)] by blast
  let ?w1 = "w\<lparr>w_crypto := k, w_sends := Suc (w_sends w)\<rparr>"
  have "send_all h (c_fd c) e (w\<lparr>w_crypto := k\<rparr>) = (False, ?w1)"
    using assms(4) encodeFrame_nonempty [OF enc]
    by (auto simp: send_all.simps [of h _ e] sys_send_def Let_def refuses_once_def not_less)
  then have first: "sendFrame h (Suc (Suc (Suc d))) f (c, w)
      = closeConnection h (Suc (Suc d)) SOCKET_ERROR True (?c1, ?w1)"
    using enc by (simp add: sendFrame_Suc crypto_io_def catch_close Let_def)
  let ?g = "makeRespFrame ?c1 [] [] STATUS_OK 0 0"
  have "length (path ?g) < 2 ^ 16" "length (path ?g) + length (data ?g) + 20 < 2 ^ 31"
    by (simp_all add: makeRespFrame_def makeFrame_def)
  then obtain e' k' where enc': "encodeFrame (h_ssl h) ?g True (c_aesKey ?c1) (c_fid ?c1 + 1) (w_crypto ?w1) = (Inr e', k')"
    using encrypted_decodes [of "h_ssl h" "c_aesKey ?c1" ?g] assms(1-3) by fastforce
  obtain ok w2 where sent: "send_all h (c_fd ?c1) e' (?w1\<lparr>w_crypto := k'\<rparr>) = (ok, w2)" by fastforce
  then have ok using send_all_recovers [OF assms(4), of "?w1\<lparr>w_crypto := k'\<rparr>" "c_fd ?c1" e'] by simp
  then have "\<exists>s'. sendFrame h (Suc d) ?g (?c1, ?w1) = (Inr (), s')"
    using enc' sent by (simp add: sendFrame_Suc crypto_io_def Let_def)
  then obtain c' w' where run: "closeConnection h (Suc (Suc d)) SOCKET_ERROR True (?c1, ?w1) = (Inr (), (c', w'))"
    using assms(5,6) by (auto simp: closeConnection_Suc split: prod.splits)
  have "shut (?c1, ?w1) (c', w')" using closeConnection_effect [OF run] .
  then show ?thesis using first run assms(5,6) by (auto simp: shut_def conn_kept_def real_closes_def)
qed

text \<open>
  C33: a failure in the middle of the handshake is forgotten. When the socket refuses the frame
  that ends the handshake but takes the farewell frame, \<open>sendFrame\<close> closes the connection and its
  descriptor; \<open>_setAesKey\<close> then makes it active all the same, and \<open>readFd\<close> reports success: the
  server keeps an active connection without a descriptor, which no event can ever reach.
\<close>

theorem closed_connection_resurrected:
  assumes "gcm_laws (h_ssl h)" "gcm_reliable (h_ssl h)" "refuses_once h (w_sends w)"
    and "fresh_conn c" "c_inFrameBuffer c = []" "hello h c f key ts"
    and "concat chunks = header_of (length (encodeBody f r)) @ encodeBody f r"
    and "\<not> ts - fst (getTimestamp h w) > 60"
  shows "\<exists>c' w'. readFd h (Suc (Suc (Suc d))) chunks WouldBlock (c, w) = (Inr True, (c', w'))
    \<and> c_state c' = ACTIVE \<and> c_fd c' = -1 \<and> real_closes w' = real_closes w @ [c_fd c]"
proof -
  let ?d = "Suc (Suc (Suc d))"
  have key: "length key = 32" using assms(6) by (simp add: hello_def)
  obtain w2 where w2: "w_sends w2 = w_sends w" "w_closed w2 = w_closed w"
    and run: "readFd h ?d chunks WouldBlock (c, w) = catch_runtime (seqP (setAesKey h ?d key) (retP True))
       (close_return h ?d ENCRYPTION_ERROR) (c, w2)"
    using hello_run [OF assms(4-7), of w ?d] assms(8) by auto
  obtain v k where v: "rand64 (h_ssl h) (w_crypto w2) = (Inr v, k)" using rand64_runs [OF assms(1,2)] by blast
  let ?c1 = "c\<lparr>c_aesKey := key, c_ssid := v\<rparr>" and ?w3 = "w2\<lparr>w_crypto := k\<rparr>"
  let ?f = "makeRespFrame ?c1 [] (lit ''Connection secured'') STATUS_OK 0 0"
  have "path ?f = []" "data ?f = lit ''Connection secured''" by (simp_all add: makeRespFrame_def makeFrame_def)
  then have "length (path ?f) < 2 ^ 16" "length (path ?f) + length (data ?f) + 20 < 2 ^ 31" by simp_all
  then obtain c2 w4 where snd: "sendFrame h ?d ?f (?c1, ?w3) = (Inr (), (c2, w4))"
    and c2: "c_fd c2 = -1" "real_closes w4 = real_closes ?w3 @ [c_fd ?c1]"
    using refused_once_closes [of h ?c1 ?w3 ?f d] assms(1-4) key w2 by (auto simp: fresh_conn_def)
  have "setAesKey h ?d key (c, w2) = (Inr (), (c2\<lparr>c_state := ACTIVE\<rparr>, w4))"
    using v snd by (simp add: setAesKey_run crypto_io_def Let_def)
  then have "readFd h ?d chunks WouldBlock (c, w) = (Inr True, (c2\<lparr>c_state := ACTIVE\<rparr>, w4))"
    using run by (simp add: catch_runtime_def bindP_def prog_simps)
  then show ?thesis using c2 w2 by (auto simp: real_closes_def)
qed

section \<open>The attacks, carried out\<close>

definition hello_frame :: Frame where
  "hello_frame = makeFrame 0 STATUS_REQ 0 [] hello_data 1 0"

definition hello_bytes :: bytes where
  "hello_bytes = header_of (length (encodeBody hello_frame 0)) @ encodeBody hello_frame 0"

text \<open>A socket whose first call of \<open>send\<close> is refused.\<close>

definition hiccup_host :: host where
  "hiccup_host = sample_host\<lparr>h_send := (\<lambda>n fd len. if n = 0 then -1 else int len)\<rparr>"

lemma hello_recorded: "hello sample_host sample_conn hello_frame (replicate 32 9) 1000"
  "concat [hello_bytes] = header_of (length (encodeBody hello_frame 0)) @ encodeBody hello_frame 0"
  using sample_hello by (simp_all add: hello_frame_def hello_bytes_def del: length_encodeBody)

lemma sample_now: "\<not> 1000 - fst (getTimestamp sample_host sample_world) > 60"
  by (simp add: getTimestamp_def sample_host_def)

theorem recorded_session_replayed_witness:
  "\<exists>e c1 w1 c2 w2. encodes sample_host sample_active sample_frame e
    \<and> readFd sample_host 1 [hello_bytes] WouldBlock (sample_conn, sample_world) = (Inr True, (c1, w1))
    \<and> readFd sample_host 1 [hello_bytes] WouldBlock (sample_conn\<lparr>c_connId := 2, c_fd := 8\<rparr>, w1) = (Inr True, (c2, w2))
    \<and> c_state c2 = ACTIVE \<and> c_aesKey c1 = c_aesKey c2
    \<and> (c_ssid c2 \<noteq> 77 \<longrightarrow> fst (readFd sample_host 2 [e] WouldBlock (c2, w2)) = Inr False)"
proof -
  let ?c2 = "sample_conn\<lparr>c_connId := 2, c_fd := 8\<rparr>"
  have "length (path sample_frame) = 5" "length (data sample_frame) = 3" by simp_all
  then obtain e where e: "sealed (h_ssl sample_host) (replicate 32 9) (c_maxFrameSize sample_conn) sample_frame e"
    using seal_exists [of "h_ssl sample_host" "replicate 32 9" sample_frame 65536 no_crypto] by auto
  have fresh: "fresh_conn ?c2" using sample_conn_fields(1) by (simp add: fresh_conn_def)
  have now: "\<not> 1000 - fst (getTimestamp sample_host w) > 60" for w
    by (simp add: getTimestamp_def sample_host_def)
  have ssid: "ssid sample_frame = 77" by (simp add: sample_frame_def makeFrame_def)
  have same: "c_inFrameBuffer ?c2 = []" "c_rsaPrivKey ?c2 = c_rsaPrivKey sample_conn"
    "c_maxFrameSize ?c2 = c_maxFrameSize sample_conn" by simp_all
  have T: "\<exists>c1 w1 c2 w2. readFd sample_host (Suc 0) [hello_bytes] WouldBlock (sample_conn, sample_world) = (Inr True, (c1, w1))
      \<and> readFd sample_host (Suc 0) [hello_bytes] WouldBlock (?c2, w) = (Inr True, (c2, w2))
      \<and> c_state c1 = ACTIVE \<and> c_state c2 = ACTIVE \<and> c_aesKey c1 = replicate 32 9 \<and> c_aesKey c2 = replicate 32 9
      \<and> (ssid sample_frame \<noteq> c_ssid c2 \<longrightarrow>
          (\<exists>c3 w3. readFd sample_host (Suc (Suc 0)) [e] WouldBlock (c2, w2) = (Inr False, (c3, w3))
            \<and> c_state c3 = CLOSED \<and> c_requests c3 = c_requests ?c2))" for w
    by (rule recorded_session_replayed) (fact sample_host_laws sample_conn_fields hello_recorded now fresh same e)+
  obtain c1 w1 where r1: "readFd sample_host 1 [hello_bytes] WouldBlock (sample_conn, sample_world) = (Inr True, (c1, w1))"
    and k1: "c_aesKey c1 = replicate 32 9"
    using T [of sample_world] by auto
  obtain c2 w2 where r2: "readFd sample_host 1 [hello_bytes] WouldBlock (?c2, w1) = (Inr True, (c2, w2))"
    "c_state c2 = ACTIVE" "c_aesKey c2 = replicate 32 9"
    and refused: "ssid sample_frame \<noteq> c_ssid c2 \<longrightarrow>
        (\<exists>c3 w3. readFd sample_host 2 [e] WouldBlock (c2, w2) = (Inr False, (c3, w3)))"
    using T [of w1] unfolding numeral_2_eq_2 One_nat_def by blast
  moreover have "encodes sample_host sample_active sample_frame e"
    using e by (simp add: encodes_def sample_active_def)
  moreover have "c_ssid c2 \<noteq> 77 \<longrightarrow> fst (readFd sample_host 2 [e] WouldBlock (c2, w2)) = Inr False"
    using refused ssid by auto
  ultimately show ?thesis using r1 k1 r2 by metis
qed

theorem reflected_answer_is_request_witness:
  "\<exists>c1 w1 c2 w2. sendFrame sample_host 1 (makeRespFrame sample_active (lit ''/a'') [1] STATUS_OK 0 9)
      (sample_active, sample_world) = (Inr (), (c1, w1))
    \<and> readFd sample_host 1 [wire 5 w1] WouldBlock (c1, w1) = (Inr True, (c2, w2))
    \<and> c_requests c2 = [\<lparr>rq_connID = 1, rq_path = lit ''/a'', rq_data = [1], rq_rid = 9\<rparr>]"
proof -
  have can: "can_send sample_host sample_active"
    using sample_can_decode by (simp add: can_send_def can_decode_def)
  have c: "c_inFrameBuffer sample_active = []" "c_lastCliFid sample_active < c_fid sample_active + 1"
    "c_maxFrameSize sample_active = 65536" "c_requests sample_active = []"
    by (simp_all add: sample_active_def)
  have "wire 5 sample_world = []" by (simp add: wire_def sample_world_def)
  then show ?thesis
    using reflected_answer_is_request [OF can _ c(1) _ _ _ c(2), where pa = "lit ''/a''" and dt = "[1]"
        and st = STATUS_OK and fl = 0 and ri = 9 and w = sample_world and d = 0 and d' = 1] c(3,4)
    by fastforce
qed

theorem closed_connection_resurrected_witness:
  "\<exists>c' w'. readFd hiccup_host 3 [hello_bytes] WouldBlock (sample_conn, sample_world) = (Inr True, (c', w'))
    \<and> c_state c' = ACTIVE \<and> c_fd c' = -1 \<and> real_closes w' = [5]"
proof -
  have h: "h_ssl hiccup_host = h_ssl sample_host" "getTimestamp hiccup_host = getTimestamp sample_host"
    by (simp_all add: hiccup_host_def sample_host_def getTimestamp_def fun_eq_iff)
  have "refuses_once hiccup_host (w_sends sample_world)"
    by (simp add: refuses_once_def hiccup_host_def sample_world_def)
  moreover have "hello hiccup_host sample_conn hello_frame (replicate 32 9) 1000"
    using hello_recorded(1) h by (simp add: hello_def)
  ultimately show ?thesis
    using closed_connection_resurrected [of hiccup_host sample_world sample_conn hello_frame "replicate 32 9" 1000
        "[hello_bytes]" 0 0] sample_now hello_recorded(2) h
    by (simp add: eval_nat_numeral)
qed

end
